(* ===== verification/Prelude.thy ===== *)
theory Prelude
  imports Main "HOL-Library.Char_ord" "HOL-Library.List_Lexorder" "HOL-Library.Multiset"
begin

text \<open>
  The base of the development: the named collections the component proofs feed to the
  simplifier, the type synonyms of the model, and the generic list lemmas about SQL-like
  tables (a table is a list of rows in insertion order).
\<close>

named_theorems act_simps \<open>evaluation rules of statements, actions and handlers\<close>
named_theorems row_simps \<open>how statements change the tables\<close>
named_theorems keep_intros \<open>preservation of invariants\<close>

text \<open>A point in time is a number of nanoseconds since the Unix epoch, in UTC
  (\<open>time.Time\<close>); a duration is a number of nanoseconds (\<open>time.Duration\<close>).\<close>

type_synonym time = int
type_synonym duration = int
type_synonym uuid = string
type_synonym bytes = string

abbreviation microsecond :: duration where "microsecond \<equiv> 1000"
abbreviation millisecond :: duration where "millisecond \<equiv> 1000000"
abbreviation second :: duration where "second \<equiv> 1000000000"
abbreviation minute :: duration where "minute \<equiv> 60000000000"
abbreviation hour :: duration where "hour \<equiv> 3600000000000"

section \<open>Machine integers\<close>

text \<open>The value of a signed integer of \<open>n\<close> bits.\<close>

definition wrapped :: "nat \<Rightarrow> int \<Rightarrow> int" where
  "wrapped n x = (x + 2 ^ (n - 1)) mod 2 ^ n - 2 ^ (n - 1)"

lemma wrapped_id: "-(2 ^ (n - 1)) \<le> x \<Longrightarrow> x < 2 ^ (n - 1) \<Longrightarrow> 0 < n \<Longrightarrow> wrapped n x = x"
  by (cases n) (simp_all add: wrapped_def mod_pos_pos_trivial)

lemma wrapped_range:
  assumes "0 < n"
  shows "-(2 ^ (n - 1)) \<le> wrapped n x" "wrapped n x < 2 ^ (n - 1)"
proof -
  obtain k where n: "n = Suc k" using assms by (cases n) auto
  have "0 \<le> (x + 2 ^ k) mod 2 ^ n" "(x + 2 ^ k) mod 2 ^ n < 2 ^ n" by simp_all
  then show "-(2 ^ (n - 1)) \<le> wrapped n x" "wrapped n x < 2 ^ (n - 1)" by (simp_all add: wrapped_def n)
qed

section \<open>Tables as lists\<close>

text \<open>\<open>UPDATE ... SET f WHERE p\<close> and \<open>DELETE ... WHERE p\<close> over a list of rows.\<close>

definition update_where :: "('r \<Rightarrow> bool) \<Rightarrow> ('r \<Rightarrow> 'r) \<Rightarrow> 'r list \<Rightarrow> 'r list" where
  "update_where p f rows = map (\<lambda>r. if p r then f r else r) rows"

definition delete_where :: "('r \<Rightarrow> bool) \<Rightarrow> 'r list \<Rightarrow> 'r list" where
  "delete_where p rows = filter (\<lambda>r. \<not> p r) rows"

definition count_where :: "('r \<Rightarrow> bool) \<Rightarrow> 'r list \<Rightarrow> nat" where
  "count_where p rows = length (filter p rows)"

text \<open>The first row a query returns, in table order.\<close>

definition first_row :: "('r \<Rightarrow> bool) \<Rightarrow> 'r list \<Rightarrow> 'r option" where
  "first_row p rows = (case filter p rows of [] \<Rightarrow> None | r # _ \<Rightarrow> Some r)"

lemma update_where_simps [simp]:
  "update_where p f [] = []"
  "update_where p f (r # rs) = (if p r then f r else r) # update_where p f rs"
  "update_where p f (xs @ ys) = update_where p f xs @ update_where p f ys"
  by (simp_all add: update_where_def)

lemma delete_where_simps [simp]:
  "delete_where p [] = []"
  "delete_where p (r # rs) = (if p r then delete_where p rs else r # delete_where p rs)"
  "delete_where p (xs @ ys) = delete_where p xs @ delete_where p ys"
  by (simp_all add: delete_where_def)

lemma first_row_simps [simp]:
  "first_row p [] = None"
  "first_row p (r # rs) = (if p r then Some r else first_row p rs)"
  by (simp_all add: first_row_def)

lemma length_update_where [simp]: "length (update_where p f rs) = length rs"
  by (simp add: update_where_def)

lemma set_delete_where [simp]: "set (delete_where p rs) = {r \<in> set rs. \<not> p r}"
  by (auto simp: delete_where_def)

lemma set_update_where: "set (update_where p f rs) = f ` {r \<in> set rs. p r} \<union> {r \<in> set rs. \<not> p r}"
  by (auto simp: update_where_def image_iff)

lemma update_where_none: "(\<And>r. r \<in> set rs \<Longrightarrow> \<not> p r) \<Longrightarrow> update_where p f rs = rs"
  by (induction rs) auto

lemma delete_where_none: "(\<And>r. r \<in> set rs \<Longrightarrow> \<not> p r) \<Longrightarrow> delete_where p rs = rs"
  by (induction rs) auto

lemma first_row_append:
  "first_row p (xs @ ys) = (case first_row p xs of None \<Rightarrow> first_row p ys | Some r \<Rightarrow> Some r)"
  by (induction xs) auto

lemma first_row_NoneD: "first_row p rs = None \<Longrightarrow> r \<in> set rs \<Longrightarrow> \<not> p r"
  by (induction rs) (auto split: if_splits)

lemma first_row_None_iff: "first_row p rs = None \<longleftrightarrow> (\<forall>r \<in> set rs. \<not> p r)"
  by (induction rs) auto

lemma first_row_SomeD: "first_row p rs = Some r \<Longrightarrow> r \<in> set rs \<and> p r"
  by (induction rs) (auto split: if_splits)

text \<open>With a unique key, the row a key selects is the row.\<close>

lemma first_row_unique:
  assumes "r \<in> set rs" "p r" "\<And>x. x \<in> set rs \<Longrightarrow> p x \<Longrightarrow> x = r"
  shows "first_row p rs = Some r"
proof (cases "first_row p rs")
  case None
  with assms(1,2) show ?thesis by (auto dest: first_row_NoneD)
next
  case (Some x)
  with assms(3) [of x] show ?thesis by (auto dest: first_row_SomeD)
qed

text \<open>Updating keeps a projection that the update does not touch.\<close>

lemma map_update_where:
  assumes "\<And>r. p r \<Longrightarrow> g (f r) = g r"
  shows "map g (update_where p f rs) = map g rs"
  using assms by (simp add: update_where_def)

lemma filter_update_where:
  assumes "\<And>r. p r \<Longrightarrow> \<not> q r" "\<And>r. p r \<Longrightarrow> \<not> q (f r)"
  shows "filter q (update_where p f rs) = filter q rs"
  using assms by (induction rs) auto

lemma filter_delete_where:
  assumes "\<And>r. p r \<Longrightarrow> \<not> q r"
  shows "filter q (delete_where p rs) = filter q rs"
  using assms by (induction rs) auto

lemma first_row_update_where:
  assumes "\<And>r. q (if p r then f r else r) = q r"
  shows "first_row q (update_where p f rs) = map_option (\<lambda>r. if p r then f r else r) (first_row q rs)"
  using assms by (induction rs) auto

lemma distinct_map_delete_where: "distinct (map g rs) \<Longrightarrow> distinct (map g (delete_where p rs))"
  by (induction rs) auto

lemma distinct_map_inD:
  assumes "distinct (map g rs)" "x \<in> set rs" "y \<in> set rs" "g x = g y"
  shows "x = y"
  using assms by (metis distinct_map inj_on_def)

lemma first_row_key:
  assumes "distinct (map g rs)" "r \<in> set rs" "g r = k"
  shows "first_row (\<lambda>x. g x = k) rs = Some r"
  using assms by (intro first_row_unique) (auto dest: distinct_map_inD)

lemma count_where_0 [simp]: "count_where p rs = 0 \<longleftrightarrow> first_row p rs = None"
  by (simp add: count_where_def first_row_None_iff filter_empty_conv)

lemma count_where_simps [simp]:
  "count_where p [] = 0"
  "count_where p (r # rs) = (if p r then Suc (count_where p rs) else count_where p rs)"
  by (simp_all add: count_where_def)

lemma count_where_key:
  assumes "distinct (map g rs)" "r \<in> set rs" "g r = k"
  shows "count_where (\<lambda>x. g x = k) rs = 1"
  using assms
proof (induction rs)
  case Nil
  then show ?case by simp
next
  case (Cons a rs)
  then show ?case
    by (cases "a = r") (auto simp: count_where_def filter_empty_conv image_iff)
qed

end
