(* ===== verification/Go_Strings.thy ===== *)
theory Go_Strings
  imports Prelude
begin

text \<open>
  What the program uses of the Go packages \<open>strings\<close>, \<open>strconv\<close>, \<open>unicode/utf8\<close>. A Go string
  is a byte sequence, so it is a HOL \<^typ>\<open>string\<close> whose \<^typ>\<open>char\<close>s are bytes and \<open>len(s)\<close> is
  \<^term>\<open>length s\<close>.
\<close>

abbreviation byte_of :: "char \<Rightarrow> nat" where "byte_of c \<equiv> of_char c"
abbreviation byte :: "nat \<Rightarrow> char" where "byte n \<equiv> char_of n"

section \<open>Prefixes, splitting and joining\<close>

definition has_prefix :: "string \<Rightarrow> string \<Rightarrow> bool" where
  "has_prefix s p \<longleftrightarrow> take (length p) s = p"

definition trim_prefix :: "string \<Rightarrow> string \<Rightarrow> string" where
  "trim_prefix s p = (if has_prefix s p then drop (length p) s else s)"

lemma has_prefix_append [simp]: "has_prefix (p @ s) p"
  by (simp add: has_prefix_def)

lemma has_prefix_iff: "has_prefix s p \<longleftrightarrow> (\<exists>r. s = p @ r)"
  by (metis append_eq_conv_conj append_take_drop_id has_prefix_def)

lemma trim_prefix_append [simp]: "trim_prefix (p @ s) p = s"
  by (simp add: trim_prefix_def)

text \<open>\<open>strings.Split(s, sep)\<close> for a separator of one byte: always at least one part.\<close>

fun split_on :: "char \<Rightarrow> string \<Rightarrow> string list" where
  "split_on sep [] = [[]]"
| "split_on sep (c # cs) =
     (if c = sep then [] # split_on sep cs
      else (case split_on sep cs of [] \<Rightarrow> [[c]] | p # ps \<Rightarrow> (c # p) # ps))"

text \<open>\<open>strings.Join(parts, sep)\<close>.\<close>

fun join_with :: "string \<Rightarrow> string list \<Rightarrow> string" where
  "join_with sep [] = []"
| "join_with sep [p] = p"
| "join_with sep (p # q # ps) = p @ sep @ join_with sep (q # ps)"

lemma split_on_not_Nil [simp]: "split_on sep s \<noteq> []"
  by (induction s) (auto split: list.splits)

lemma join_split_on [simp]: "join_with [sep] (split_on sep s) = s"
proof (induction s)
  case Nil
  then show ?case by simp
next
  case (Cons c cs)
  obtain p ps where s: "split_on sep cs = p # ps"
    by (meson list.exhaust split_on_not_Nil)
  with Cons show ?case by (cases ps) auto
qed

lemma split_on_no_sep: "p \<in> set (split_on sep s) \<Longrightarrow> sep \<notin> set p"
  by (induction s arbitrary: p) (auto split: list.splits if_splits)

lemma split_on_id: "sep \<notin> set s \<Longrightarrow> split_on sep s = [s]"
  by (induction s) auto

lemma split_on_append: "sep \<notin> set p \<Longrightarrow> split_on sep (p @ sep # s) = p # split_on sep s"
  by (induction p) auto

lemma split_join_with:
  "ps \<noteq> [] \<Longrightarrow> \<forall>p \<in> set ps. sep \<notin> set p \<Longrightarrow> split_on sep (join_with [sep] ps) = ps"
  by (induction "[sep]" ps rule: join_with.induct) (auto simp: split_on_id split_on_append)

text \<open>\<open>strings.Contains(s, sub)\<close>.\<close>

fun contains :: "string \<Rightarrow> string \<Rightarrow> bool" where
  "contains [] sub \<longleftrightarrow> sub = []"
| "contains (c # cs) sub \<longleftrightarrow> has_prefix (c # cs) sub \<or> contains cs sub"

lemma contains_iff: "contains s sub \<longleftrightarrow> (\<exists>u v. s = u @ sub @ v)"
proof (induction s)
  case Nil
  then show ?case by simp
next
  case (Cons c cs)
  show ?case
  proof
    assume "contains (c # cs) sub"
    then consider "has_prefix (c # cs) sub" | "contains cs sub" by auto
    then show "\<exists>u v. c # cs = u @ sub @ v"
    proof cases
      case 1
      then obtain r where "c # cs = sub @ r" by (auto simp: has_prefix_iff)
      then show ?thesis by (intro exI [of _ "[]"] exI [of _ r]) simp
    next
      case 2
      then obtain u v where "cs = u @ sub @ v" using Cons by blast
      then show ?thesis by (intro exI [of _ "c # u"] exI [of _ v]) simp
    qed
  next
    assume "\<exists>u v. c # cs = u @ sub @ v"
    then obtain u v where e: "c # cs = u @ sub @ v" by blast
    show "contains (c # cs) sub"
    proof (cases u)
      case Nil
      with e have "has_prefix (c # cs) sub" by simp
      then show ?thesis by simp
    next
      case (Cons d u')
      with e have "cs = u' @ sub @ v" by simp
      then have "contains cs sub" using Cons.IH by blast
      then show ?thesis by simp
    qed
  qed
qed

section \<open>White space\<close>

text \<open>
  The UTF-8 encodings of the runes \<open>unicode.IsSpace\<close> accepts. \<open>strings.TrimSpace\<close> removes
  them from both ends; UTF-8 is self-synchronising, so looking for a whole encoding at the
  end of the string finds what \<open>utf8.DecodeLastRune\<close> finds.
\<close>

definition space_encodings :: "string list" where
  "space_encodings =
     [[byte 9], [byte 10], [byte 11], [byte 12], [byte 13], [byte 32],
      [byte 0xC2, byte 0x85], [byte 0xC2, byte 0xA0], [byte 0xE1, byte 0x9A, byte 0x80]] @
     map (\<lambda>n. [byte 0xE2, byte 0x80, byte n]) [0x80 ..< 0x8B] @
     [[byte 0xE2, byte 0x80, byte 0xA8], [byte 0xE2, byte 0x80, byte 0xA9],
      [byte 0xE2, byte 0x80, byte 0xAF], [byte 0xE2, byte 0x81, byte 0x9F],
      [byte 0xE3, byte 0x80, byte 0x80]]"

text \<open>The length of the space encoding the string starts with, 0 if there is none.\<close>

definition space_prefix :: "string list \<Rightarrow> string \<Rightarrow> nat" where
  "space_prefix encs s = (case filter (has_prefix s) encs of [] \<Rightarrow> 0 | e # _ \<Rightarrow> length e)"

function trim_left :: "string list \<Rightarrow> string \<Rightarrow> string" where
  "trim_left encs s =
     (if space_prefix encs s = 0 then s else trim_left encs (drop (space_prefix encs s) s))"
  by pat_completeness auto
termination
proof (relation "measure (\<lambda>(encs, s). length s)", goal_cases)
  case 1
  show ?case by simp
next
  case (2 encs s)
  then have "s \<noteq> []"
    by (auto simp: space_prefix_def has_prefix_def split: list.splits dest: filter_eq_ConsD)
  with 2 show ?case by simp
qed

declare trim_left.simps [simp del]

text \<open>The right end is the left end of the reversed string, with reversed encodings.\<close>

definition trim_space :: "string \<Rightarrow> string" where
  "trim_space s =
     rev (trim_left (map rev space_encodings) (rev (trim_left space_encodings s)))"

lemma trim_left_suffix: "\<exists>u. s = u @ trim_left encs s"
proof (induction encs s rule: trim_left.induct)
  case (1 encs s)
  show ?case
  proof (cases "space_prefix encs s = 0")
    case True
    then show ?thesis by (simp add: trim_left.simps [of encs s])
  next
    case False
    then obtain u where "drop (space_prefix encs s) s = u @ trim_left encs s"
      using 1 by (auto simp: trim_left.simps [of encs s])
    then have "s = (take (space_prefix encs s) s @ u) @ trim_left encs s"
      by (metis append.assoc append_take_drop_id)
    then show ?thesis by blast
  qed
qed

lemma trim_left_fixed: "space_prefix encs (trim_left encs s) = 0"
proof (induction encs s rule: trim_left.induct)
  case (1 encs s)
  then show ?case by (cases "space_prefix encs s = 0") (simp_all add: trim_left.simps [of encs s])
qed

lemma trim_left_id: "space_prefix encs s = 0 \<Longrightarrow> trim_left encs s = s"
  by (simp add: trim_left.simps [of encs s])

lemma length_trim_left: "length (trim_left encs s) \<le> length s"
  using trim_left_suffix [of s encs] by (metis length_append le_add2)

lemma length_trim_space: "length (trim_space s) \<le> length s"
  unfolding trim_space_def
  by (metis length_trim_left length_rev order_trans)

section \<open>Runes\<close>

text \<open>
  The number of bytes of the rune the string starts with, as \<open>utf8.DecodeRune\<close> accepts it:
  \<^term>\<open>None\<close> for an invalid encoding, of which the decoder consumes one byte.
\<close>

definition cont_byte :: "nat \<Rightarrow> nat \<Rightarrow> nat \<Rightarrow> bool" where
  "cont_byte lo hi b \<longleftrightarrow> lo \<le> b \<and> b \<le> hi"

definition rune_len :: "string \<Rightarrow> nat option" where
  "rune_len s =
     (case map byte_of s of
        [] \<Rightarrow> None
      | b # r \<Rightarrow>
          if b < 0x80 then Some 1
          else if 0xC2 \<le> b \<and> b \<le> 0xDF then
            (if 1 \<le> length r \<and> cont_byte 0x80 0xBF (r ! 0) then Some 2 else None)
          else if 0xE0 \<le> b \<and> b \<le> 0xEF then
            (if 2 \<le> length r
                \<and> cont_byte (if b = 0xE0 then 0xA0 else 0x80) (if b = 0xED then 0x9F else 0xBF) (r ! 0)
                \<and> cont_byte 0x80 0xBF (r ! 1) then Some 3 else None)
          else if 0xF0 \<le> b \<and> b \<le> 0xF4 then
            (if 3 \<le> length r
                \<and> cont_byte (if b = 0xF0 then 0x90 else 0x80) (if b = 0xF4 then 0x8F else 0xBF) (r ! 0)
                \<and> cont_byte 0x80 0xBF (r ! 1) \<and> cont_byte 0x80 0xBF (r ! 2) then Some 4 else None)
          else None)"

text \<open>\<open>utf8.RuneError\<close>, U+FFFD, as \<open>WriteRune\<close> writes it for an invalid byte.\<close>

definition rune_error :: string where
  "rune_error = [byte 0xEF, byte 0xBF, byte 0xBD]"

text \<open>What \<open>for _, r := range s\<close> yields: one encoded rune per step.\<close>

function runes :: "string \<Rightarrow> string list" where
  "runes s =
     (if s = [] then []
      else (case rune_len s of
              Some n \<Rightarrow> take n s # runes (drop n s)
            | None \<Rightarrow> rune_error # runes (drop 1 s)))"
  by pat_completeness auto
termination
proof (relation "measure length", goal_cases)
  case 1
  show ?case by simp
next
  case (2 s)
  then show ?case by simp
next
  case (3 s n)
  then have "0 < n" by (auto simp: rune_len_def split: list.splits if_splits)
  with 3 show ?case by simp
qed

declare runes.simps [simp del]

text \<open>Valid UTF-8: no step meets an invalid byte.\<close>

function valid_utf8 :: "string \<Rightarrow> bool" where
  "valid_utf8 s \<longleftrightarrow>
     (if s = [] then True
      else (case rune_len s of Some n \<Rightarrow> valid_utf8 (drop n s) | None \<Rightarrow> False))"
  by pat_completeness auto
termination
proof (relation "measure length", goal_cases)
  case 1
  show ?case by simp
next
  case (2 s)
  then show ?case by (auto simp: rune_len_def split: list.splits if_splits)
qed

declare valid_utf8.simps [simp del]

definition ascii :: "string \<Rightarrow> bool" where
  "ascii s \<longleftrightarrow> list_all (\<lambda>c. byte_of c < 0x80) s"

lemma runes_Nil [simp]: "runes [] = []"
  by (simp add: runes.simps)

lemma rune_len_ascii [simp]: "byte_of c < (0x80 :: nat) \<Longrightarrow> rune_len (c # s) = Some 1"
  by (simp add: rune_len_def)

lemma runes_ascii_Cons: "byte_of c < (0x80 :: nat) \<Longrightarrow> runes (c # s) = [c] # runes s"
  by (simp add: runes.simps [of "c # s"])

lemma runes_ascii: "ascii s \<Longrightarrow> runes s = map (\<lambda>c. [c]) s"
  by (induction s) (auto simp: ascii_def runes_ascii_Cons)

lemma valid_utf8_Nil [simp]: "valid_utf8 []"
  by (simp add: valid_utf8.simps)

lemma valid_utf8_ascii: "ascii s \<Longrightarrow> valid_utf8 s"
proof (induction s)
  case (Cons c s)
  then show ?case
    by (simp add: ascii_def valid_utf8.simps [of "c # s"])
qed simp

lemma concat_runes: "valid_utf8 s \<Longrightarrow> concat (runes s) = s"
proof (induction s rule: runes.induct)
  case (1 s)
  show ?case
  proof (cases "s = [] \<or> rune_len s = None")
    case True
    with "1.prems" show ?thesis by (auto simp: runes.simps [of s] valid_utf8.simps [of s])
  next
    case False
    then obtain n where n: "rune_len s = Some n" and ne: "s \<noteq> []" by auto
    with "1.prems" have "valid_utf8 (drop n s)" by (simp add: valid_utf8.simps [of s])
    with "1.IH" n ne have "concat (runes (drop n s)) = drop n s" by blast
    with n ne show ?thesis by (simp add: runes.simps [of s])
  qed
qed

section \<open>Letters and numbers\<close>

definition ascii_lower_char :: "char \<Rightarrow> char" where
  "ascii_lower_char c =
     (if CHR ''A'' \<le> c \<and> c \<le> CHR ''Z'' then byte (byte_of c + 32) else c)"

text \<open>Lower case on the ASCII letters: what SQLite's \<open>lower\<close> does to any string, and what
  \<open>strings.ToLower\<close> does to an ASCII one.\<close>

definition ascii_lower :: "string \<Rightarrow> string" where
  "ascii_lower s = map ascii_lower_char s"

definition is_digit :: "char \<Rightarrow> bool" where
  "is_digit c \<longleftrightarrow> CHR ''0'' \<le> c \<and> c \<le> CHR ''9''"

definition digit_val :: "char \<Rightarrow> nat" where
  "digit_val c = byte_of c - 48"

definition nat_of_digits :: "string \<Rightarrow> nat" where
  "nat_of_digits ds = foldl (\<lambda>n c. 10 * n + digit_val c) 0 ds"

text \<open>
  \<open>strconv.ParseInt(s, 10, bits)\<close>: an optional sign, at least one decimal digit and nothing
  else; \<^term>\<open>None\<close> is the error return (bad syntax or out of range).
\<close>

definition parse_int :: "nat \<Rightarrow> string \<Rightarrow> int option" where
  "parse_int bits s =
     (let neg = (s \<noteq> [] \<and> hd s = CHR ''-'');
          ds = (if s \<noteq> [] \<and> (hd s = CHR ''-'' \<or> hd s = CHR ''+'') then tl s else s);
          n = int (nat_of_digits ds)
      in if ds = [] \<or> \<not> list_all is_digit ds then None
         else if neg then (if n \<le> 2 ^ (bits - 1) then Some (- n) else None)
         else (if n < 2 ^ (bits - 1) then Some n else None))"

lemma parse_int_range:
  "parse_int bits s = Some n \<Longrightarrow> - (2 ^ (bits - 1)) \<le> n \<and> n < 2 ^ (bits - 1)"
proof -
  assume p: "parse_int bits s = Some n"
  have pow: "(0::int) < 2 ^ (bits - 1)" by simp
  from p obtain m :: nat where
    "n = - int m \<and> int m \<le> 2 ^ (bits - 1) \<or> n = int m \<and> int m < 2 ^ (bits - 1)"
    unfolding parse_int_def Let_def by (auto split: if_splits)
  with pow show ?thesis by linarith
qed

text \<open>Decimal output (\<open>strconv.Itoa\<close>, \<open>%d\<close>).\<close>

fun show_nat :: "nat \<Rightarrow> string" where
  "show_nat n = (if n < 10 then [byte (48 + n)] else show_nat (n div 10) @ [byte (48 + n mod 10)])"

declare show_nat.simps [simp del]

definition show_int :: "int \<Rightarrow> string" where
  "show_int i = (if i < 0 then ''-'' @ show_nat (nat (- i)) else show_nat (nat i))"

text \<open>Exactly \<open>w\<close> digits, most significant first (\<open>%0wd\<close> of a number that fits).\<close>

fun show_fixed :: "nat \<Rightarrow> nat \<Rightarrow> string" where
  "show_fixed 0 n = []"
| "show_fixed (Suc w) n = show_fixed w (n div 10) @ [byte (48 + n mod 10)]"

lemma show_fixed_numeral [simp]:
  "show_fixed (numeral k) n = show_fixed (pred_numeral k) (n div 10) @ [byte (48 + n mod 10)]"
  unfolding numeral_eq_Suc [of k] by (rule show_fixed.simps)

lemma show_fixed_1 [simp]: "show_fixed 1 n = [byte (48 + n mod 10)]"
  unfolding One_nat_def by simp

lemma is_digit_byte [simp]: "d < 10 \<Longrightarrow> is_digit (byte (48 + d))"
  by (simp add: is_digit_def less_eq_char_def)

lemma digit_val_byte [simp]: "d < 10 \<Longrightarrow> digit_val (byte (48 + d)) = d"
  by (simp add: digit_val_def)

lemma nat_of_digits_append: "nat_of_digits (xs @ [c]) = 10 * nat_of_digits xs + digit_val c"
  by (simp add: nat_of_digits_def)

lemma show_nat_digits: "show_nat n \<noteq> [] \<and> list_all is_digit (show_nat n)"
proof (induction n rule: show_nat.induct)
  case (1 n)
  then show ?case by (subst (1 2) show_nat.simps) (auto simp del: char_of_nat)
qed

lemma nat_of_show_nat [simp]: "nat_of_digits (show_nat n) = n"
proof (induction n rule: show_nat.induct)
  case (1 n)
  then show ?case
    by (subst show_nat.simps) (auto simp: nat_of_digits_append nat_of_digits_def)
qed

lemma show_nat_inj: "show_nat m = show_nat n \<Longrightarrow> m = n"
  by (metis nat_of_show_nat)

lemma length_show_fixed [simp]: "length (show_fixed w n) = w"
  by (induction w arbitrary: n) simp_all

lemma nat_of_show_fixed: "n < 10 ^ w \<Longrightarrow> nat_of_digits (show_fixed w n) = n"
  by (induction w arbitrary: n) (auto simp: nat_of_digits_append nat_of_digits_def less_mult_imp_div_less)

lemma show_fixed_digits: "list_all is_digit (show_fixed w n)"
  by (induction w arbitrary: n) auto

text \<open>For evaluating on concrete digits.\<close>

lemmas digits_simps = parse_int_def Let_def nat_of_digits_def is_digit_def digit_val_def less_eq_char_def

lemma digit_bytes:
  "byte 48 = CHR ''0''" "byte 49 = CHR ''1''" "byte 50 = CHR ''2''" "byte 51 = CHR ''3''" "byte 52 = CHR ''4''"
  "byte 53 = CHR ''5''" "byte 54 = CHR ''6''" "byte 55 = CHR ''7''" "byte 56 = CHR ''8''" "byte 57 = CHR ''9''"
  by code_simp+

end
