(* ===== verification/Go_Time.thy ===== *)
theory Go_Time
  imports Go_Strings
begin

text \<open>
  Times and their text forms (\<open>internal/platform/db/sqlite_time.go\<close>). A time is a number of
  nanoseconds since the Unix epoch in UTC; its calendar fields are those of the proleptic
  Gregorian calendar, as in the Go package \<open>time\<close>. SQLite keeps times as text and its
  comparisons (\<open>next_attempt_at <= ?\<close>) compare that text; the tables of this development keep
  the number, which the theories \<open>Sqlite_Time\<close> and \<open>Sqlite_Parse\<close> justify by the order of the
  fixed-width text and by reading it back.
\<close>

record civil =
  cv_year :: int
  cv_month :: nat
  cv_day :: nat
  cv_hour :: nat
  cv_minute :: nat
  cv_second :: nat
  cv_nano :: nat

text \<open>The date of a day number (days since 1970-01-01), by 400-year eras of 146097 days.\<close>

definition day_of_era :: "int \<Rightarrow> int" where
  "day_of_era z = (z + 719468) mod 146097"

definition year_of_era :: "int \<Rightarrow> int" where
  "year_of_era doe = (doe - doe div 1460 + doe div 36524 - doe div 146096) div 365"

definition civil_date :: "int \<Rightarrow> int \<times> nat \<times> nat" where
  "civil_date z =
     (let era = (z + 719468) div 146097;
          doe = day_of_era z;
          yoe = year_of_era doe;
          doy = doe - (365 * yoe + yoe div 4 - yoe div 100);
          mp = (5 * doy + 2) div 153;
          d = doy - (153 * mp + 2) div 5 + 1;
          m = (if mp < 10 then mp + 3 else mp - 9);
          y = yoe + era * 400
      in (if m \<le> 2 then y + 1 else y, nat m, nat d))"

definition civil_of :: "time \<Rightarrow> civil" where
  "civil_of t =
     (let days = t div (24 * hour); ns = t mod (24 * hour); (y, m, d) = civil_date days
      in \<lparr>cv_year = y, cv_month = m, cv_day = d,
          cv_hour = nat (ns div hour), cv_minute = nat (ns mod hour div minute),
          cv_second = nat (ns mod minute div second), cv_nano = nat (ns mod second)\<rparr>)"

text \<open>\<open>2006-01-02T15:04:05\<close>, common to the layouts the program uses.\<close>

definition format_seconds :: "civil \<Rightarrow> string" where
  "format_seconds c =
     show_fixed 4 (nat (cv_year c)) @ ''-'' @ show_fixed 2 (cv_month c) @ ''-'' @
     show_fixed 2 (cv_day c) @ ''T'' @ show_fixed 2 (cv_hour c) @ '':'' @
     show_fixed 2 (cv_minute c) @ '':'' @ show_fixed 2 (cv_second c)"

text \<open>\<open>SQLiteTime\<close>: nine fraction digits, always.\<close>

definition sqlite_time :: "time \<Rightarrow> string" where
  "sqlite_time t =
     format_seconds (civil_of t) @ ''.'' @ show_fixed 9 (cv_nano (civil_of t)) @ ''Z''"

text \<open>\<open>time.RFC3339Nano\<close>, which \<open>encoding/json\<close> uses: trailing zeros of the fraction are dropped.\<close>

definition rfc3339_nano :: "time \<Rightarrow> string" where
  "rfc3339_nano t =
     format_seconds (civil_of t) @
     (let f = rev (dropWhile (\<lambda>c. c = CHR ''0'') (rev (show_fixed 9 (cv_nano (civil_of t)))))
      in if f = [] then [] else ''.'' @ f) @ ''Z''"

text \<open>\<open>Truncate(time.Microsecond)\<close>.\<close>

definition truncate_micro :: "time \<Rightarrow> time" where
  "truncate_micro t = t - t mod microsecond"

lemma civil_date_examples:
  "civil_date 19974 = (2024, 9, 8)" "civil_date 11016 = (2000, 2, 29)" "civil_date (- 1) = (1969, 12, 31)"
  by code_simp+

lemma length_sqlite_time [simp]: "length (sqlite_time t) = 30"
  by (simp add: sqlite_time_def format_seconds_def)

end
