(* ===== verification/Json.thy ===== *)
theory Json
  imports Go_Time
begin

text \<open>
  JSON documents as \<open>encoding/json\<close> writes and reads them. A document is a value; its text is
  \<open>render\<close>. Numbers are integers, the only ones the program writes. Reading into an \<open>any\<close> and
  writing back (what \<open>slogx.RedactJSON\<close> does around the redaction) goes through
  \<open>map[string]any\<close> and \<open>float64\<close>: of equal keys the last one stays, keys come out sorted, bytes
  that are not UTF-8 become U+FFFD, an integer becomes the nearest \<open>float64\<close>, written with as few
  digits as identify it (in exponent form from \<open>10^21\<close> on, which \<open>render\<close> does not follow). A document
  with an integer beyond \<open>float64\<close> or more than 10000 levels of nesting cannot be read.
\<close>

datatype json =
    JNull
  | JBool bool
  | JNum int
  | JStr string
  | JArr "json list"
  | JObj "(string \<times> json) list"

section \<open>Writing\<close>

definition hex_digit :: "nat \<Rightarrow> char" where
  "hex_digit n = (if n < 10 then byte (48 + n) else byte (87 + n))"

text \<open>One rune of a string literal, with the escapes of \<open>json.Marshal\<close> (HTML-safe).\<close>

definition json_escape :: "string \<Rightarrow> string" where
  "json_escape r =
     (case r of
        [c] \<Rightarrow>
          if c = CHR 0x22 \<or> c = CHR 0x5C then [CHR 0x5C, c]
          else if byte_of c = (8 :: nat) then [CHR 0x5C, CHR ''b'']
          else if byte_of c = (12 :: nat) then [CHR 0x5C, CHR ''f'']
          else if byte_of c = (10 :: nat) then [CHR 0x5C, CHR ''n'']
          else if byte_of c = (13 :: nat) then [CHR 0x5C, CHR ''r'']
          else if byte_of c = (9 :: nat) then [CHR 0x5C, CHR ''t'']
          else if byte_of c < (0x20 :: nat) \<or> c = CHR ''<'' \<or> c = CHR ''>'' \<or> c = CHR ''&'' then
            [CHR 0x5C, CHR ''u'', CHR ''0'', CHR ''0'', hex_digit (byte_of c div 16), hex_digit (byte_of c mod 16)]
          else [c]
      | _ \<Rightarrow>
          if r = [byte 0xE2, byte 0x80, byte 0xA8] then CHR 0x5C # ''u2028''
          else if r = [byte 0xE2, byte 0x80, byte 0xA9] then CHR 0x5C # ''u2029''
          else r)"

text \<open>\<open>json.Marshal\<close> writes an invalid byte as the escape \<open>\ufffd\<close>, a valid rune as itself.\<close>

function escape_runes :: "string \<Rightarrow> string" where
  "escape_runes s =
     (if s = [] then []
      else (case rune_len s of
              Some n \<Rightarrow> json_escape (take n s) @ escape_runes (drop n s)
            | None \<Rightarrow> (CHR 0x5C # ''ufffd'') @ escape_runes (drop 1 s)))"
  by pat_completeness auto
termination
proof (relation "measure length", goal_cases)
  case 1
  show ?case by simp
next
  case (2 s)
  then show ?case by simp
next
  case (3 s n)
  then have "0 < n" by (auto simp: rune_len_def split: list.splits if_splits)
  with 3 show ?case by simp
qed

declare escape_runes.simps [simp del]

definition render_string :: "string \<Rightarrow> string" where
  "render_string s = [CHR 0x22] @ escape_runes s @ [CHR 0x22]"

fun render :: "json \<Rightarrow> string" where
  "render JNull = ''null''"
| "render (JBool b) = (if b then ''true'' else ''false'')"
| "render (JNum n) = show_int n"
| "render (JStr s) = render_string s"
| "render (JArr js) = ''['' @ join_with '','' (map render js) @ '']''"
| "render (JObj kvs) =
     ''{'' @ join_with '','' (map (\<lambda>kv. render_string (fst kv) @ '':'' @ render (snd kv)) kvs) @ ''}''"

section \<open>Reading into \<open>any\<close> and writing back\<close>

fun bit_len :: "nat \<Rightarrow> nat" where
  "bit_len n = (if n = 0 then 0 else Suc (bit_len (n div 2)))"

declare bit_len.simps [simp del]

text \<open>The \<open>float64\<close> nearest to an integer, ties to even; exact up to 53 bits.\<close>

definition float64_int :: "int \<Rightarrow> int" where
  "float64_int n =
     (let a = nat \<bar>n\<bar>; e = bit_len a - 53;
          q = a div 2 ^ e; r = a mod 2 ^ e; h = 2 ^ e div 2;
          q' = (if e = 0 then q else if h < r \<or> (r = h \<and> odd q) then q + 1 else q)
      in sgn n * int (q' * 2 ^ e))"

text \<open>
  The integer whose digits \<open>strconv\<close> writes for a \<open>float64\<close> of integer value: from 53 bits on the
  multiple of the largest power of ten that reads as the same \<open>float64\<close>, the nearer one where both
  neighbours do.
\<close>

fun shortest_from :: "nat \<Rightarrow> nat \<Rightarrow> nat" where
  "shortest_from v 0 = v"
| "shortest_from v (Suc p) =
     (let s = 10 ^ Suc p; lo = v div s * s; hi = lo + s;
          reads = (\<lambda>c. float64_int (int c) = int v)
      in if reads lo \<and> reads hi then
           (if 2 * (v - lo) < s \<or> (2 * (v - lo) = s \<and> even (v div s)) then lo else hi)
         else if reads lo then lo
         else if reads hi then hi
         else shortest_from v p)"

definition float_text :: "int \<Rightarrow> int" where
  "float_text n =
     (let v = float64_int n
      in if \<bar>v\<bar> < 2 ^ 53 then v else sgn v * int (shortest_from (nat \<bar>v\<bar>) 308))"

text \<open>Of equal keys the last one stays (a Go map has each key once).\<close>

fun last_wins :: "('k \<times> 'v) list \<Rightarrow> ('k \<times> 'v) list" where
  "last_wins [] = []"
| "last_wins ((k, v) # kvs) = (if k \<in> fst ` set kvs then last_wins kvs else (k, v) # last_wins kvs)"

text \<open>The value \<open>json.Unmarshal\<close> stores in an \<open>any\<close>, as the document \<open>json.Marshal\<close> makes of it.\<close>

fun any_of :: "json \<Rightarrow> json" where
  "any_of (JNum n) = JNum (float_text n)"
| "any_of (JStr s) = JStr (concat (runes s))"
| "any_of (JArr js) = JArr (map any_of js)"
| "any_of (JObj kvs) =
     JObj (sort_key fst (last_wins (map (\<lambda>kv. (concat (runes (fst kv)), any_of (snd kv))) kvs)))"
| "any_of j = j"

text \<open>
  The documents \<open>json.Unmarshal\<close> can store in an \<open>any\<close>, within \<open>d\<close> more levels of nesting: an
  integer that rounds beyond the largest \<open>float64\<close> is an error, and so are more than 10000 levels.
\<close>

definition max_nesting :: nat where
  "max_nesting = 10000"

fun readable :: "nat \<Rightarrow> json \<Rightarrow> bool" where
  "readable d (JNum n) \<longleftrightarrow> \<bar>n\<bar> < 2 ^ 1024 - 2 ^ 970"
| "readable d (JArr js) \<longleftrightarrow> 0 < d \<and> list_all (readable (d - 1)) js"
| "readable d (JObj kvs) \<longleftrightarrow> 0 < d \<and> list_all (\<lambda>kv. readable (d - 1) (snd kv)) kvs"
| "readable d j \<longleftrightarrow> True"

lemma bit_len_le: "n < 2 ^ k \<Longrightarrow> bit_len n \<le> k"
proof (induction k arbitrary: n)
  case 0
  then show ?case by (simp add: bit_len.simps)
next
  case (Suc k)
  then have "n div 2 < 2 ^ k" by auto
  then have "bit_len (n div 2) \<le> k" by (rule Suc.IH)
  then show ?case by (subst bit_len.simps) simp
qed

text \<open>Integers of at most 53 bits survive the trip through \<open>float64\<close>.\<close>

lemma float64_int_exact: "\<bar>n\<bar> < 2 ^ 53 \<Longrightarrow> float64_int n = n"
proof -
  assume "\<bar>n\<bar> < 2 ^ 53"
  then have "nat \<bar>n\<bar> < 2 ^ 53" by (simp add: nat_less_iff)
  then have "bit_len (nat \<bar>n\<bar>) - 53 = 0" using bit_len_le by simp
  then show ?thesis by (simp add: float64_int_def Let_def mult_sgn_abs)
qed

lemma float_text_exact: "\<bar>n\<bar> < 2 ^ 53 \<Longrightarrow> float_text n = n"
  by (simp add: float_text_def float64_int_exact)

lemma readable_int64: "-(2 ^ 63) \<le> n \<Longrightarrow> n < 2 ^ 63 \<Longrightarrow> readable d (JNum n)"
proof -
  assume "-(2 ^ 63) \<le> n" "n < 2 ^ 63"
  then have "\<bar>n\<bar> \<le> 2 ^ 63" by simp
  also have "(2 :: int) ^ 63 < 2 ^ 1024 - 2 ^ 970" by simp
  finally show ?thesis by simp
qed

lemma float64_int_inexact: "float64_int 9007199254740993 = 9007199254740992"
proof -
  have b: "bit_len 9007199254740993 = 54" by (simp add: bit_len.simps)
  show ?thesis unfolding float64_int_def Let_def by (simp add: b)
qed

lemma set_last_wins: "set (last_wins kvs) \<subseteq> set kvs"
  by (induction kvs rule: last_wins.induct) auto

lemma keys_last_wins [simp]: "fst ` set (last_wins kvs) = fst ` set kvs"
  by (induction kvs rule: last_wins.induct) auto

lemma distinct_last_wins: "distinct (map fst (last_wins kvs))"
  by (induction kvs rule: last_wins.induct) (auto simp: image_iff dest: set_last_wins [THEN subsetD])

lemma last_wins_id: "distinct (map fst kvs) \<Longrightarrow> last_wins kvs = kvs"
  by (induction kvs rule: last_wins.induct) (auto simp: image_iff)

end
