(* ===== verification/App_Error.thy ===== *)
theory App_Error
  imports Json
begin

text \<open>
  Errors (\<open>internal/platform/httpx/error.go\<close>, \<open>respond.go\<close>). An error value is a chain: an
  \<open>*AppError\<close> and a \<open>fmt.Errorf("...: %w")\<close> hold the error they wrap, a package variable made
  by \<open>errors.New\<close> and an error of a dependency end the chain. The field \<open>Op\<close> (file and line
  of the call, for the log only) is left out.
\<close>

datatype go_error =
    Sentinel string                                     \<comment> \<open>a package variable, by its identity\<close>
  | App_Error (app_layer: string) (app_code: string) (app_message: string) (app_err: "go_error option")
  | Errorf string go_error                              \<comment> \<open>\<open>fmt.Errorf("text: %w", err)\<close>\<close>
  | Max_Bytes                                           \<comment> \<open>\<open>*http.MaxBytesError\<close>\<close>
  | Opaque string                                       \<comment> \<open>an error of a driver or of the runtime\<close>

definition NewAppError :: "string \<Rightarrow> string \<Rightarrow> string \<Rightarrow> go_error option \<Rightarrow> go_error" where
  "NewAppError layer code message err = App_Error layer code message err"

text \<open>\<open>errors.Unwrap\<close>.\<close>

fun unwrap :: "go_error \<Rightarrow> go_error option" where
  "unwrap (App_Error _ _ _ e) = e"
| "unwrap (Errorf _ e) = Some e"
| "unwrap _ = None"

text \<open>\<open>errors.Is(err, target)\<close> for a package variable, \<open>errors.As(err, &appErr)\<close>: both walk the
  chain from the outside.\<close>

fun errors_is :: "go_error \<Rightarrow> string \<Rightarrow> bool" where
  "errors_is (Sentinel s) t \<longleftrightarrow> s = t"
| "errors_is (App_Error _ _ _ None) t \<longleftrightarrow> False"
| "errors_is (App_Error _ _ _ (Some e)) t \<longleftrightarrow> errors_is e t"
| "errors_is (Errorf _ e) t \<longleftrightarrow> errors_is e t"
| "errors_is _ t \<longleftrightarrow> False"

fun errors_as_app :: "go_error \<Rightarrow> go_error option" where
  "errors_as_app (App_Error l c m e) = Some (App_Error l c m e)"
| "errors_as_app (Errorf _ e) = errors_as_app e"
| "errors_as_app _ = None"

fun errors_as_max_bytes :: "go_error \<Rightarrow> bool" where
  "errors_as_max_bytes Max_Bytes \<longleftrightarrow> True"
| "errors_as_max_bytes (Errorf _ e) \<longleftrightarrow> errors_as_max_bytes e"
| "errors_as_max_bytes (App_Error _ _ _ (Some e)) \<longleftrightarrow> errors_as_max_bytes e"
| "errors_as_max_bytes _ \<longleftrightarrow> False"

text \<open>\<open>(*AppError).HTTPStatus\<close>: the switch on the code.\<close>

definition HTTPStatus :: "string \<Rightarrow> nat" where
  "HTTPStatus code =
     (if code = ''NOT_FOUND'' then 404
      else if code = ''VALIDATION'' \<or> code = ''VALIDATION_ERROR'' then 422
      else if code = ''CONFLICT'' \<or> code = ''ALREADY_EXISTS'' \<or> code = ''EMAIL_TAKEN'' then 409
      else if code = ''UNAUTHORIZED'' \<or> code = ''INVALID_CREDENTIALS'' then 401
      else if code = ''FORBIDDEN'' then 403
      else if code = ''BAD_REQUEST'' then 400
      else if code = ''TOO_MANY_REQUESTS'' \<or> code = ''RATE_LIMITED'' then 429
      else if code = ''PAYLOAD_TOO_LARGE'' then 413
      else if code = ''INTERNAL_SERVER_ERROR'' then 500
      else if code = ''DB_UNAVAILABLE'' then 503
      else if code = ''IDEMPOTENCY_KEY_MISMATCH'' then 422
      else if code = ''CONCURRENT_REQUEST'' \<or> code = ''IDEMPOTENCY_CONFLICT'' then 409
      else if code = ''INVALID_IDEMPOTENCY_KEY'' then 400
      else if code = ''TOKEN_EXPIRED'' then 401
      else 500)"

text \<open>\<open>httpx.Wrap(layer, err, fallback)\<close>; \<^term>\<open>None\<close> is the nil error.\<close>

definition Wrap :: "string \<Rightarrow> go_error option \<Rightarrow> string \<Rightarrow> go_error option" where
  "Wrap layer err fallback =
     (case err of
        None \<Rightarrow> None
      | Some e \<Rightarrow>
          (case errors_as_app e of
             Some a \<Rightarrow> Some (NewAppError layer (app_code a) (app_message a) (Some e))
           | None \<Rightarrow> Some (NewAppError layer ''INTERNAL_ERROR'' fallback (Some e))))"

text \<open>The same on an error that is there, as the services call it.\<close>

abbreviation wrap :: "string \<Rightarrow> string \<Rightarrow> go_error \<Rightarrow> go_error" where
  "wrap layer fallback e \<equiv> the (Wrap layer (Some e) fallback)"

text \<open>What the client is told of an error: the code and message of the outermost
  \<open>AppError\<close> of the chain, or \<open>INTERNAL_ERROR\<close> with the handler's fallback.\<close>

definition public_view :: "string \<Rightarrow> go_error \<Rightarrow> nat \<times> string \<times> string" where
  "public_view fallback e =
     (case errors_as_app e of
        Some a \<Rightarrow> (HTTPStatus (app_code a), app_code a, app_message a)
      | None \<Rightarrow> (500, ''INTERNAL_ERROR'', fallback))"

lemma errors_as_app_shape: "errors_as_app e = Some a \<Longrightarrow> \<exists>l c m i. a = App_Error l c m i"
  by (induction e rule: errors_as_app.induct) auto

lemma Wrap_Some: "\<exists>l c m. Wrap layer (Some e) fallback = Some (App_Error l c m (Some e))"
  by (auto simp: Wrap_def NewAppError_def split: option.splits)

lemma errors_is_wrap [simp]: "errors_is (wrap layer fallback e) t = errors_is e t"
  by (auto simp: Wrap_def NewAppError_def split: option.splits)

lemma public_view_wrap_app:
  "errors_as_app e = Some a \<Longrightarrow>
    public_view fb (wrap layer fb' e) = (HTTPStatus (app_code a), app_code a, app_message a)"
  by (simp add: public_view_def Wrap_def NewAppError_def)

lemma public_view_wrap_other:
  "errors_as_app e = None \<Longrightarrow> public_view fb (wrap layer fb' e) = (500, ''INTERNAL_ERROR'', fb')"
  by (simp add: public_view_def Wrap_def NewAppError_def HTTPStatus_def)

text \<open>An error on its way up through the layers, each with its own fallback message.\<close>

fun wrap_layers :: "(string \<times> string) list \<Rightarrow> go_error \<Rightarrow> go_error" where
  "wrap_layers [] e = e"
| "wrap_layers ((layer, fallback) # ls) e = wrap layer fallback (wrap_layers ls e)"

lemma wrap_layers_as_app:
  "errors_as_app e = Some a \<Longrightarrow>
    \<exists>b. errors_as_app (wrap_layers ls e) = Some b \<and> app_code b = app_code a \<and> app_message b = app_message a"
proof (induction ls)
  case (Cons l ls)
  then obtain b where "errors_as_app (wrap_layers ls e) = Some b"
    "app_code b = app_code a" "app_message b = app_message a" by auto
  then show ?case by (cases l) (auto simp: Wrap_def NewAppError_def)
qed simp

lemma wrap_layers_is: "errors_is (wrap_layers ls e) t = errors_is e t"
  by (induction ls) auto

lemma wrap_layers_none:
  "errors_as_app e = None \<Longrightarrow> ls \<noteq> [] \<Longrightarrow>
    \<exists>b. errors_as_app (wrap_layers ls e) = Some b \<and> app_code b = ''INTERNAL_ERROR'' \<and> app_message b = snd (last ls)"
proof (induction ls)
  case (Cons l ls)
  show ?case
  proof (cases "ls = []")
    case True
    with Cons show ?thesis by (cases l) (simp add: Wrap_def NewAppError_def)
  next
    case False
    with Cons obtain b where "errors_as_app (wrap_layers ls e) = Some b" "app_code b = ''INTERNAL_ERROR''"
      "app_message b = snd (last ls)" by auto
    with False show ?thesis by (cases l) (simp add: Wrap_def NewAppError_def)
  qed
qed simp

text \<open>
  However many layers wrap an error, \<open>errors.Is\<close> sees through them, and the client gets the
  code and message of the first \<open>AppError\<close> in it, or \<open>INTERNAL_ERROR\<close> with the message of the layer
  that met it first (of the handler, when no layer did).
\<close>

theorem wrapping_keeps_meaning:
  "errors_is (wrap_layers ls e) t = errors_is e t \<and>
   public_view fb (wrap_layers ls e) =
     (case errors_as_app e of
        Some a \<Rightarrow> (HTTPStatus (app_code a), app_code a, app_message a)
      | None \<Rightarrow> (500, ''INTERNAL_ERROR'', if ls = [] then fb else snd (last ls)))"
proof (cases "errors_as_app e")
  case (Some a)
  with wrap_layers_as_app [OF Some, of ls] show ?thesis by (auto simp: public_view_def wrap_layers_is)
next
  case None
  with wrap_layers_none [OF None, of ls] show ?thesis
    by (cases "ls = []") (auto simp: public_view_def wrap_layers_is HTTPStatus_def)
qed

end
