(* ===== verification/World.thy ===== *)
theory World
  imports App_Error Complex_Main
begin

text \<open>
  The database and the actions over it (\<open>internal/platform/db\<close>). The tables are those of
  \<open>sqlite_schema.sql\<close> and \<open>migrations/000001_init.up.sql\<close>, as lists of rows in insertion order;
  times are kept as numbers (see \<open>Go_Time\<close>). An action reads the environment (the driver in
  use, the clock, the failures of the database, the generated UUIDs, the functions of packages
  outside the repository) and transforms the world. Every access to the environment and every
  statement takes a tick, and what the environment answers depends on the tick: quantifying
  over environments covers every schedule of clock readings and failures.
\<close>

section \<open>Rows\<close>

record user_row =
  us_id :: int
  us_public :: uuid
  us_email :: string
  us_name :: string
  us_password_hash :: "string option"
  us_active :: bool
  us_created :: time
  us_updated :: time
  us_deleted :: "time option"

record session_row =
  se_id :: int
  se_public :: uuid
  se_user :: int
  se_token_hash :: string
  se_expires :: time
  se_created :: time
  se_revoked :: "time option"

record idem_row =
  ik_id :: int
  ik_key :: string
  ik_user :: int
  ik_path :: string
  ik_method :: string
  ik_hash :: string
  ik_status :: string
  ik_resp_status :: "nat option"
  ik_resp_body :: "bytes option"
  ik_resp_ctype :: "string option"
  ik_expires :: time
  ik_created :: time

record outbox_row =
  ob_id :: int
  ob_user :: "int option"
  ob_type :: string
  ob_payload :: bytes
  ob_cid :: "string option"
  ob_status :: string
  ob_attempts :: nat
  ob_next :: "time option"
  ob_published :: "time option"
  ob_created :: time

record audit_row =
  au_id :: int
  au_public :: uuid
  au_user :: "int option"
  au_action :: string
  au_entity_type :: string
  au_entity_id :: int
  au_entity_public :: uuid
  au_old :: bytes
  au_new :: bytes
  au_prev :: string
  au_curr :: string
  au_created :: time

record task_row =
  tk_id :: int
  tk_public :: uuid
  tk_user :: int
  tk_title :: string
  tk_description :: string
  tk_status :: string
  tk_assignee :: "int option"
  tk_created :: time
  tk_updated :: time

record task_log_row =
  tl_id :: int
  tl_task :: int
  tl_user :: int
  tl_action :: string
  tl_old_assignee :: "int option"
  tl_new_assignee :: "int option"
  tl_actor :: "int option"
  tl_created :: time

text \<open>The tables, and the last id each table has given out (\<open>AUTOINCREMENT\<close>, \<open>IDENTITY\<close>: an id is
  never given out twice).\<close>

record db =
  users :: "user_row list"
  sessions :: "session_row list"
  idem_keys :: "idem_row list"
  outbox :: "outbox_row list"
  audit_logs :: "audit_row list"
  tasks :: "task_row list"
  task_logs :: "task_log_row list"
  seq_users :: int
  seq_sessions :: int
  seq_idem :: int
  seq_outbox :: int
  seq_audit :: int
  seq_tasks :: int
  seq_task_logs :: int

definition empty_db :: db where
  "empty_db =
     \<lparr>users = [], sessions = [], idem_keys = [], outbox = [], audit_logs = [], tasks = [],
      task_logs = [], seq_users = 0, seq_sessions = 0, seq_idem = 0, seq_outbox = 0, seq_audit = 0,
      seq_tasks = 0, seq_task_logs = 0\<rparr>"

section \<open>The environment and the world\<close>

datatype driver = DriverPostgres | DriverSQLite

text \<open>
  \<open>failure n = Some msg\<close>: the statement of tick \<open>n\<close> fails with a driver error (a lost
  connection, a cancelled context, a full disk). \<open>uuid_parse\<close> is \<open>uuid.Parse\<close> of google/uuid,
  \<open>pg_uuid\<close> what PostgreSQL reads a text parameter of a UUID column as, \<open>pg_jsonb\<close> the text it
  gives back of a document stored in a JSONB column (\<^term>\<open>None\<close>: it refuses the document), \<open>pg_lower\<close> the case folding of its locale,
  \<open>scan_order\<close> the place of a row (by id) in the order in which a query meets the rows, which
  decides between rows that \<open>ORDER BY\<close> leaves tied, \<open>index_scan\<close> whether PostgreSQL's plan for the task list
  walks the index over user and creation time and stops when it has enough rows, \<open>sha256_hex\<close> the hex digest, \<open>to_lower\<close>
  \<open>strings.ToLower\<close>, \<open>hmac_sha256\<close> (of a key and a message) and \<open>argon2id\<close> (of password, salt,
  iterations, memory, parallelism and key length; \<^term>\<open>None\<close>: it panics) the functions of
  \<open>crypto/hmac\<close> and \<open>x/crypto/argon2\<close>, \<open>random_at\<close> the bytes \<open>crypto/rand\<close> gives at a tick,
  \<open>round64\<close> the rounding of a number to the nearest \<open>float64\<close>, \<open>mail_address\<close> whether \<open>net/mail\<close> parses a string as an address.
\<close>

record env =
  driver_of :: driver
  clock :: "nat \<Rightarrow> time"
  failure :: "nat \<Rightarrow> string option"
  new_uuid_at :: "nat \<Rightarrow> uuid"
  uuid_parse :: "string \<Rightarrow> uuid option"
  pg_uuid :: "string \<Rightarrow> uuid option"
  pg_jsonb :: "bytes \<Rightarrow> bytes option"
  pg_lower :: "string \<Rightarrow> string"
  scan_order :: "int \<Rightarrow> int"
  index_scan :: "db \<Rightarrow> bool"
  sha256_hex :: "bytes \<Rightarrow> string"
  to_lower :: "string \<Rightarrow> string"
  hmac_sha256 :: "bytes \<Rightarrow> bytes \<Rightarrow> bytes"
  argon2id :: "bytes \<Rightarrow> bytes \<Rightarrow> nat \<Rightarrow> nat \<Rightarrow> nat \<Rightarrow> nat \<Rightarrow> bytes option"
  random_at :: "nat \<Rightarrow> nat \<Rightarrow> bytes option"
  mail_address :: "string \<Rightarrow> bool"
  round64 :: "rat \<Rightarrow> rat"

text \<open>The token bucket of a client, in the memory of the process (\<open>mid/ratelimit.go\<close>).\<close>

record token_bucket =
  bk_tokens :: rat
  bk_lastFill :: time

text \<open>\<open>tx_now\<close>: the time PostgreSQL's \<open>now()\<close> has in the open transaction; \<open>buckets\<close>: the map of the
  rate limiter.\<close>

record world =
  dbase :: db
  ticks :: nat
  tx_now :: "time option"
  buckets :: "string \<Rightarrow> token_bucket option"

text \<open>The result of an action: a value, an error value, or a panic on its way up.\<close>

datatype 'a result = Done 'a | Fail_with go_error | Panics string

type_synonym 'a act = "env \<Rightarrow> world \<Rightarrow> 'a result \<times> world"

definition tick :: "world \<Rightarrow> world" where
  "tick w = w\<lparr>ticks := Suc (ticks w)\<rparr>"

definition ret :: "'a \<Rightarrow> 'a act" where
  "ret a e w = (Done a, w)"

definition throw :: "go_error \<Rightarrow> 'a act" where
  "throw err e w = (Fail_with err, w)"

text \<open>\<open>x, err := m; if err != nil { return err }; k\<close>.\<close>

definition bind_act :: "'a act \<Rightarrow> ('a \<Rightarrow> 'b act) \<Rightarrow> 'b act" where
  "bind_act m k e w =
     (case m e w of
        (Done a, w') \<Rightarrow> k a e w'
      | (Fail_with err, w') \<Rightarrow> (Fail_with err, w')
      | (Panics p, w') \<Rightarrow> (Panics p, w'))"

text \<open>\<open>x, err := m; if err != nil { return f(err) }\<close>: the error is replaced on its way up.\<close>

definition map_error :: "(go_error \<Rightarrow> go_error) \<Rightarrow> 'a act \<Rightarrow> 'a act" where
  "map_error f m e w =
     (case m e w of
        (Fail_with err, w') \<Rightarrow> (Fail_with (f err), w')
      | (r, w') \<Rightarrow> (r, w'))"

text \<open>\<open>x, err := m\<close>, with the error looked at by what follows.\<close>

definition catch :: "'a act \<Rightarrow> (go_error + 'a \<Rightarrow> 'b act) \<Rightarrow> 'b act" where
  "catch m k e w =
     (case m e w of
        (Done a, w') \<Rightarrow> k (Inr a) e w'
      | (Fail_with err, w') \<Rightarrow> k (Inl err) e w'
      | (Panics p, w') \<Rightarrow> (Panics p, w'))"

text \<open>\<open>time.Now()\<close> and \<open>uuid.New()\<close>.\<close>

definition time_now :: "time act" where
  "time_now e w = (Done (clock e (ticks w)), tick w)"

definition uuid_new :: "uuid act" where
  "uuid_new e w = (Done (new_uuid_at e (ticks w)), tick w)"

text \<open>PostgreSQL keeps times to the microsecond. Its own \<open>now()\<close> is the start of the open
  transaction, or of the statement outside of one.\<close>

definition stored_time :: "env \<Rightarrow> time \<Rightarrow> time" where
  "stored_time e t = (if driver_of e = DriverSQLite then t else truncate_micro t)"

lemma stored_time_le: "stored_time e t \<le> t"
  by (simp add: stored_time_def truncate_micro_def)

definition db_now :: "time act" where
  "db_now e w =
     (case tx_now w of
        Some t \<Rightarrow> (Done (truncate_micro t), w)
      | None \<Rightarrow> (Done (truncate_micro (clock e (ticks w))), tick w))"

text \<open>
  One SQL statement: it fails as the environment says, or is rejected by a constraint
  (\<^const>\<open>Inl\<close>), or gives its result and the changed tables. A failed or rejected statement
  changes nothing.
\<close>

definition stmt :: "(env \<Rightarrow> db \<Rightarrow> go_error + 'a \<times> db) \<Rightarrow> 'a act" where
  "stmt f e w =
     (case failure e (ticks w) of
        Some msg \<Rightarrow> (Fail_with (Opaque msg), tick w)
      | None \<Rightarrow>
          (case f e (dbase w) of
             Inl err \<Rightarrow> (Fail_with err, tick w)
           | Inr (a, d) \<Rightarrow> (Done a, (tick w)\<lparr>dbase := d\<rparr>)))"

text \<open>\<open>sql.ErrNoRows\<close>, the error of \<open>QueryRow(...).Scan\<close> when no row matches.\<close>

definition ErrNoRows :: go_error where
  "ErrNoRows = Sentinel ''sql: no rows in result set''"

definition query_row :: "(env \<Rightarrow> db \<Rightarrow> 'a option) \<Rightarrow> 'a act" where
  "query_row q = stmt (\<lambda>e d. case q e d of None \<Rightarrow> Inl ErrNoRows | Some a \<Rightarrow> Inr (a, d))"

text \<open>
  A transaction: begin, the body, then commit; an error of the body, a panic in it or an error
  of the commit leaves the tables as they were. \<open>fb\<close> and \<open>fc\<close> say how the caller wraps the
  errors of begin and commit.
\<close>

definition run_tx :: "(go_error \<Rightarrow> go_error) \<Rightarrow> ('a \<Rightarrow> go_error \<Rightarrow> go_error) \<Rightarrow> 'a act \<Rightarrow> 'a act" where
  "run_tx fb fc fn e w =
     (case failure e (ticks w) of
        Some msg \<Rightarrow> (Fail_with (fb (Opaque msg)), tick w)
      | None \<Rightarrow>
          (case fn e ((tick w)\<lparr>tx_now := Some (clock e (ticks w))\<rparr>) of
             (Done a, w') \<Rightarrow>
               (case failure e (ticks w') of
                  Some msg \<Rightarrow>
                    (Fail_with (fc a (Opaque msg)), (tick w')\<lparr>dbase := dbase w, tx_now := None\<rparr>)
                | None \<Rightarrow> (Done a, (tick w')\<lparr>tx_now := None\<rparr>))
           | (Fail_with err, w') \<Rightarrow> (Fail_with err, w'\<lparr>dbase := dbase w, tx_now := None\<rparr>)
           | (Panics p, w') \<Rightarrow> (Panics p, w'\<lparr>dbase := dbase w, tx_now := None\<rparr>)))"

text \<open>\<open>(*DB).ExecTx\<close>.\<close>

definition ExecTx :: "'a act \<Rightarrow> 'a act" where
  "ExecTx fn =
     run_tx (Errorf ''begin transaction failed'') (\<lambda>_. Errorf ''commit transaction failed'') fn"

section \<open>Evaluation rules\<close>

lemma tick_simps [simp]:
  "dbase (tick w) = dbase w" "ticks (tick w) = Suc (ticks w)" "tx_now (tick w) = tx_now w" "buckets (tick w) = buckets w"
  by (simp_all add: tick_def)

lemma act_eval [act_simps]:
  "ret a e w = (Done a, w)"
  "throw err e w = (Fail_with err, w)"
  "time_now e w = (Done (clock e (ticks w)), tick w)"
  "uuid_new e w = (Done (new_uuid_at e (ticks w)), tick w)"
  by (simp_all add: ret_def throw_def time_now_def uuid_new_def)

lemma bind_act_Done [act_simps]: "m e w = (Done a, w') \<Longrightarrow> bind_act m k e w = k a e w'"
  by (simp add: bind_act_def)

lemma bind_act_Fail [act_simps]: "m e w = (Fail_with err, w') \<Longrightarrow> bind_act m k e w = (Fail_with err, w')"
  by (simp add: bind_act_def)

lemma bind_act_ret [simp]: "bind_act (ret a) k = k a"
  by (intro ext) (simp add: bind_act_def ret_def)

lemma bind_act_assoc: "bind_act (bind_act m k) h = bind_act m (\<lambda>a. bind_act (k a) h)"
  by (intro ext) (simp add: bind_act_def split: result.splits prod.splits)

lemma bind_act_DoneD:
  assumes "bind_act m k e w = (Done b, w')"
  obtains a w1 where "m e w = (Done a, w1)" "k a e w1 = (Done b, w')"
  using assms by (auto simp: bind_act_def split: result.splits prod.splits)

lemma map_error_Done [simp]: "map_error f m e w = (Done a, w') \<longleftrightarrow> m e w = (Done a, w')"
  by (auto simp: map_error_def split: result.splits prod.splits)

lemma map_error_Panics [simp]: "map_error f m e w = (Panics p, w') \<longleftrightarrow> m e w = (Panics p, w')"
  by (auto simp: map_error_def split: result.splits prod.splits)

lemma stmt_DoneD:
  assumes "stmt f e w = (Done a, w')"
  shows "f e (dbase w) = Inr (a, dbase w') \<and> ticks w' = Suc (ticks w) \<and> tx_now w' = tx_now w"
  using assms by (auto simp: stmt_def split: option.splits sum.splits prod.splits)

lemma stmt_not_panics [simp]: "stmt f e w \<noteq> (Panics p, w')"
  by (auto simp: stmt_def split: option.splits sum.splits prod.splits)

lemma query_row_DoneD:
  assumes "query_row q e w = (Done a, w')"
  shows "q e (dbase w) = Some a \<and> dbase w' = dbase w"
  using assms by (auto simp: query_row_def stmt_def split: option.splits sum.splits prod.splits)

lemma query_row_dbase [simp]: "dbase (snd (query_row q e w)) = dbase w"
  by (auto simp: query_row_def stmt_def split: option.splits sum.splits prod.splits)

lemma stmt_dbase: "stmt f e w = (r, w') \<Longrightarrow> dbase w' = dbase w \<or> (\<exists>a. f e (dbase w) = Inr (a, dbase w'))"
  by (auto simp: stmt_def split: option.splits sum.splits prod.splits)

lemma db_now_eval: "\<exists>t w'. db_now e w = (Done t, w') \<and> dbase w' = dbase w \<and> tx_now w' = tx_now w"
  by (simp add: db_now_def split: option.splits)

lemma db_now_DoneD: "db_now e w = (Done t, w') \<Longrightarrow> dbase w' = dbase w"
  by (auto simp: db_now_def split: option.splits)

section \<open>What an action does to the tables\<close>

text \<open>However it ends, the tables after the action are related to those before.\<close>

definition preserves :: "(db \<Rightarrow> db \<Rightarrow> bool) \<Rightarrow> env \<Rightarrow> 'a act \<Rightarrow> bool" where
  "preserves R e m \<longleftrightarrow> (\<forall>w r w'. m e w = (r, w') \<longrightarrow> R (dbase w) (dbase w'))"

lemma preservesD: "preserves R e m \<Longrightarrow> m e w = (r, w') \<Longrightarrow> R (dbase w) (dbase w')"
  by (simp add: preserves_def)

lemma preserves_env: "m e = m' e \<Longrightarrow> preserves R e m = preserves R e m'"
  by (simp add: preserves_def)

lemma preserves_simple [keep_intros]:
  assumes "reflp R"
  shows "preserves R e (ret a)" "preserves R e (throw err)" "preserves R e time_now"
    "preserves R e uuid_new" "preserves R e db_now"
  using assms by (auto simp: preserves_def act_simps reflp_def db_now_def split: option.splits)

lemma preserves_bind [keep_intros]:
  assumes "transp R" "preserves R e m" "\<And>a. preserves R e (k a)"
  shows "preserves R e (bind_act m k)"
  using assms unfolding preserves_def bind_act_def transp_def
  by (fastforce split: prod.splits result.splits)

lemma preserves_catch [keep_intros]:
  assumes "transp R" "preserves R e m" "\<And>a. preserves R e (k a)"
  shows "preserves R e (catch m k)"
  using assms unfolding preserves_def catch_def transp_def
  by (fastforce split: prod.splits result.splits)

lemma preserves_map_error [keep_intros]: "preserves R e m \<Longrightarrow> preserves R e (map_error f m)"
  unfolding preserves_def map_error_def by (fastforce split: prod.splits result.splits)

lemma preserves_stmt [keep_intros]:
  assumes "reflp R" "\<And>d a d'. f e d = Inr (a, d') \<Longrightarrow> R d d'"
  shows "preserves R e (stmt f)"
  using assms by (auto simp: preserves_def reflp_def dest!: stmt_dbase)

lemma preserves_query_row [keep_intros]: "reflp R \<Longrightarrow> preserves R e (query_row q)"
  unfolding query_row_def by (rule preserves_stmt) (auto simp: reflp_def split: option.splits)

lemma preserves_run_tx [keep_intros]:
  assumes "reflp R" "preserves R e fn"
  shows "preserves R e (run_tx fb fc fn)"
  using assms unfolding preserves_def run_tx_def reflp_def
  by (fastforce split: prod.splits result.splits option.splits)

lemma preserves_ExecTx [keep_intros]: "reflp R \<Longrightarrow> preserves R e fn \<Longrightarrow> preserves R e (ExecTx fn)"
  unfolding ExecTx_def by (rule preserves_run_tx)

section \<open>A calm environment\<close>

text \<open>An environment in which nothing fails, for evaluating the model on concrete inputs: the
  clock shows a second per tick, UUIDs are numbered, every string is a UUID, the digest is the
  text itself, JSONB keeps texts as they are, queries meet the rows by id, and plans use the index.\<close>

definition calm :: "driver \<Rightarrow> env" where
  "calm drv =
     \<lparr>driver_of = drv, clock = (\<lambda>n. int n * second), failure = (\<lambda>_. None),
      new_uuid_at = (\<lambda>n. ''uuid-'' @ show_nat n), uuid_parse = Some, pg_uuid = Some,
      pg_jsonb = Some, pg_lower = ascii_lower, scan_order = (\<lambda>i. i), index_scan = (\<lambda>_. True), sha256_hex = (\<lambda>s. s), to_lower = ascii_lower,
      hmac_sha256 = (\<lambda>k m. k @ m), argon2id = (\<lambda>p s t m n k. Some (take k (p @ s @ replicate k CHR ''.''))),
      random_at = (\<lambda>i n. Some (replicate n CHR ''s'')), mail_address = (\<lambda>s. CHR ''@'' \<in> set s),
      round64 = (\<lambda>x. x)\<rparr>"

definition start_world :: "db \<Rightarrow> world" where
  "start_world d = \<lparr>dbase = d, ticks = 0, tx_now = None, buckets = Map.empty\<rparr>"

lemma calm_simps [simp]:
  "driver_of (calm d) = d" "clock (calm d) n = int n * second" "failure (calm d) n = None"
  "new_uuid_at (calm d) n = ''uuid-'' @ show_nat n" "uuid_parse (calm d) s = Some s"
  "pg_uuid (calm d) s = Some s" "sha256_hex (calm d) t = t" "to_lower (calm d) s = ascii_lower s"
  "pg_jsonb (calm d) t = Some t" "pg_lower (calm d) s = ascii_lower s" "scan_order (calm d) i = i" "index_scan (calm d) db0"
  "hmac_sha256 (calm d) k m = k @ m" "argon2id (calm d) p s it me par n = Some (take n (p @ s @ replicate n CHR ''.''))"
  "random_at (calm d) tk n = Some (replicate n CHR ''s'')" "mail_address (calm d) s \<longleftrightarrow> CHR ''@'' \<in> set s"
  "round64 (calm d) x = x"
  by (simp_all add: calm_def)

lemma start_world_simps [simp]:
  "dbase (start_world d) = d" "ticks (start_world d) = 0" "tx_now (start_world d) = None" "buckets (start_world d) = Map.empty"
  by (simp_all add: start_world_def)

lemma stmt_calm [act_simps]:
  "failure e (ticks w) = None \<Longrightarrow> f e (dbase w) = Inr (a, d) \<Longrightarrow> stmt f e w = (Done a, (tick w)\<lparr>dbase := d\<rparr>)"
  by (simp add: stmt_def)

text \<open>A database with one active user, for the concrete inputs of the witnesses.\<close>

definition sample_user :: user_row where
  "sample_user = \<lparr>us_id = 1, us_public = ''u-1'', us_email = ''ann@example.org'', us_name = ''Ann'',
     us_password_hash = None, us_active = True, us_created = 0, us_updated = 0, us_deleted = None\<rparr>"

definition sample_db :: db where
  "sample_db = empty_db\<lparr>users := [sample_user], seq_users := 1\<rparr>"

definition sample_world :: world where
  "sample_world = start_world sample_db"

lemma sample_simps [simp]:
  "dbase sample_world = sample_db" "ticks sample_world = 0" "tx_now sample_world = None"
  "users sample_db = [sample_user]" "sessions sample_db = []" "idem_keys sample_db = []" "outbox sample_db = []"
  "audit_logs sample_db = []" "tasks sample_db = []" "task_logs sample_db = []"
  "seq_idem sample_db = 0" "seq_outbox sample_db = 0" "seq_audit sample_db = 0" "seq_tasks sample_db = 0"
  "seq_task_logs sample_db = 0" "us_id sample_user = 1" "us_active sample_user" "us_deleted sample_user = None"
  by (simp_all add: sample_world_def sample_db_def empty_db_def sample_user_def)

section \<open>The transaction contract\<close>

text \<open>
  What every client of \<open>Database.ExecTx\<close> relies on: the tables after the call are the tables
  the body left when the call succeeds, and the tables before the call in every other case.
\<close>

locale transactional =
  fixes run :: "'a act \<Rightarrow> 'a act"
  assumes commits:
    "run fn e w = (Done a, w') \<Longrightarrow>
      \<exists>w1 w2. dbase w1 = dbase w \<and> fn e w1 = (Done a, w2) \<and> dbase w' = dbase w2"
    and rolls_back: "run fn e w = (r, w') \<Longrightarrow> \<forall>a. r \<noteq> Done a \<Longrightarrow> dbase w' = dbase w"
begin

text \<open>All or nothing: whatever relation the body guarantees between the tables before and
  after, the transaction guarantees it or changes nothing.\<close>

lemma all_or_nothing:
  assumes body: "\<And>w1 w2 a. dbase w1 = dbase w \<Longrightarrow> fn e w1 = (Done a, w2) \<Longrightarrow> R a (dbase w1) (dbase w2)"
    and run: "run fn e w = (r, w')"
  shows "(\<exists>a. r = Done a \<and> R a (dbase w) (dbase w')) \<or> (\<forall>a. r \<noteq> Done a) \<and> dbase w' = dbase w"
proof (cases "\<exists>a. r = Done a")
  case True
  then obtain a where "r = Done a" by blast
  with run commits obtain w1 w2 where
    "dbase w1 = dbase w" "fn e w1 = (Done a, w2)" "dbase w' = dbase w2" by blast
  with body have "R a (dbase w) (dbase w')" by metis
  with \<open>r = Done a\<close> show ?thesis by blast
next
  case False
  with run rolls_back show ?thesis by blast
qed

text \<open>An invariant of the tables that the body keeps is kept by the transaction.\<close>

lemma keeps_invariant:
  assumes body: "\<And>w1 w2 a. I (dbase w1) \<Longrightarrow> fn e w1 = (Done a, w2) \<Longrightarrow> I (dbase w2)"
    and run: "run fn e w = (r, w')" and I: "I (dbase w)"
  shows "I (dbase w')"
proof (cases "\<exists>a. r = Done a")
  case True
  then obtain a where "r = Done a" by blast
  with run commits obtain w1 w2 where
    "dbase w1 = dbase w" "fn e w1 = (Done a, w2)" "dbase w' = dbase w2" by blast
  with body I show ?thesis by metis
next
  case False
  with run rolls_back I show ?thesis by metis
qed

end

lemma run_tx_DoneD:
  "run_tx fb fc fn e w = (Done a, w') \<Longrightarrow>
    \<exists>w2. fn e ((tick w)\<lparr>tx_now := Some (clock e (ticks w))\<rparr>) = (Done a, w2) \<and> dbase w' = dbase w2"
  by (auto simp: run_tx_def split: option.splits result.splits prod.splits)

interpretation raw_tx: transactional "run_tx fb fc" for fb fc
proof
  fix fn :: "'a act" and e w and a :: 'a and w'
  assume "run_tx fb fc fn e w = (Done a, w')"
  then obtain w2 where
    "fn e ((tick w)\<lparr>tx_now := Some (clock e (ticks w))\<rparr>) = (Done a, w2)" "dbase w' = dbase w2"
    by (blast dest: run_tx_DoneD)
  moreover have "dbase ((tick w)\<lparr>tx_now := Some (clock e (ticks w))\<rparr>) = dbase w" by simp
  ultimately show "\<exists>w1 w2. dbase w1 = dbase w \<and> fn e w1 = (Done a, w2) \<and> dbase w' = dbase w2"
    by blast
next
  fix fn :: "'a act" and e w r w'
  assume "run_tx fb fc fn e w = (r, w')" "\<forall>a. r \<noteq> Done a"
  then show "dbase w' = dbase w"
    by (auto simp: run_tx_def split: option.splits result.splits prod.splits)
qed

interpretation tx: transactional ExecTx
  using raw_tx.commits raw_tx.rolls_back by unfold_locales (simp_all add: ExecTx_def)

section \<open>Constraints of the tables\<close>

text \<open>A reference to \<open>users(id)\<close>; a NULL reference is allowed.\<close>

definition user_exists :: "db \<Rightarrow> int \<Rightarrow> bool" where
  "user_exists d uid \<longleftrightarrow> list_ex (\<lambda>u. us_id u = uid) (users d)"

definition user_ref :: "db \<Rightarrow> int option \<Rightarrow> bool" where
  "user_ref d u = (case u of None \<Rightarrow> True | Some uid \<Rightarrow> user_exists d uid)"

definition fk_error :: go_error where
  "fk_error = Opaque ''FOREIGN KEY constraint failed''"

definition unique_error :: go_error where
  "unique_error = Opaque ''UNIQUE constraint failed''"

text \<open>What PostgreSQL accepts in a text column: valid UTF-8 without a zero byte. \<open>VARCHAR(n)\<close>
  counts characters (SQLite's columns are \<open>TEXT\<close> and take any string).\<close>

definition pg_text :: "string \<Rightarrow> bool" where
  "pg_text s \<longleftrightarrow> valid_utf8 s \<and> byte 0 \<notin> set s"

definition varchar :: "nat \<Rightarrow> string \<Rightarrow> bool" where
  "varchar n s \<longleftrightarrow> pg_text s \<and> length (runes s) \<le> n"

definition varchar_error :: go_error where
  "varchar_error = Opaque ''value too long for type character varying''"

definition encoding_error :: go_error where
  "encoding_error = Opaque ''invalid byte sequence for encoding''"

text \<open>
  \<open>ExecTx\<close> either returns the result of its function and the tables it left, run once on the
  tables as they were, or it does not succeed and the tables are as they were.
\<close>

theorem transactions_atomic:
  "(\<exists>a w1 w2. fst (ExecTx fn e w) = Done a \<and> dbase w1 = dbase w \<and> fn e w1 = (Done a, w2) \<and>
      dbase (snd (ExecTx fn e w)) = dbase w2) \<or>
   (\<nexists>a. fst (ExecTx fn e w) = Done a) \<and> dbase (snd (ExecTx fn e w)) = dbase w"
proof (cases "\<exists>a. fst (ExecTx fn e w) = Done a")
  case True
  then obtain a where a: "fst (ExecTx fn e w) = Done a" by blast
  then have "ExecTx fn e w = (Done a, snd (ExecTx fn e w))" by (metis prod.collapse)
  from tx.commits [OF this] a show ?thesis by blast
next
  case False
  then have "\<forall>a. fst (ExecTx fn e w) \<noteq> Done a" by simp
  with tx.rolls_back [OF surjective_pairing] have "dbase (snd (ExecTx fn e w)) = dbase w" .
  with False show ?thesis by simp
qed

end
