(* ===== verification/Json_Decode.thy ===== *)
theory Json_Decode
  imports Json
begin

text \<open>
  Reading JSON as \<open>encoding/json\<close> does: \<open>json.Decoder\<close> for request bodies, \<open>json.Unmarshal\<close>
  for tokens. The scanner works through the bytes with a stack of open containers (its
  \<open>parseState\<close>); on a prefix of a document it asks for more input, which is how the decoder
  over a request body can run into the size limit. Then the value is stored in a struct, field by
  field.
\<close>

section \<open>Values\<close>

text \<open>A scanned value; a number is kept as its literal.\<close>

datatype doc =
    DNull
  | DBool bool
  | DNum string
  | DStr string
  | DArr "doc list"
  | DObj "(string \<times> doc) list"

text \<open>The outcome of scanning: a value and the bytes after it, a demand for more bytes, or a
  syntax error.\<close>

datatype 'a scan = Got 'a bytes | More | Bad

definition is_space :: "char \<Rightarrow> bool" where
  "is_space c \<longleftrightarrow> byte_of c \<in> {32 :: nat, 9, 13, 10}"

section \<open>String literals\<close>

definition hex_val :: "char \<Rightarrow> nat option" where
  "hex_val c =
     (let b = byte_of c
      in if 48 \<le> b \<and> b \<le> 57 then Some (b - 48)
         else if 97 \<le> b \<and> b \<le> 102 then Some (b - 87)
         else if 65 \<le> b \<and> b \<le> 70 then Some (b - 55)
         else None)"

text \<open>The \<open>n\<close> hex digits of an escape \<open>\uXXXX\<close>.\<close>

fun hex_digits :: "nat \<Rightarrow> nat \<Rightarrow> bytes \<Rightarrow> nat scan" where
  "hex_digits 0 acc cs = Got acc cs"
| "hex_digits (Suc n) acc [] = More"
| "hex_digits (Suc n) acc (c # cs) =
     (case hex_val c of Some v \<Rightarrow> hex_digits n (16 * acc + v) cs | None \<Rightarrow> Bad)"

text \<open>\<open>utf8.EncodeRune\<close>: a code point that is no character becomes U+FFFD.\<close>

definition encode_rune :: "nat \<Rightarrow> string" where
  "encode_rune u =
     (if u < 0x80 then [byte u]
      else if u < 0x800 then [byte (0xC0 + u div 64), byte (0x80 + u mod 64)]
      else if 0xD800 \<le> u \<and> u \<le> 0xDFFF \<or> 0x110000 \<le> u then rune_error
      else if u < 0x10000 then [byte (0xE0 + u div 4096), byte (0x80 + u div 64 mod 64), byte (0x80 + u mod 64)]
      else [byte (0xF0 + u div 262144), byte (0x80 + u div 4096 mod 64), byte (0x80 + u div 64 mod 64), byte (0x80 + u mod 64)])"

definition high_surrogate :: "nat \<Rightarrow> bool" where
  "high_surrogate u \<longleftrightarrow> 0xD800 \<le> u \<and> u < 0xDC00"

definition low_surrogate :: "nat \<Rightarrow> bool" where
  "low_surrogate u \<longleftrightarrow> 0xDC00 \<le> u \<and> u < 0xE000"

definition simple_escape :: "char \<Rightarrow> string option" where
  "simple_escape c =
     (if c = CHR 0x22 \<or> c = CHR 0x5C \<or> c = CHR ''/'' then Some [c]
      else if c = CHR ''b'' then Some [byte 8]
      else if c = CHR ''f'' then Some [byte 12]
      else if c = CHR ''n'' then Some [byte 10]
      else if c = CHR ''r'' then Some [byte 13]
      else if c = CHR ''t'' then Some [byte 9]
      else None)"

text \<open>
  One step through a string literal, at a byte that is not its closing quote: the bytes it stands
  for and the rest. A surrogate escape counts with the low one that follows it; alone it is U+FFFD.
\<close>

definition unicode_escape :: "bytes \<Rightarrow> string scan" where
  "unicode_escape cs =
     (case hex_digits 4 0 cs of
        Got u r \<Rightarrow>
          if high_surrogate u \<and> take 2 r = CHR 0x5C # ''u'' then
            (case hex_digits 4 0 (drop 2 r) of
               Got v r' \<Rightarrow>
                 if low_surrogate v then Got (encode_rune (0x10000 + (u - 0xD800) * 1024 + (v - 0xDC00))) r'
                 else Got rune_error r
             | _ \<Rightarrow> Got rune_error r)
          else Got (encode_rune u) r
      | More \<Rightarrow> More
      | Bad \<Rightarrow> Bad)"

definition next_piece :: "bytes \<Rightarrow> string scan" where
  "next_piece cs =
     (case cs of
        [] \<Rightarrow> More
      | c # r \<Rightarrow>
          if c = CHR 0x5C then
            (case r of
               [] \<Rightarrow> More
             | x # r' \<Rightarrow>
                 (case simple_escape x of
                    Some s \<Rightarrow> Got s r'
                  | None \<Rightarrow> if x = CHR ''u'' then unicode_escape r' else Bad))
          else if byte_of c < (0x20 :: nat) then Bad
          else (case rune_len cs of
                  Some n \<Rightarrow> Got (take n cs) (drop n cs)
                | None \<Rightarrow> Got rune_error r))"

lemma hex_digits_rest: "hex_digits n acc cs = Got u r \<Longrightarrow> cs = take n cs @ r \<and> length r + n = length cs"
  by (induction n acc cs rule: hex_digits.induct) (auto split: option.splits)

lemma hex_digits_shorter: "hex_digits n acc cs = Got u r \<Longrightarrow> length r \<le> length cs"
  by (drule hex_digits_rest) simp

lemma unicode_escape_shorter: "unicode_escape cs = Got s r \<Longrightarrow> length r \<le> length cs"
  by (auto simp: unicode_escape_def split: scan.splits if_splits dest!: hex_digits_shorter)

lemma rune_len_pos: "rune_len cs = Some n \<Longrightarrow> 0 < n"
  by (auto simp: rune_len_def split: list.splits if_splits)

lemma next_piece_shorter: "next_piece cs = Got s r \<Longrightarrow> length r < length cs"
  by (auto simp: next_piece_def split: list.splits option.splits if_splits dest: unicode_escape_shorter rune_len_pos)

lemma map_scan_Got: "map_scan f x = Got b r \<Longrightarrow> (\<And>a. x = Got a r \<Longrightarrow> b = f a \<Longrightarrow> P) \<Longrightarrow> P"
  by (cases x) auto

function string_rest :: "bytes \<Rightarrow> string scan" where
  "string_rest cs =
     (if cs \<noteq> [] \<and> hd cs = CHR 0x22 then Got [] (tl cs)
      else (case next_piece cs of
              Got s r \<Rightarrow> map_scan (\<lambda>t. s @ t) (string_rest r)
            | More \<Rightarrow> More
            | Bad \<Rightarrow> Bad))"
  by pat_completeness auto
termination by (relation "measure length") (auto simp: next_piece_shorter)

declare string_rest.simps [simp del]

section \<open>Numbers and words\<close>

text \<open>A run of digits, and the bytes after it; more input could make it longer.\<close>

definition digits_of :: "bytes \<Rightarrow> string \<times> bytes" where
  "digits_of cs = (takeWhile is_digit cs, dropWhile is_digit cs)"

text \<open>At least one digit, after what was read so far.\<close>

definition some_digits :: "string \<Rightarrow> bytes \<Rightarrow> string scan" where
  "some_digits pre cs =
     (case digits_of cs of (ds, r) \<Rightarrow> if r = [] then More else if ds = [] then Bad else Got (pre @ ds) r)"

definition exponent_part :: "string \<Rightarrow> bytes \<Rightarrow> string scan" where
  "exponent_part pre cs =
     (case cs of
        [] \<Rightarrow> More
      | c # r \<Rightarrow>
          if c = CHR ''e'' \<or> c = CHR ''E'' then
            (case r of
               [] \<Rightarrow> More
             | s # r' \<Rightarrow> if s = CHR ''+'' \<or> s = CHR ''-'' then some_digits (pre @ [c, s]) r' else some_digits (pre @ [c]) r)
          else Got pre cs)"

definition fraction_part :: "string \<Rightarrow> bytes \<Rightarrow> string scan" where
  "fraction_part pre cs =
     (case cs of
        [] \<Rightarrow> More
      | c # r \<Rightarrow>
          if c = CHR ''.'' then
            (case some_digits (pre @ [c]) r of Got t r' \<Rightarrow> exponent_part t r' | More \<Rightarrow> More | Bad \<Rightarrow> Bad)
          else exponent_part pre cs)"

definition integer_part :: "string \<Rightarrow> bytes \<Rightarrow> string scan" where
  "integer_part pre cs =
     (case cs of
        [] \<Rightarrow> More
      | c # r \<Rightarrow>
          if c = CHR ''0'' then fraction_part (pre @ [c]) r
          else (case some_digits pre cs of Got t r' \<Rightarrow> fraction_part t r' | More \<Rightarrow> More | Bad \<Rightarrow> Bad))"

definition number :: "bytes \<Rightarrow> string scan" where
  "number cs = (if cs \<noteq> [] \<and> hd cs = CHR ''-'' then integer_part ''-'' (tl cs) else integer_part [] cs)"

text \<open>\<open>true\<close>, \<open>false\<close>, \<open>null\<close>, byte by byte.\<close>

fun word :: "string \<Rightarrow> bytes \<Rightarrow> unit scan" where
  "word [] cs = Got () cs"
| "word (x # xs) [] = More"
| "word (x # xs) (c # cs) = (if c = x then word xs cs else Bad)"

section \<open>Documents\<close>

text \<open>
  The open containers, innermost first, with what they hold so far (an object also with the key
  whose value comes next), and what may come next. At most 10000 containers are open at a time.
\<close>

datatype frame = In_array "doc list" | In_object "(string \<times> doc) list" string

datatype scan_state = Want_value | Want_value_or_close | Want_key | Want_key_or_close | Want_colon | After_value

datatype step = Go_on scan_state "frame list" bytes | Finish doc bytes | Ask_more | Refuse

fun add_value :: "doc \<Rightarrow> frame \<Rightarrow> frame" where
  "add_value v (In_array vs) = In_array (vs @ [v])"
| "add_value v (In_object kvs k) = In_object (kvs @ [(k, v)]) []"

fun deliver_value :: "frame list \<Rightarrow> doc \<Rightarrow> bytes \<Rightarrow> step" where
  "deliver_value [] v r = Finish v r"
| "deliver_value (f # fs) v r = Go_on After_value (add_value v f # fs) r"

text \<open>A string or a word that is the whole document is finished by the byte after it.\<close>

definition deliver_scalar :: "frame list \<Rightarrow> doc \<Rightarrow> bytes \<Rightarrow> step" where
  "deliver_scalar fs v r = (if fs = [] \<and> r = [] then Ask_more else deliver_value fs v r)"

definition open_container :: "frame \<Rightarrow> scan_state \<Rightarrow> frame list \<Rightarrow> bytes \<Rightarrow> step" where
  "open_container f st fs r = (if max_nesting \<le> length fs then Refuse else Go_on st (f # fs) r)"

text \<open>The begin of a value, at the byte \<open>c\<close>.\<close>

definition scalar :: "frame list \<Rightarrow> 'a scan \<Rightarrow> ('a \<Rightarrow> doc) \<Rightarrow> step" where
  "scalar fs s f = (case s of Got a r \<Rightarrow> deliver_scalar fs (f a) r | More \<Rightarrow> Ask_more | Bad \<Rightarrow> Refuse)"

definition begin_value :: "frame list \<Rightarrow> char \<Rightarrow> bytes \<Rightarrow> step" where
  "begin_value fs c r =
     (if c = CHR 0x22 then scalar fs (string_rest r) DStr
      else if c = CHR ''['' then open_container (In_array []) Want_value_or_close fs r
      else if c = CHR ''{'' then open_container (In_object [] []) Want_key_or_close fs r
      else if c = CHR ''t'' then scalar fs (word ''rue'' r) (\<lambda>_. DBool True)
      else if c = CHR ''f'' then scalar fs (word ''alse'' r) (\<lambda>_. DBool False)
      else if c = CHR ''n'' then scalar fs (word ''ull'' r) (\<lambda>_. DNull)
      else if c = CHR ''-'' \<or> is_digit c then scalar fs (number (c # r)) DNum
      else Refuse)"

definition begin_key :: "frame list \<Rightarrow> char \<Rightarrow> bytes \<Rightarrow> step" where
  "begin_key fs c r =
     (case fs of
        In_object kvs k # fs' \<Rightarrow>
          if c = CHR 0x22 then
            (case string_rest r of
               Got s r' \<Rightarrow> Go_on Want_colon (In_object kvs s # fs') r'
             | More \<Rightarrow> Ask_more
             | Bad \<Rightarrow> Refuse)
          else Refuse
      | _ \<Rightarrow> Refuse)"

definition after_value :: "frame list \<Rightarrow> char \<Rightarrow> bytes \<Rightarrow> step" where
  "after_value fs c r =
     (case fs of
        In_array vs # fs' \<Rightarrow>
          if c = CHR '','' then Go_on Want_value fs r
          else if c = CHR '']'' then deliver_value fs' (DArr vs) r
          else Refuse
      | In_object kvs k # fs' \<Rightarrow>
          if c = CHR '','' then Go_on Want_key fs r
          else if c = CHR ''}'' then deliver_value fs' (DObj kvs) r
          else Refuse
      | [] \<Rightarrow> Refuse)"

definition scan_step :: "scan_state \<Rightarrow> frame list \<Rightarrow> char \<Rightarrow> bytes \<Rightarrow> step" where
  "scan_step st fs c r =
     (case st of
        Want_value \<Rightarrow> begin_value fs c r
      | Want_value_or_close \<Rightarrow> if c = CHR '']'' then after_value fs c r else begin_value fs c r
      | Want_key \<Rightarrow> begin_key fs c r
      | Want_key_or_close \<Rightarrow> if c = CHR ''}'' then after_value fs c r else begin_key fs c r
      | Want_colon \<Rightarrow> if c = CHR '':'' then Go_on Want_value fs r else Refuse
      | After_value \<Rightarrow> after_value fs c r)"

lemma string_rest_quote [simp]: "string_rest (CHR 0x22 # r) = Got [] r"
  by (simp add: string_rest.simps [of "CHR 0x22 # r"])

lemma string_rest_piece:
  "\<not> (cs \<noteq> [] \<and> hd cs = CHR 0x22) \<Longrightarrow> string_rest cs =
     (case next_piece cs of Got s r \<Rightarrow> map_scan (\<lambda>t. s @ t) (string_rest r) | More \<Rightarrow> More | Bad \<Rightarrow> Bad)"
  by (subst string_rest.simps) auto

lemma string_rest_shorter: "string_rest cs = Got s r \<Longrightarrow> length r < length cs"
proof (induction cs arbitrary: s rule: string_rest.induct)
  case (1 cs)
  show ?case
  proof (cases "cs \<noteq> [] \<and> hd cs = CHR 0x22")
    case True
    then obtain d where "cs = CHR 0x22 # d" by (cases cs) auto
    with "1.prems" show ?thesis by simp
  next
    case False
    then obtain s1 r1 t where n: "next_piece cs = Got s1 r1" and r: "string_rest r1 = Got t r"
      using "1.prems" unfolding string_rest_piece [OF False] by (cases "next_piece cs") (auto elim!: map_scan_Got)
    from "1.IH" [OF False n r] next_piece_shorter [OF n] show ?thesis by simp
  qed
qed

lemma word_shorter: "word xs cs = Got u r \<Longrightarrow> length r \<le> length cs"
  by (induction xs cs rule: word.induct) (auto split: if_splits)

lemma some_digits_shorter:
  assumes "some_digits pre cs = Got t r"
  shows "length r < length cs"
proof -
  have r: "r = dropWhile is_digit cs" "takeWhile is_digit cs \<noteq> []"
    using assms by (auto simp: some_digits_def digits_of_def split: if_splits)
  have "length cs = length (takeWhile is_digit cs) + length (dropWhile is_digit cs)"
    by (metis length_append takeWhile_dropWhile_id)
  with r show ?thesis by simp
qed

lemma exponent_part_shorter: "exponent_part pre cs = Got t r \<Longrightarrow> length r \<le> length cs"
  by (auto simp: exponent_part_def split: list.splits if_splits dest: some_digits_shorter)

lemma fraction_part_shorter: "fraction_part pre cs = Got t r \<Longrightarrow> length r \<le> length cs"
  by (auto simp: fraction_part_def split: list.splits if_splits scan.splits
      dest!: some_digits_shorter exponent_part_shorter)

lemma number_shorter: "number cs = Got t r \<Longrightarrow> length r < length cs"
  by (auto simp: number_def integer_part_def neq_Nil_conv split: list.splits if_splits scan.splits
      dest!: some_digits_shorter fraction_part_shorter)

lemma deliver_value_shorter: "deliver_value fs v r = Go_on st' fs' r' \<Longrightarrow> r' = r"
  by (cases fs) simp_all

lemma scalar_shorter: "scalar fs s f = Go_on st' fs' r' \<Longrightarrow> \<exists>a. s = Got a r'"
  by (auto simp: scalar_def deliver_scalar_def split: scan.splits if_splits dest: deliver_value_shorter)

lemma scalars_shorter:
  "scalar fs (string_rest r) f = Go_on st' fs' r' \<Longrightarrow> length r' \<le> length r"
  "scalar fs (word xs r) g = Go_on st' fs' r' \<Longrightarrow> length r' \<le> length r"
  "scalar fs (number (c # r)) h = Go_on st' fs' r' \<Longrightarrow> length r' \<le> length r"
  by (drule scalar_shorter, auto dest: string_rest_shorter word_shorter number_shorter)+

lemma open_container_shorter: "open_container f st fs r = Go_on st' fs' r' \<Longrightarrow> length r' \<le> length r"
  by (simp add: open_container_def split: if_splits)

lemma begin_value_shorter: "begin_value fs c r = Go_on st' fs' r' \<Longrightarrow> length r' \<le> length r"
  unfolding begin_value_def
  by (simp only: split: if_split_asm) (erule scalars_shorter open_container_shorter | simp)+

lemma begin_key_shorter: "begin_key fs c r = Go_on st' fs' r' \<Longrightarrow> length r' \<le> length r"
  by (auto simp: begin_key_def split: list.splits frame.splits if_splits scan.splits dest: string_rest_shorter)

lemma after_value_shorter: "after_value fs c r = Go_on st' fs' r' \<Longrightarrow> length r' \<le> length r"
  by (auto simp: after_value_def split: list.splits frame.splits if_splits dest: deliver_value_shorter)

lemma scan_step_shorter: "scan_step st fs c r = Go_on st' fs' r' \<Longrightarrow> length r' \<le> length r"
  by (auto simp: scan_step_def split: scan_state.splits if_splits
      dest: begin_value_shorter begin_key_shorter after_value_shorter)

function scan_from :: "scan_state \<Rightarrow> frame list \<Rightarrow> bytes \<Rightarrow> doc scan" where
  "scan_from st fs cs =
     (case dropWhile is_space cs of
        [] \<Rightarrow> More
      | c # r \<Rightarrow>
          (case scan_step st fs c r of
             Go_on st' fs' r' \<Rightarrow> scan_from st' fs' r'
           | Finish v r' \<Rightarrow> Got v r'
           | Ask_more \<Rightarrow> More
           | Refuse \<Rightarrow> Bad))"
  by pat_completeness auto
termination
proof (relation "measure (\<lambda>(st, fs, cs). length cs)", goal_cases)
  case 1
  show ?case by simp
next
  case (2 st fs cs c r st' fs' r')
  have "length (dropWhile is_space cs) \<le> length cs" by (rule length_dropWhile_le)
  with 2 scan_step_shorter [OF 2(2)] show ?case by simp
qed

declare scan_from.simps [simp del]

text \<open>The first document of the bytes (\<open>Decoder.readValue\<close>).\<close>

definition read_value :: "bytes \<Rightarrow> doc scan" where
  "read_value cs = scan_from Want_value [] cs"

text \<open>The only document of the bytes (\<open>json.Unmarshal\<close>); the end of the input counts as a space.\<close>

definition read_all_value :: "bytes \<Rightarrow> doc option" where
  "read_all_value cs =
     (case read_value (cs @ '' '') of Got v r \<Rightarrow> if list_all is_space r then Some v else None | _ \<Rightarrow> None)"

section \<open>Written strings are read back\<close>

lemma map_nth_0: "1 \<le> length r \<or> 2 \<le> length r \<or> 3 \<le> length r \<Longrightarrow> map f r ! 0 = f (r ! 0)"
  by (cases r) auto

lemma rune_len_prefix:
  assumes "rune_len s = Some n"
  shows "n \<le> length s \<and> rune_len (take n s @ x) = Some n"
proof -
  obtain c r where s: "s = c # r" using assms by (cases s) (auto simp: rune_len_def)
  show ?thesis
    using assms unfolding s rune_len_def
    by (auto simp: nth_append map_nth_0 split: if_splits)
qed

lemma rune_len_1: "rune_len s = Some (Suc 0) \<Longrightarrow> \<exists>c r. s = c # r \<and> byte_of c < (0x80 :: nat)"
  by (cases s) (auto simp: rune_len_def split: if_splits)

lemma rune_len_big: "rune_len s = Some n \<Longrightarrow> n \<noteq> Suc 0 \<Longrightarrow> \<exists>c r. s = c # r \<and> 0xC2 \<le> (byte_of c :: nat) \<and> 2 \<le> n"
  by (cases s) (auto simp: rune_len_def split: if_splits)

lemma hex_val_digit: "k < 16 \<Longrightarrow> hex_val (hex_digit k) = Some k"
  by (auto simp: hex_val_def hex_digit_def Let_def)

lemma hex_digits_4:
  assumes "hex_val a = Some i" "hex_val b = Some j" "hex_val c = Some k" "hex_val d = Some l"
  shows "hex_digits 4 0 (a # b # c # d # x) = Got (16 * (16 * (16 * i + j) + k) + l) x"
proof -
  have "(4 :: nat) = Suc (Suc (Suc (Suc 0)))" by simp
  with assms show ?thesis by (simp only: hex_digits.simps option.case mult_0_right add_0)
qed

lemma unicode_escape_small:
  assumes "k < 16" "m < 16" "16 * k + m < 0x80"
  shows "unicode_escape (CHR ''0'' # CHR ''0'' # hex_digit k # hex_digit m # x) = Got [byte (16 * k + m)] x"
proof -
  have "hex_val CHR ''0'' = Some 0" by (simp add: hex_val_def)
  then have "hex_digits 4 0 (CHR ''0'' # CHR ''0'' # hex_digit k # hex_digit m # x) = Got (16 * k + m) x"
    using assms hex_digits_4 [of "CHR ''0''" 0 "CHR ''0''" 0 "hex_digit k" k "hex_digit m" m x] by (simp add: hex_val_digit)
  with assms show ?thesis by (simp add: unicode_escape_def high_surrogate_def encode_rune_def)
qed

lemma json_escape_ascii:
  assumes "byte_of c < (0x80 :: nat)"
  shows "next_piece (json_escape [c] @ x) = Got [c] x \<and> json_escape [c] \<noteq> [] \<and> hd (json_escape [c]) \<noteq> CHR 0x22"
proof -
  let ?b = "byte_of c :: nat"
  have u: "next_piece (CHR 0x5C # CHR ''u'' # CHR ''0'' # CHR ''0'' # hex_digit (?b div 16) # hex_digit (?b mod 16) # x) = Got [c] x"
    using assms unicode_escape_small [of "?b div 16" "?b mod 16" x] by (simp add: next_piece_def simple_escape_def)
  show ?thesis
    using u assms
    by (auto simp: json_escape_def next_piece_def simple_escape_def) (metis char_of_char)+
qed

lemma json_escape_wide:
  assumes "rune_len s = Some n" "n \<noteq> Suc 0"
  shows "next_piece (json_escape (take n s) @ x) = Got (take n s) x \<and> json_escape (take n s) \<noteq> [] \<and>
    hd (json_escape (take n s)) \<noteq> CHR 0x22"
proof -
  obtain c r where s: "s = c # r" "0xC2 \<le> (byte_of c :: nat)" "2 \<le> n" using rune_len_big [OF assms] by blast
  let ?p = "take n s"
  have pre: "n \<le> length s" "rune_len (?p @ x) = Some n" using rune_len_prefix [OF assms(1)] by auto
  then obtain d p where p: "?p = c # d # p" using s by (cases r; cases n; cases "n - 1"; auto)
  have wide: "c \<noteq> CHR 0x22" "c \<noteq> CHR 0x5C" "\<not> byte_of c < (0x20 :: nat)" using s(2) by auto
  have self: "next_piece (?p @ x) = Got ?p x"
  proof -
    have "take n (?p @ x) = ?p" "drop n (?p @ x) = x" using pre(1) by simp_all
    with pre(2) wide show ?thesis unfolding p by (simp add: next_piece_def)
  qed
  have u: "next_piece (CHR 0x5C # ''u202'' @ [hex_digit k] @ x) = Got (encode_rune (0x2020 + k)) x" if "k < 16" for k
  proof -
    have "hex_val CHR ''2'' = Some 2" "hex_val CHR ''0'' = Some 0" by (simp_all add: hex_val_def)
    then have "hex_digits 4 0 (''202'' @ [hex_digit k] @ x) = Got (0x2020 + k) x"
      using hex_digits_4 [of "CHR ''2''" 2 "CHR ''0''" 0 "CHR ''2''" 2 "hex_digit k" k x] that
      by (simp add: hex_val_digit)
    with that show ?thesis by (simp add: next_piece_def simple_escape_def unicode_escape_def high_surrogate_def)
  qed
  have "hex_digit 8 = CHR ''8''" "hex_digit 9 = CHR ''9''" by code_simp+
  then show ?thesis
    using self wide u [of 8] u [of 9] by (auto simp: p json_escape_def encode_rune_def split: list.splits)
qed

text \<open>What \<open>escape_runes\<close> wrote is read up to the closing quote.\<close>

lemma string_rest_escape:
  "valid_utf8 s \<Longrightarrow> string_rest (escape_runes s @ CHR 0x22 # x) = Got s x"
proof (induction s rule: escape_runes.induct)
  case (1 s)
  show ?case
  proof (cases "s = []")
    case True
    then show ?thesis by (simp add: escape_runes.simps)
  next
    case False
    with "1.prems" obtain n where n: "rune_len s = Some n" "valid_utf8 (drop n s)"
      by (auto simp: valid_utf8.simps [of s] split: option.splits)
    let ?e = "json_escape (take n s)" and ?t = "escape_runes (drop n s) @ CHR 0x22 # x"
    have p: "next_piece (?e @ ?t) = Got (take n s) ?t" "?e \<noteq> []" "hd ?e \<noteq> CHR 0x22"
    proof -
      have "next_piece (?e @ ?t) = Got (take n s) ?t \<and> ?e \<noteq> [] \<and> hd ?e \<noteq> CHR 0x22"
      proof (cases "n = Suc 0")
        case True
        with n(1) obtain c r where "s = c # r" "byte_of c < (0x80 :: nat)" using rune_len_1 by blast
        with True json_escape_ascii [of c ?t] show ?thesis by simp
      next
        case False
        then show ?thesis by (rule json_escape_wide [OF n(1)])
      qed
      then show "next_piece (?e @ ?t) = Got (take n s) ?t" "?e \<noteq> []" "hd ?e \<noteq> CHR 0x22" by blast+
    qed
    have IH: "string_rest ?t = Got (drop n s) x" by (rule "1.IH"(2) [OF False n(1,2)])
    have "escape_runes s @ CHR 0x22 # x = ?e @ ?t" using False n(1) by (simp add: escape_runes.simps [of s])
    moreover have "string_rest (?e @ ?t) = map_scan (\<lambda>t. take n s @ t) (string_rest ?t)"
      using p by (subst string_rest_piece) auto
    ultimately show ?thesis by (simp add: IH)
  qed
qed

section \<open>Written documents are read back\<close>

fun doc_of :: "json \<Rightarrow> doc" where
  "doc_of JNull = DNull"
| "doc_of (JBool b) = DBool b"
| "doc_of (JNum n) = DNum (show_int n)"
| "doc_of (JStr s) = DStr s"
| "doc_of (JArr js) = DArr (map doc_of js)"
| "doc_of (JObj kvs) = DObj (map (\<lambda>kv. (fst kv, doc_of (snd kv))) kvs)"

text \<open>The strings are valid UTF-8, and at most \<open>d\<close> containers are nested.\<close>

fun writable :: "nat \<Rightarrow> json \<Rightarrow> bool" where
  "writable d (JStr s) \<longleftrightarrow> valid_utf8 s"
| "writable d (JArr js) \<longleftrightarrow> 0 < d \<and> list_all (writable (d - 1)) js"
| "writable d (JObj kvs) \<longleftrightarrow> 0 < d \<and> list_all (\<lambda>kv. valid_utf8 (fst kv) \<and> writable (d - 1) (snd kv)) kvs"
| "writable d j \<longleftrightarrow> True"

text \<open>A byte that ends a number: no digit, point or exponent.\<close>

definition ends_number :: "bytes \<Rightarrow> bool" where
  "ends_number r \<longleftrightarrow> r \<noteq> [] \<and> \<not> is_digit (hd r) \<and> hd r \<notin> {CHR ''.'', CHR ''e'', CHR ''E''}"

lemma ends_number_bar: "ends_number (CHR ''|'' # r)"
  by (simp add: ends_number_def is_digit_def less_eq_char_def)

lemma ends_number_Cons [simp]:
  "ends_number (CHR '','' # r)" "ends_number (CHR '']'' # r)" "ends_number (CHR ''}'' # r)" "ends_number (CHR '' '' # r)"
  by (simp_all add: ends_number_def is_digit_def less_eq_char_def)

lemma fraction_part_end: "ends_number r \<Longrightarrow> fraction_part pre r = Got pre r"
  by (cases r) (auto simp: fraction_part_def exponent_part_def ends_number_def)

lemma some_digits_end:
  "list_all is_digit ds \<Longrightarrow> ds \<noteq> [] \<Longrightarrow> ends_number r \<Longrightarrow> some_digits pre (ds @ r) = Got (pre @ ds) r"
  by (cases r) (auto simp: some_digits_def digits_of_def ends_number_def list_all_iff takeWhile_append dropWhile_append)

lemma show_nat_zero: "hd (show_nat n) = CHR ''0'' \<Longrightarrow> n = 0"
proof (induction n rule: show_nat.induct)
  case (1 n)
  show ?case
  proof (cases "n < 10")
    case True
    then have "show_nat n = [byte (48 + n)]" by (subst show_nat.simps) simp
    with 1(2) have "byte_of (byte (48 + n)) = (48 :: nat)" by simp
    with True show ?thesis by simp
  next
    case False
    then have "show_nat n = show_nat (n div 10) @ [byte (48 + n mod 10)]" by (subst show_nat.simps) simp
    then have "hd (show_nat (n div 10)) = CHR ''0''" using 1(2) show_nat_digits [of "n div 10"] by simp
    with 1(1) False have "n div 10 = 0" by blast
    with False show ?thesis by simp
  qed
qed

lemma integer_part_show_nat: "ends_number r \<Longrightarrow> integer_part pre (show_nat n @ r) = Got (pre @ show_nat n) r"
proof -
  assume r: "ends_number r"
  obtain c ds where s: "show_nat n = c # ds" using show_nat_digits [of n] by (cases "show_nat n") auto
  show ?thesis
  proof (cases "n = 0")
    case True
    moreover have "byte 48 = CHR ''0''" by code_simp
    ultimately have "show_nat n = ''0''" by (simp add: show_nat.simps)
    with r show ?thesis by (simp add: integer_part_def fraction_part_end)
  next
    case False
    then have "c \<noteq> CHR ''0''" using show_nat_zero [of n] s by auto
    with some_digits_end [OF _ _ r, of "show_nat n" pre] show_nat_digits [of n] r s show ?thesis
      by (simp add: integer_part_def fraction_part_end)
  qed
qed

lemma number_show_int: "ends_number r \<Longrightarrow> number (show_int n @ r) = Got (show_int n) r"
proof -
  assume r: "ends_number r"
  have "hd (show_nat m) \<noteq> CHR ''-''" for m
    using show_nat_digits [of m] by (cases "show_nat m") (auto simp: is_digit_def less_eq_char_def)
  moreover have "show_nat m \<noteq> []" for m using show_nat_digits by blast
  ultimately show ?thesis
    using integer_part_show_nat [OF r] by (simp add: number_def show_int_def)
qed

definition resume :: "step \<Rightarrow> doc scan" where
  "resume s =
     (case s of
        Go_on st fs r \<Rightarrow> scan_from st fs r
      | Finish v r \<Rightarrow> Got v r
      | Ask_more \<Rightarrow> More
      | Refuse \<Rightarrow> Bad)"

lemma resume_simps [simp]:
  "resume (Go_on st fs r) = scan_from st fs r" "resume (Finish v r) = Got v r" "resume Ask_more = More" "resume Refuse = Bad"
  by (simp_all add: resume_def)

lemma scan_from_Cons: "\<not> is_space c \<Longrightarrow> scan_from st fs (c # r) = resume (scan_step st fs c r)"
  by (simp add: scan_from.simps [of st fs "c # r"] resume_def)

lemma marks [simp]:
  "\<not> is_space (CHR 0x22)" "\<not> is_space (CHR ''['')" "\<not> is_space (CHR '']'')" "\<not> is_space (CHR ''{'')"
  "\<not> is_space (CHR ''}'')" "\<not> is_space (CHR '','')" "\<not> is_space (CHR '':'')" "\<not> is_space (CHR ''t'')"
  "\<not> is_space (CHR ''f'')" "\<not> is_space (CHR ''n'')"
  by code_simp+

lemma scan_from_marks [simp]:
  "scan_from After_value (In_array vs # fs) (CHR '','' # r) = scan_from Want_value (In_array vs # fs) r"
  "scan_from After_value (In_array vs # fs) (CHR '']'' # r) = resume (deliver_value fs (DArr vs) r)"
  "scan_from After_value (In_object kvs k # fs) (CHR '','' # r) = scan_from Want_key (In_object kvs k # fs) r"
  "scan_from After_value (In_object kvs k # fs) (CHR ''}'' # r) = resume (deliver_value fs (DObj kvs) r)"
  "scan_from Want_colon fs (CHR '':'' # r) = scan_from Want_value fs r"
  "scan_from Want_value_or_close (In_array vs # fs) (CHR '']'' # r) = resume (deliver_value fs (DArr vs) r)"
  "scan_from Want_key_or_close (In_object kvs k # fs) (CHR ''}'' # r) = resume (deliver_value fs (DObj kvs) r)"
  by (simp_all add: scan_from_Cons scan_step_def after_value_def)

lemma render_string_Cons: "render_string s = CHR 0x22 # escape_runes s @ [CHR 0x22]"
  by (simp add: render_string_def)

lemma scan_key:
  assumes "valid_utf8 k" "st = Want_key \<or> st = Want_key_or_close"
  shows "scan_from st (In_object kvs k0 # fs) (render_string k @ r) = scan_from Want_colon (In_object kvs k # fs) r"
  using assms string_rest_escape [OF assms(1), of r]
  by (auto simp: render_string_Cons scan_from_Cons scan_step_def begin_key_def)

lemma scan_elements:
  assumes "\<And>j vs r. j \<in> set js \<Longrightarrow> ends_number r \<Longrightarrow>
      scan_from Want_value (In_array vs # fs) (render j @ r) = scan_from After_value (In_array (vs @ [doc_of j]) # fs) r"
    and "js \<noteq> []"
  shows "scan_from Want_value (In_array vs # fs) (join_with '','' (map render js) @ CHR '']'' # r) =
    resume (deliver_value fs (DArr (vs @ map doc_of js)) r)"
  using assms
proof (induction js arbitrary: vs)
  case (Cons j js)
  show ?case
  proof (cases js)
    case Nil
    then show ?thesis using Cons.prems(1) by simp
  next
    case (Cons j' js')
    then show ?thesis using Cons.IH [of "vs @ [doc_of j]"] Cons.prems(1) by simp
  qed
qed simp

lemma scan_members:
  assumes "\<And>k j kvs r. (k, j) \<in> set ms \<Longrightarrow> ends_number r \<Longrightarrow>
      scan_from Want_value (In_object kvs k # fs) (render j @ r) = scan_from After_value (In_object (kvs @ [(k, doc_of j)]) [] # fs) r"
    and "list_all (\<lambda>kv. valid_utf8 (fst kv)) ms"
    and "ms \<noteq> []" "st = Want_key \<or> st = Want_key_or_close"
  shows "scan_from st (In_object kvs k0 # fs)
      (join_with '','' (map (\<lambda>kv. render_string (fst kv) @ '':'' @ render (snd kv)) ms) @ CHR ''}'' # r) =
    resume (deliver_value fs (DObj (kvs @ map (\<lambda>kv. (fst kv, doc_of (snd kv))) ms)) r)"
  using assms
proof (induction ms arbitrary: kvs k0 st)
  case (Cons m ms)
  obtain k j where m: "m = (k, j)" by fastforce
  show ?case
  proof (cases ms)
    case Nil
    then show ?thesis using Cons.prems by (simp add: m scan_key)
  next
    case (Cons m' ms')
    have "scan_from Want_key (In_object (kvs @ [(k, doc_of j)]) [] # fs)
        (join_with '','' (map (\<lambda>kv. render_string (fst kv) @ '':'' @ render (snd kv)) ms) @ CHR ''}'' # r) =
      resume (deliver_value fs (DObj ((kvs @ [(k, doc_of j)]) @ map (\<lambda>kv. (fst kv, doc_of (snd kv))) ms)) r)"
      using Cons.prems Cons by (intro Cons.IH) (simp_all add: m)
    then show ?thesis using Cons.prems Cons by (simp add: m scan_key)
  qed
qed simp

lemma show_int_start: "\<exists>c r. show_int n = c # r \<and> (c = CHR ''-'' \<or> is_digit c)"
  using show_nat_digits [of "nat n"] show_nat_digits [of "nat (- n)"] by (auto simp: show_int_def neq_Nil_conv)

lemma number_start:
  "c = CHR ''-'' \<or> is_digit c \<Longrightarrow> \<not> is_space c \<and> c \<notin> {CHR 0x22, CHR ''['', CHR '']'', CHR ''{'', CHR ''t'', CHR ''f'', CHR ''n''}"
  by (auto simp: is_space_def is_digit_def less_eq_char_def)

lemma render_start: "\<exists>c r. render j = c # r \<and> \<not> is_space c \<and> c \<noteq> CHR '']''"
proof (cases j)
  case (JNum n)
  obtain c r where "show_int n = c # r" "c = CHR ''-'' \<or> is_digit c" using show_int_start by blast
  with number_start [OF this(2)] JNum show ?thesis by auto
qed (auto simp: render_string_Cons)

lemma scan_first_element:
  "js \<noteq> [] \<Longrightarrow> scan_from Want_value_or_close fs (join_with '','' (map render js) @ r) =
    scan_from Want_value fs (join_with '','' (map render js) @ r)"
proof (cases js)
  case (Cons j js')
  obtain c x where c: "render j = c # x" "\<not> is_space c" "c \<noteq> CHR '']''" using render_start by blast
  then obtain y where "join_with '','' (map render js) @ r = c # y" by (cases js') (auto simp: Cons)
  with c show ?thesis by (simp add: scan_from_Cons scan_step_def)
qed simp

text \<open>The scanner reads what \<open>json.Marshal\<close> writes.\<close>

lemma scan_render:
  assumes "writable (max_nesting - length fs) j" "ends_number r"
  shows "scan_from Want_value fs (render j @ r) = resume (deliver_value fs (doc_of j) r)"
  using assms
proof (induction j arbitrary: fs r rule: render.induct)
  case (3 n)
  obtain c ds where c: "show_int n @ r = c # ds" "c = CHR ''-'' \<or> is_digit c" using show_int_start [of n] by auto
  have "scan_from Want_value fs (c # ds) = resume (scalar fs (number (c # ds)) DNum)"
    using c(2) number_start [OF c(2)] by (simp add: scan_from_Cons scan_step_def begin_value_def)
  moreover have "number (c # ds) = Got (show_int n) r" using number_show_int [OF 3(2), of n] c(1) by metis
  ultimately show ?case using 3(2) c(1) by (simp add: scalar_def deliver_scalar_def ends_number_def)
next
  case (4 s)
  then show ?case
    using string_rest_escape [of s r]
    by (simp add: render_string_Cons scan_from_Cons scan_step_def begin_value_def scalar_def deliver_scalar_def ends_number_def)
next
  case (5 js)
  let ?d = "max_nesting - length fs"
  have d: "length fs < max_nesting" "list_all (writable (?d - 1)) js" using 5(2) by simp_all
  have o: "scan_from Want_value fs (CHR ''['' # x) = scan_from Want_value_or_close (In_array [] # fs) x" for x
    using d(1) by (simp add: scan_from_Cons scan_step_def begin_value_def open_container_def)
  have e: "scan_from Want_value (In_array vs # fs) (render j @ x) = scan_from After_value (In_array (vs @ [doc_of j]) # fs) x"
    if "j \<in> set js" "ends_number x" for j vs x
    using 5(1) [OF that(1), of "In_array vs # fs" x] d(2) that by (simp add: list_all_iff)
  show ?case
  proof (cases "js = []")
    case True
    then show ?thesis by (simp add: o)
  next
    case False
    from scan_elements [OF e False, of "[]" r] show ?thesis by (simp add: o scan_first_element [OF False])
  qed
next
  case (6 kvs)
  let ?d = "max_nesting - length fs"
  have d: "length fs < max_nesting" "list_all (\<lambda>kv. valid_utf8 (fst kv)) kvs"
    "\<And>k j. (k, j) \<in> set kvs \<Longrightarrow> writable (?d - 1) j" using 6(2) by (auto simp: list_all_iff)
  have o: "scan_from Want_value fs (CHR ''{'' # x) = scan_from Want_key_or_close (In_object [] [] # fs) x" for x
    using d(1) by (simp add: scan_from_Cons scan_step_def begin_value_def open_container_def)
  have e: "scan_from Want_value (In_object ms k # fs) (render j @ x) = scan_from After_value (In_object (ms @ [(k, doc_of j)]) [] # fs) x"
    if "(k, j) \<in> set kvs" "ends_number x" for k j ms x
    using 6(1) [OF that(1), of "In_object ms k # fs" x] d(3) [OF that(1)] that by simp
  show ?case
  proof (cases "kvs = []")
    case True
    then show ?thesis by (simp add: o)
  next
    case False
    from scan_members [OF e d(2) False, of Want_key_or_close "[]" "[]" r] show ?thesis by (simp add: o)
  qed
qed (auto simp: scan_from_Cons scan_step_def begin_value_def scalar_def deliver_scalar_def ends_number_def)

lemma read_value_render:
  "writable max_nesting j \<Longrightarrow> ends_number r \<Longrightarrow> read_value (render j @ r) = Got (doc_of j) r"
  using scan_render [of "[]" j r] by (simp add: read_value_def)

lemma read_all_value_render: "writable max_nesting j \<Longrightarrow> read_all_value (render j) = Some (doc_of j)"
  using read_value_render [of j "'' ''"] by (simp add: read_all_value_def is_space_def)

section \<open>Storing in a struct\<close>

text \<open>
  A key names a field if it is equal to its name up to Unicode case folding; the only runes beyond
  ASCII that fold to ASCII letters are U+017F (to s) and U+212A (to k).
\<close>

definition fold_rune :: "string \<Rightarrow> string" where
  "fold_rune r =
     (if r = [byte 0xC5, byte 0xBF] then ''s''
      else if r = [byte 0xE2, byte 0x84, byte 0xAA] then ''k''
      else ascii_lower r)"

definition fold_name :: "string \<Rightarrow> string" where
  "fold_name s = concat (map fold_rune (runes s))"

text \<open>A field: how a value changes the struct, or \<^term>\<open>None\<close> for a value of another type.\<close>

type_synonym 'a field = "doc \<Rightarrow> 'a \<Rightarrow> 'a option"

definition string_field :: "(string \<Rightarrow> 'a \<Rightarrow> 'a) \<Rightarrow> 'a field" where
  "string_field upd v a = (case v of DStr s \<Rightarrow> Some (upd s a) | DNull \<Rightarrow> Some a | _ \<Rightarrow> None)"

definition int64_field :: "(int \<Rightarrow> 'a \<Rightarrow> 'a) \<Rightarrow> 'a field" where
  "int64_field upd v a =
     (case v of
        DNum s \<Rightarrow> (case parse_int 64 s of Some n \<Rightarrow> Some (upd n a) | None \<Rightarrow> None)
      | DNull \<Rightarrow> Some a
      | _ \<Rightarrow> None)"

fun find_field :: "(string \<times> 'a field) list \<Rightarrow> string \<Rightarrow> 'a field option" where
  "find_field [] k = None"
| "find_field ((name, f) # fs) k = (if fold_name k = fold_name name then Some f else find_field fs k)"

text \<open>The members in order; unknown keys are skipped, a value of another type is an error.\<close>

fun store_members :: "(string \<times> 'a field) list \<Rightarrow> (string \<times> doc) list \<Rightarrow> 'a \<Rightarrow> 'a option" where
  "store_members fs [] a = Some a"
| "store_members fs ((k, v) # ms) a =
     (case find_field fs k of
        None \<Rightarrow> store_members fs ms a
      | Some f \<Rightarrow> (case f v a of Some a' \<Rightarrow> store_members fs ms a' | None \<Rightarrow> None))"

definition into_struct :: "(string \<times> 'a field) list \<Rightarrow> 'a \<Rightarrow> doc \<Rightarrow> 'a option" where
  "into_struct fs zero v =
     (case v of DObj ms \<Rightarrow> store_members fs ms zero | DNull \<Rightarrow> Some zero | _ \<Rightarrow> None)"

lemma fold_name_ascii: "ascii s \<Longrightarrow> fold_name s = ascii_lower s"
proof -
  assume "ascii s"
  then have "runes s = map (\<lambda>c. [c]) s" by (rule runes_ascii)
  then show ?thesis by (simp add: fold_name_def fold_rune_def ascii_lower_def comp_def)
qed

lemma fields_simps [simp]:
  "string_field upd (DStr s) a = Some (upd s a)" "string_field upd DNull a = Some a"
  "int64_field upd' DNull a = Some a"
  by (simp_all add: string_field_def int64_field_def)

lemma show_nat_start: "show_nat m \<noteq> [] \<and> hd (show_nat m) \<noteq> CHR ''-'' \<and> hd (show_nat m) \<noteq> CHR ''+''"
  using show_nat_digits [of m] by (cases "show_nat m") (auto simp: is_digit_def less_eq_char_def)

text \<open>An integer that fits is read back from its decimal form.\<close>

lemma parse_int_show_int:
  assumes "- (2 ^ 63) \<le> n" "n < 2 ^ 63"
  shows "parse_int 64 (show_int n) = Some n"
  using assms show_nat_start [of "nat n"] show_nat_start [of "nat (- n)"] show_nat_digits
  by (auto simp: parse_int_def show_int_def Let_def)

lemma int64_field_show [simp]:
  "- (2 ^ 63) \<le> n \<Longrightarrow> n < 2 ^ 63 \<Longrightarrow> int64_field upd (DNum (show_int n)) a = Some (upd n a)"
  by (simp add: int64_field_def parse_int_show_int)

end
