(* ===== verification/Http.thy ===== *)
theory Http
  imports World Json_Decode
begin

text \<open>
  Requests, responses and the envelope (\<open>internal/platform/httpx/envelope.go\<close>, \<open>respond.go\<close>) and
  the chain of middlewares (\<open>mid/chain.go\<close>). A handler is given the request and the header map
  its \<open>http.ResponseWriter\<close> has at the call; what it does to the writer is the list of the
  writer's methods it calls, in order. So a wrapper around the writer
  (\<open>captureResponseWriter\<close>) is a function of that list, and the same handler runs against the
  connection or against a wrapper.
\<close>

section \<open>Requests\<close>

text \<open>The values the middlewares put into \<open>r.Context()\<close>; 0 and the empty string stand for a
  missing value, which is how \<open>GetUserID\<close>, \<open>GetCorrelationID\<close> and \<open>GetJTI\<close> report it.\<close>

record ctx =
  cx_user :: int
  cx_cid :: string
  cx_jti :: string
  cx_token_exp :: "time option"

definition background :: ctx where
  "background = \<lparr>cx_user = 0, cx_cid = [], cx_jti = [], cx_token_exp = None\<rparr>"

definition GetUserID :: "ctx \<Rightarrow> int" where "GetUserID c = cx_user c"
definition WithUserID :: "ctx \<Rightarrow> int \<Rightarrow> ctx" where "WithUserID c uid = c\<lparr>cx_user := uid\<rparr>"
definition GetCorrelationID :: "ctx \<Rightarrow> string" where "GetCorrelationID c = cx_cid c"
definition WithCorrelationID :: "ctx \<Rightarrow> string \<Rightarrow> ctx" where "WithCorrelationID c cid = c\<lparr>cx_cid := cid\<rparr>"

text \<open>
  \<open>rq_path_value\<close> is \<open>r.PathValue("id")\<close>. The body is what the client sends; \<open>rq_limit\<close> is the limit of \<open>http.MaxBytesReader\<close>,
  \<open>rq_broken\<close> an error of the connection while reading it.
\<close>

record request =
  rq_method :: string
  rq_path :: string
  rq_uri :: string
  rq_path_value :: string
  rq_query :: "(string \<times> string) list"
  rq_header :: "string \<Rightarrow> string"
  rq_body :: bytes
  rq_limit :: "nat option"
  rq_broken :: "string option"
  rq_id :: string
  rq_ctx :: ctx
  rq_remote :: string
  rq_tls :: bool

text \<open>\<open>r.URL.Query().Get(k)\<close>: the first value of the key, or the empty string.\<close>

definition query_get :: "request \<Rightarrow> string \<Rightarrow> string" where
  "query_get r k = (case map_of (rq_query r) k of None \<Rightarrow> [] | Some v \<Rightarrow> v)"

text \<open>\<open>io.ReadAll(r.Body)\<close>.\<close>

definition read_all :: "request \<Rightarrow> go_error + bytes" where
  "read_all r =
     (case rq_broken r of
        Some msg \<Rightarrow> Inl (Opaque msg)
      | None \<Rightarrow>
          (case rq_limit r of
             Some n \<Rightarrow> if n < length (rq_body r) then Inl Max_Bytes else Inr (rq_body r)
           | None \<Rightarrow> Inr (rq_body r)))"

section \<open>Response writers\<close>

type_synonym headers = "string \<Rightarrow> string"

datatype writer_op = SetHeader string string | WriteHeader nat | WriteBody bytes

record reply =
  ops :: "writer_op list"
  panicked :: "string option"

type_synonym handler = "env \<Rightarrow> request \<Rightarrow> headers \<Rightarrow> world \<Rightarrow> reply \<times> world"
type_synonym middleware = "handler \<Rightarrow> handler"

definition returns :: "writer_op list \<Rightarrow> reply" where
  "returns xs = \<lparr>ops = xs, panicked = None\<rparr>"

text \<open>The header map after a list of calls.\<close>

fun headers_after :: "headers \<Rightarrow> writer_op list \<Rightarrow> headers" where
  "headers_after h [] = h"
| "headers_after h (SetHeader k v # xs) = headers_after (h(k := v)) xs"
| "headers_after h (_ # xs) = headers_after h xs"

text \<open>
  The contract of \<open>http.ResponseWriter\<close> that handlers and wrappers rely on: the first status
  written stays, a body write without a status means 200, bodies are appended.
\<close>

locale response_writer =
  fixes call :: "writer_op \<Rightarrow> 'w \<Rightarrow> 'w"
    and status_of :: "'w \<Rightarrow> nat"
    and body_of :: "'w \<Rightarrow> bytes"
  assumes call_set: "status_of (call (SetHeader k v) w) = status_of w" "body_of (call (SetHeader k v) w) = body_of w"
    and call_header:
      "status_of (call (WriteHeader n) w) = (if status_of w = 0 then n else status_of w)"
      "body_of (call (WriteHeader n) w) = body_of w"
    and call_body:
      "status_of (call (WriteBody b) w) = (if status_of w = 0 then 200 else status_of w)"
      "body_of (call (WriteBody b) w) = body_of w @ b"
begin

lemma status_stays: "status_of w \<noteq> 0 \<Longrightarrow> status_of (fold call xs w) = status_of w"
proof (induction xs arbitrary: w)
  case (Cons x xs)
  then show ?case by (cases x) (simp_all add: call_set call_header call_body)
qed simp

lemma bodies_append:
  "body_of (fold call xs w) =
    body_of w @ concat (map (\<lambda>x. case x of WriteBody b \<Rightarrow> b | _ \<Rightarrow> []) xs)"
proof (induction xs arbitrary: w)
  case (Cons x xs)
  then show ?case by (cases x) (simp_all add: call_set call_header call_body)
qed simp

end

text \<open>The connection's writer (package \<open>net/http\<close>): the headers sent are those at the first
  status or body write.\<close>

record conn =
  cn_header :: headers
  cn_status :: nat
  cn_sent :: headers
  cn_body :: bytes

definition open_conn :: conn where
  "open_conn = \<lparr>cn_header = (\<lambda>_. []), cn_status = 0, cn_sent = (\<lambda>_. []), cn_body = []\<rparr>"

fun conn_call :: "writer_op \<Rightarrow> conn \<Rightarrow> conn" where
  "conn_call (SetHeader k v) c = c\<lparr>cn_header := (cn_header c)(k := v)\<rparr>"
| "conn_call (WriteHeader n) c =
     (if cn_status c = 0 then c\<lparr>cn_status := n, cn_sent := cn_header c\<rparr> else c)"
| "conn_call (WriteBody b) c =
     (if cn_status c = 0 then c\<lparr>cn_status := 200, cn_sent := cn_header c, cn_body := cn_body c @ b\<rparr>
      else c\<lparr>cn_body := cn_body c @ b\<rparr>)"

interpretation conn_writer: response_writer conn_call cn_status cn_body
  by unfold_locales auto

text \<open>What the client receives when the handler has returned (200 when nothing was written).\<close>

record response =
  rs_status :: nat
  rs_headers :: headers
  rs_body :: bytes

definition send :: "headers \<Rightarrow> writer_op list \<Rightarrow> response" where
  "send h xs =
     (let c = fold conn_call xs (open_conn\<lparr>cn_header := h\<rparr>)
      in if cn_status c = 0 then \<lparr>rs_status = 200, rs_headers = cn_header c, rs_body = []\<rparr>
         else \<lparr>rs_status = cn_status c, rs_headers = cn_sent c, rs_body = cn_body c\<rparr>)"

section \<open>The envelope\<close>

definition json_content_type :: string where
  "json_content_type = ''application/json; charset=utf-8''"

text \<open>\<open>httpx.JSON\<close>: \<open>Encoder.Encode\<close> writes the document and a newline in one call.\<close>

definition JSON_reply :: "nat \<Rightarrow> json \<Rightarrow> writer_op list" where
  "JSON_reply status payload =
     [SetHeader ''Content-Type'' json_content_type, WriteHeader status,
      WriteBody (render payload @ [byte 10])]"

definition success_body :: "json \<Rightarrow> json" where
  "success_body d = JObj [(''success'', JBool True), (''data'', d)]"

text \<open>\<open>errorResponse\<close> with its \<open>omitempty\<close> fields (\<open>Fields\<close> is never set).\<close>

definition error_body :: "nat \<Rightarrow> string \<Rightarrow> string \<Rightarrow> string \<Rightarrow> json" where
  "error_body status code message timestamp =
     JObj [(''success'', JBool False),
           (''error'',
            JObj ([(''code'', JStr code), (''message'', JStr message)] @
                  (if status = 0 then [] else [(''status'', JNum (int status))]) @
                  (if timestamp = [] then [] else [(''timestamp'', JStr timestamp)])))]"

definition OK_reply :: "json \<Rightarrow> writer_op list" where
  "OK_reply d = JSON_reply 200 (success_body d)"

definition Created_reply :: "json \<Rightarrow> writer_op list" where
  "Created_reply d = JSON_reply 201 (success_body d)"

definition NoContent_reply :: "writer_op list" where
  "NoContent_reply = [WriteHeader 204]"

definition Fail :: "nat \<Rightarrow> string \<Rightarrow> string \<Rightarrow> env \<Rightarrow> world \<Rightarrow> writer_op list \<times> world" where
  "Fail status code message e w =
     (JSON_reply status (error_body status code message (rfc3339_nano (clock e (ticks w)))), tick w)"

text \<open>\<open>FailFromErr\<close>: a type assertion, so only an unwrapped \<open>*AppError\<close> counts.\<close>

definition FailFromErr :: "go_error option \<Rightarrow> env \<Rightarrow> world \<Rightarrow> writer_op list \<times> world" where
  "FailFromErr err e w =
     (case err of
        None \<Rightarrow> ([], w)
      | Some (App_Error l c m i) \<Rightarrow> Fail (HTTPStatus c) c m e w
      | Some _ \<Rightarrow> Fail 500 ''INTERNAL_ERROR'' ''An internal server error occurred'' e w)"

text \<open>\<open>WriteAppError\<close> (its log lines left out).\<close>

definition WriteAppError :: "go_error \<Rightarrow> string \<Rightarrow> env \<Rightarrow> world \<Rightarrow> writer_op list \<times> world" where
  "WriteAppError err fallback e w =
     (case errors_as_app err of
        Some a \<Rightarrow> Fail (HTTPStatus (app_code a)) (app_code a) (app_message a) e w
      | None \<Rightarrow> Fail 500 ''INTERNAL_ERROR'' fallback e w)"

definition answered_with :: "writer_op list \<times> world \<Rightarrow> reply \<times> world" where
  "answered_with xw = (case xw of (xs, w) \<Rightarrow> (returns xs, w))"

text \<open>
  \<open>httpx.Decode\<close>: the decoder reads the first JSON value of the body and stores it in \<open>dst\<close>;
  \<open>dec\<close> is the storing for the type of \<open>dst\<close>. At the end of the body (but not at the size limit)
  the decoder goes on with a space; if it wants more than that, its error is the one of the reader.
\<close>

definition Decode :: "(doc \<Rightarrow> 'a option) \<Rightarrow> request \<Rightarrow> env \<Rightarrow> world \<Rightarrow> (writer_op list + 'a) \<times> world" where
  "Decode dec r e w =
     (let avail = (case rq_limit r of Some n \<Rightarrow> take n (rq_body r) | None \<Rightarrow> rq_body r);
          over = (case rq_limit r of Some n \<Rightarrow> n < length (rq_body r) | None \<Rightarrow> False);
          eof = (rq_broken r = None \<and> \<not> over);
          invalid = (case Fail 400 ''INVALID_JSON'' ''Invalid JSON payload'' e w of (xs, w') \<Rightarrow> (Inl xs, w'))
      in case read_value (if eof then avail @ '' '' else avail) of
           Got v rest \<Rightarrow> (case dec v of Some a \<Rightarrow> (Inr a, w) | None \<Rightarrow> invalid)
         | Bad \<Rightarrow> invalid
         | More \<Rightarrow>
             if rq_broken r = None \<and> over
             then (case Fail 413 ''PAYLOAD_TOO_LARGE'' ''Request body exceeds the allowed size'' e w of
                     (xs, w') \<Rightarrow> (Inl xs, w'))
             else invalid)"

section \<open>Handlers\<close>

text \<open>\<open>x, ok := parse(w, r); if !ok { return }\<close>.\<close>

definition guarded_by ::
  "(env \<Rightarrow> world \<Rightarrow> (writer_op list + 'a) \<times> world) \<Rightarrow> ('a \<Rightarrow> env \<Rightarrow> world \<Rightarrow> reply \<times> world) \<Rightarrow>
    env \<Rightarrow> world \<Rightarrow> reply \<times> world" where
  "guarded_by p k e w =
     (case p e w of
        (Inl xs, w') \<Rightarrow> (returns xs, w')
      | (Inr a, w') \<Rightarrow> k a e w')"

text \<open>\<open>v, err := m; if err != nil { writeServiceError(...); return }; reply(v)\<close>.\<close>

definition respond :: "string \<Rightarrow> ('a \<Rightarrow> writer_op list) \<Rightarrow> 'a act \<Rightarrow> env \<Rightarrow> world \<Rightarrow> reply \<times> world" where
  "respond fallback reply m e w =
     (case m e w of
        (Done a, w') \<Rightarrow> (returns (reply a), w')
      | (Fail_with err, w') \<Rightarrow> answered_with (WriteAppError err fallback e w')
      | (Panics p, w') \<Rightarrow> (\<lparr>ops = [], panicked = Some p\<rparr>, w'))"

section \<open>Chains\<close>

text \<open>\<open>mid.Chain(h, m1, ..., mn)\<close>: the loop wraps from the last middleware to the first, so
  the first is outermost.\<close>

definition Chain :: "handler \<Rightarrow> middleware list \<Rightarrow> handler" where
  "Chain h ms = fold (\<lambda>m acc. m acc) (rev ms) h"

lemma Chain_Nil [simp]: "Chain h [] = h"
  by (simp add: Chain_def)

lemma Chain_Cons [simp]: "Chain h (m # ms) = m (Chain h ms)"
  by (simp add: Chain_def)

section \<open>What clients receive\<close>

lemma send_JSON [simp]:
  "rs_status (send h (JSON_reply st d)) = (if st = 0 then 200 else st)"
  "rs_headers (send h (JSON_reply st d)) = h(''Content-Type'' := json_content_type)"
  "rs_body (send h (JSON_reply st d)) = render d @ [byte 10]"
  by (simp_all add: send_def JSON_reply_def open_conn_def Let_def)

lemma HTTPStatus_nonzero [simp]: "HTTPStatus c \<noteq> 0"
  by (simp add: HTTPStatus_def)

lemma Fail_dbase [simp]: "dbase (snd (Fail st c m e w)) = dbase w"
  by (simp add: Fail_def)

lemma WriteAppError_dbase [simp]: "dbase (snd (WriteAppError err fb e w)) = dbase w"
  by (simp add: WriteAppError_def split: option.splits)

lemma WriteAppError_public:
  "WriteAppError err fb e w =
    (case public_view fb err of (st, c, m) \<Rightarrow> Fail st c m e w)"
  by (simp add: WriteAppError_def public_view_def split: option.splits)

lemma send_Fail: "rs_status (send h (fst (Fail st c m e w))) = (if st = 0 then 200 else st)"
  by (simp add: Fail_def)

lemma answered_with_Fail:
  "answered_with (Fail st c m e w) = (rep, w') \<Longrightarrow> st \<noteq> 0 \<Longrightarrow>
    rs_status (send h (ops rep)) = st \<and> panicked rep = None \<and> dbase w' = dbase w"
  by (auto simp: answered_with_def Fail_def returns_def split: prod.splits)

text \<open>A request and a header map, for the concrete inputs of the witnesses.\<close>

definition sample_request :: request where
  "sample_request =
     \<lparr>rq_method = ''POST'', rq_path = ''/tasks'', rq_uri = ''/tasks'', rq_path_value = [], rq_query = [],
      rq_header = (\<lambda>k. if k = ''Idempotency-Key'' then ''k-1'' else []), rq_body = ''{}'', rq_limit = Some 1024,
      rq_broken = None, rq_id = ''r-1'', rq_ctx = background\<lparr>cx_user := 1\<rparr>, rq_remote = ''127.0.0.1'', rq_tls = False\<rparr>"

definition no_headers :: headers where
  "no_headers = (\<lambda>_. [])"

end
