(* ===== verification/Idem_Store.thy ===== *)
theory Idem_Store
  imports Http
begin

text \<open>
  The claims on idempotency keys (\<open>dbClaimStore\<close> of \<open>internal/platform/mid/idempotency.go\<close>), for
  both drivers. \<open>claim_store\<close> is the Go interface; the locale \<open>claim_contract\<close> is what the
  middleware relies on, stated over the records a scope shows.
\<close>

section \<open>Requests, records, results\<close>

record claimScope =
  cs_key :: string
  cs_user :: int
  cs_path :: string
  cs_method :: string

record claimRequest =
  cq_scope :: claimScope
  cq_hash :: string
  cq_expires :: time

record claimRecord =
  cr_id :: int
  cr_status :: string
  cr_hash :: string
  cr_resp_status :: nat
  cr_resp_body :: bytes
  cr_resp_ctype :: string
  cr_expires :: time

record claimResult =
  cl_failed :: bool
  cl_status :: nat
  cl_body :: bytes
  cl_ctype :: string
  cl_expires :: time

text \<open>The interface \<open>claimStore\<close>; \<^term>\<open>None\<close> is \<open>ok == false\<close> or the nil record.\<close>

record claim_store =
  Claim :: "claimRequest \<Rightarrow> int option act"
  Get :: "claimScope \<Rightarrow> claimRecord option act"
  ReclaimExpired :: "int \<Rightarrow> claimRequest \<Rightarrow> int option act"
  ReclaimFailed :: "int \<Rightarrow> claimRequest \<Rightarrow> int option act"
  Finalize :: "int \<Rightarrow> claimResult \<Rightarrow> unit act"

section \<open>The statements\<close>

text \<open>\<open>VARCHAR(n)\<close> as PostgreSQL assigns it: surplus characters are an error unless they are all
  spaces, which are cut off.\<close>

definition pg_assign :: "nat \<Rightarrow> string \<Rightarrow> string option" where
  "pg_assign n s =
     (if \<not> pg_text s then None
      else if length (runes s) \<le> n then Some s
      else if list_all (\<lambda>r. r = '' '') (drop n (runes s)) then Some (concat (take n (runes s)))
      else None)"

text \<open>How the columns read a scope: PostgreSQL's key is a UUID, SQLite's the text as it came.\<close>

definition scope_key :: "env \<Rightarrow> string \<Rightarrow> string option" where
  "scope_key e k = (if driver_of e = DriverSQLite then Some k else pg_uuid e k)"

definition scope_path :: "env \<Rightarrow> string \<Rightarrow> string option" where
  "scope_path e p = (if driver_of e = DriverSQLite then Some p else pg_assign 255 p)"

definition has_scope :: "string \<Rightarrow> claimScope \<Rightarrow> idem_row \<Rightarrow> bool" where
  "has_scope k s r \<longleftrightarrow>
     ik_key r = k \<and> ik_user r = cs_user s \<and> ik_path r = cs_path s \<and> ik_method r = cs_method s"

definition syntax_error :: go_error where
  "syntax_error = Opaque ''invalid input syntax for type uuid''"

definition insert_claim :: "claimRequest \<Rightarrow> time \<Rightarrow> env \<Rightarrow> db \<Rightarrow> go_error + int option \<times> db" where
  "insert_claim c now e d =
     (let s = cq_scope c in
      case (scope_key e (cs_key s), scope_path e (cs_path s)) of
        (None, _) \<Rightarrow> Inl syntax_error
      | (_, None) \<Rightarrow> Inl varchar_error
      | (Some k, Some p) \<Rightarrow>
          if driver_of e = DriverPostgres \<and> \<not> (varchar 8 (cs_method s) \<and> varchar 64 (cq_hash c)) then Inl varchar_error
          else if list_ex (has_scope k (s\<lparr>cs_path := p\<rparr>)) (idem_keys d) then Inr (None, d)
          else if \<not> user_exists d (cs_user s) then Inl fk_error
          else Inr (Some (seq_idem d + 1),
            d\<lparr>idem_keys := idem_keys d @
                [\<lparr>ik_id = seq_idem d + 1, ik_key = k, ik_user = cs_user s, ik_path = p,
                  ik_method = cs_method s, ik_hash = cq_hash c, ik_status = ''processing'',
                  ik_resp_status = None, ik_resp_body = None, ik_resp_ctype = None,
                  ik_expires = stored_time e (cq_expires c), ik_created = now\<rparr>],
              seq_idem := seq_idem d + 1\<rparr>))"

definition db_Claim :: "claimRequest \<Rightarrow> int option act" where
  "db_Claim c e =
     bind_act (if driver_of e = DriverSQLite then time_now else db_now) (\<lambda>now. stmt (insert_claim c now)) e"

definition record_of :: "idem_row \<Rightarrow> claimRecord" where
  "record_of r =
     \<lparr>cr_id = ik_id r, cr_status = ik_status r, cr_hash = ik_hash r,
      cr_resp_status = (case ik_resp_status r of Some n \<Rightarrow> n | None \<Rightarrow> 0),
      cr_resp_body = (case ik_resp_body r of Some b \<Rightarrow> b | None \<Rightarrow> []),
      cr_resp_ctype = (case ik_resp_ctype r of Some c \<Rightarrow> c | None \<Rightarrow> []),
      cr_expires = ik_expires r\<rparr>"

definition select_claim :: "claimScope \<Rightarrow> env \<Rightarrow> db \<Rightarrow> go_error + claimRecord option \<times> db" where
  "select_claim s e d =
     (case scope_key e (cs_key s) of
        None \<Rightarrow> Inl syntax_error
      | Some k \<Rightarrow>
          if driver_of e = DriverPostgres \<and> \<not> pg_text (cs_path s) then Inl encoding_error
          else Inr (map_option record_of (first_row (has_scope k s) (idem_keys d)), d))"

definition db_Get :: "claimScope \<Rightarrow> claimRecord option act" where
  "db_Get s = stmt (select_claim s)"

text \<open>An \<open>UPDATE ... WHERE id = ? AND cond\<close>: \<^term>\<open>None\<close> when it touched no row.\<close>

definition update_claim :: "int \<Rightarrow> (idem_row \<Rightarrow> bool) \<Rightarrow> (idem_row \<Rightarrow> idem_row) \<Rightarrow> int option act" where
  "update_claim i cond f =
     stmt (\<lambda>e d. Inr (if list_ex (\<lambda>r. ik_id r = i \<and> cond r) (idem_keys d) then Some i else None,
       d\<lparr>idem_keys := update_where (\<lambda>r. ik_id r = i \<and> cond r) f (idem_keys d)\<rparr>))"

definition db_ReclaimExpired :: "int \<Rightarrow> claimRequest \<Rightarrow> int option act" where
  "db_ReclaimExpired i c e =
     bind_act (if driver_of e = DriverSQLite then time_now else db_now) (\<lambda>now.
       update_claim i (\<lambda>r. ik_expires r \<le> now)
         (\<lambda>r. r\<lparr>ik_status := ''processing'', ik_hash := cq_hash c, ik_expires := stored_time e (cq_expires c),
                ik_resp_status := None, ik_resp_body := None, ik_resp_ctype := None\<rparr>)) e"

definition db_ReclaimFailed :: "int \<Rightarrow> claimRequest \<Rightarrow> int option act" where
  "db_ReclaimFailed i c e =
     update_claim i (\<lambda>r. ik_status r = ''failed'' \<and> ik_hash r = cq_hash c)
       (\<lambda>r. r\<lparr>ik_status := ''processing'', ik_expires := stored_time e (cq_expires c)\<rparr>) e"

text \<open>PostgreSQL's \<open>response_body\<close> and \<open>response_content_type\<close> are text columns.\<close>

definition completed_row :: "env \<Rightarrow> claimResult \<Rightarrow> idem_row \<Rightarrow> idem_row" where
  "completed_row e res r =
     r\<lparr>ik_status := ''completed'', ik_resp_status := Some (cl_status res), ik_resp_body := Some (cl_body res),
       ik_resp_ctype := Some (cl_ctype res), ik_expires := stored_time e (cl_expires res)\<rparr>"

definition db_Finalize :: "int \<Rightarrow> claimResult \<Rightarrow> unit act" where
  "db_Finalize i res e =
     (if cl_failed res
      then bind_act (update_claim i (\<lambda>_. True) (\<lambda>r. r\<lparr>ik_status := ''failed''\<rparr>)) (\<lambda>_. ret ()) e
      else if driver_of e = DriverPostgres \<and> \<not> (pg_text (cl_body res) \<and> pg_text (cl_ctype res))
      then stmt (\<lambda>_ _. Inl encoding_error) e
      else bind_act (update_claim i (\<lambda>_. True) (completed_row e res)) (\<lambda>_. ret ()) e)"

definition dbClaimStore :: claim_store where
  "dbClaimStore =
     \<lparr>Claim = db_Claim, Get = db_Get, ReclaimExpired = db_ReclaimExpired,
      ReclaimFailed = db_ReclaimFailed, Finalize = db_Finalize\<rparr>"

section \<open>What a scope shows\<close>

text \<open>The invariant of the table: ids ascend and stay below the sequence, and no two rows have
  the same scope (the unique index).\<close>

definition row_scope :: "idem_row \<Rightarrow> string \<times> int \<times> string \<times> string" where
  "row_scope r = (ik_key r, ik_user r, ik_path r, ik_method r)"

definition idem_ok :: "db \<Rightarrow> bool" where
  "idem_ok d \<longleftrightarrow>
     distinct (map row_scope (idem_keys d)) \<and> distinct (map ik_id (idem_keys d)) \<and>
     list_all (\<lambda>i. i \<le> seq_idem d) (map ik_id (idem_keys d))"

definition shown :: "env \<Rightarrow> db \<Rightarrow> claimScope \<Rightarrow> claimRecord option" where
  "shown e d s =
     (case scope_key e (cs_key s) of
        None \<Rightarrow> None
      | Some k \<Rightarrow> map_option record_of (first_row (has_scope k s) (idem_keys d)))"

text \<open>Two scopes that the table takes for the same.\<close>

definition same_scope :: "env \<Rightarrow> claimScope \<Rightarrow> claimScope \<Rightarrow> bool" where
  "same_scope e s s' \<longleftrightarrow>
     scope_key e (cs_key s) = scope_key e (cs_key s') \<and> scope_key e (cs_key s) \<noteq> None \<and>
     cs_user s = cs_user s' \<and> cs_path s = cs_path s' \<and> cs_method s = cs_method s'"

text \<open>A scope whose path and method the table stores as they are.\<close>

definition fits :: "env \<Rightarrow> claimScope \<Rightarrow> bool" where
  "fits e s \<longleftrightarrow> scope_path e (cs_path s) = Some (cs_path s) \<and>
     (driver_of e = DriverPostgres \<longrightarrow> varchar 8 (cs_method s))"

text \<open>A result the columns can hold.\<close>

definition storable :: "env \<Rightarrow> claimResult \<Rightarrow> bool" where
  "storable e res \<longleftrightarrow> driver_of e = DriverSQLite \<or> cl_failed res \<or> pg_text (cl_body res) \<and> pg_text (cl_ctype res)"

definition fresh_record :: "env \<Rightarrow> int \<Rightarrow> claimRequest \<Rightarrow> claimRecord" where
  "fresh_record e i c =
     \<lparr>cr_id = i, cr_status = ''processing'', cr_hash = cq_hash c, cr_resp_status = 0, cr_resp_body = [],
      cr_resp_ctype = [], cr_expires = stored_time e (cq_expires c)\<rparr>"

definition completed_record :: "env \<Rightarrow> claimResult \<Rightarrow> claimRecord \<Rightarrow> claimRecord" where
  "completed_record e res r =
     r\<lparr>cr_status := ''completed'', cr_resp_status := cl_status res, cr_resp_body := cl_body res,
       cr_resp_ctype := cl_ctype res, cr_expires := stored_time e (cl_expires res)\<rparr>"

text \<open>
  The contract of a claim store, for an invariant \<open>ok\<close> of the tables and the record \<open>show\<close>
  a scope has in them: each operation that succeeds does to the records what its name says, a
  failed one does nothing, and nothing panics.
\<close>

locale claim_contract =
  fixes store :: claim_store
    and ok :: "db \<Rightarrow> bool"
    and view :: "env \<Rightarrow> db \<Rightarrow> claimScope \<Rightarrow> claimRecord option"
    and same :: "env \<Rightarrow> claimScope \<Rightarrow> claimScope \<Rightarrow> bool"
    and fit :: "env \<Rightarrow> claimScope \<Rightarrow> bool"
  assumes claim_new:
      "ok (dbase w) \<Longrightarrow> fit e (cq_scope c) \<Longrightarrow> Claim store c e w = (Done (Some i), w') \<Longrightarrow>
        view e (dbase w) (cq_scope c) = None \<and> ok (dbase w') \<and> same e (cq_scope c) (cq_scope c) \<and>
        (\<forall>s. view e (dbase w') s = (if same e s (cq_scope c) then Some (fresh_record e i c) else view e (dbase w) s))"
    and claim_old:
      "ok (dbase w) \<Longrightarrow> fit e (cq_scope c) \<Longrightarrow> Claim store c e w = (Done None, w') \<Longrightarrow>
        view e (dbase w) (cq_scope c) \<noteq> None \<and> dbase w' = dbase w"
    and get: "Get store s e w = (Done got, w') \<Longrightarrow> got = view e (dbase w) s \<and> dbase w' = dbase w"
    and finalize_done:
      "ok (dbase w) \<Longrightarrow> view e (dbase w) s = Some r \<Longrightarrow> cl_failed res = False \<Longrightarrow>
        Finalize store (cr_id r) res e w = (Done u, w') \<Longrightarrow>
        ok (dbase w') \<and> view e (dbase w') s = Some (completed_record e res r)"
    and finalize_failed:
      "ok (dbase w) \<Longrightarrow> view e (dbase w) s = Some r \<Longrightarrow> cl_failed res = True \<Longrightarrow>
        Finalize store (cr_id r) res e w = (Done u, w') \<Longrightarrow>
        ok (dbase w') \<and> view e (dbase w') s = Some (r\<lparr>cr_status := ''failed''\<rparr>)"
    and reclaim_failed:
      "ok (dbase w) \<Longrightarrow> view e (dbase w) s = Some r \<Longrightarrow> ReclaimFailed store (cr_id r) c e w = (Done out, w') \<Longrightarrow>
        ok (dbase w') \<and>
        (if cr_status r = ''failed'' \<and> cr_hash r = cq_hash c
         then out = Some (cr_id r) \<and> view e (dbase w') s =
           Some (r\<lparr>cr_status := ''processing'', cr_expires := stored_time e (cq_expires c)\<rparr>)
         else out = None \<and> view e (dbase w') s = Some r)"
    and reclaim_expired:
      "ok (dbase w) \<Longrightarrow> view e (dbase w) s = Some r \<Longrightarrow> ReclaimExpired store (cr_id r) c e w = (Done out, w') \<Longrightarrow>
        tx_now w = None \<Longrightarrow>
        ok (dbase w') \<and>
        (if cr_expires r \<le> stored_time e (clock e (ticks w))
         then out = Some (cr_id r) \<and> view e (dbase w') s = Some (fresh_record e (cr_id r) c)
         else out = None \<and> view e (dbase w') s = Some r)"
    and claim_ticks: "Claim store c e w = (a, w') \<Longrightarrow> ticks w' \<le> ticks w + 2"
    and get_ticks: "Get store s e w = (b, w') \<Longrightarrow> ticks w' \<le> ticks w + 1"
    and claim_tx: "Claim store c e w = (a, w') \<Longrightarrow> tx_now w' = tx_now w"
    and get_tx: "Get store s e w = (b, w') \<Longrightarrow> tx_now w' = tx_now w"
    and claim_fails: "Claim store c e w = (a, w') \<Longrightarrow> \<forall>out. a \<noteq> Done out \<Longrightarrow> dbase w' = dbase w \<and> (\<exists>err. a = Fail_with err)"
    and get_fails: "Get store s e w = (b, w') \<Longrightarrow> \<forall>got. b \<noteq> Done got \<Longrightarrow> dbase w' = dbase w \<and> (\<exists>err. b = Fail_with err)"
    and claim_answers: "Claim store c e w = (Fail_with err, w') \<Longrightarrow> fit e (cq_scope c) \<Longrightarrow>
        view e (dbase w) (cq_scope c) = Some r \<Longrightarrow> varchar 64 (cq_hash c) \<Longrightarrow> \<exists>n msg. failure e n = Some msg"
    and get_answers: "Get store s e w = (Fail_with err, w') \<Longrightarrow> fit e s \<Longrightarrow> view e (dbase w) s = Some r \<Longrightarrow>
        \<exists>n msg. failure e n = Some msg"
    and reclaim_answers: "(\<And>n. failure e n = None) \<Longrightarrow> \<exists>out w'. ReclaimFailed store i c e w = (Done out, w')"
      "(\<And>n. failure e n = None) \<Longrightarrow> \<exists>out w'. ReclaimExpired store i c e w = (Done out, w')"
    and finalize_answers: "storable e res \<Longrightarrow> (\<And>n. failure e n = None) \<Longrightarrow>
        \<exists>w'. Finalize store i res e w = (Done (), w')"

section \<open>The rows behind the records\<close>

lemma has_scope_row_scope: "has_scope k s r \<longleftrightarrow> row_scope r = (k, cs_user s, cs_path s, cs_method s)"
  by (auto simp: has_scope_def row_scope_def)

lemma shown_row:
  assumes "shown e d s = Some rec"
  obtains k r where "scope_key e (cs_key s) = Some k" "r \<in> set (idem_keys d)" "has_scope k s r" "rec = record_of r"
  using assms by (auto simp: shown_def split: option.splits dest: first_row_SomeD)

lemma shown_of_row:
  assumes "idem_ok d" "scope_key e (cs_key s) = Some k" "r \<in> set (idem_keys d)" "has_scope k s r"
  shows "shown e d s = Some (record_of r)"
proof -
  have "first_row (has_scope k s) (idem_keys d) = Some r"
  proof (rule first_row_unique [where p = "has_scope k s", OF assms(3,4)])
    fix x assume "x \<in> set (idem_keys d)" "has_scope k s x"
    then show "x = r" using assms(1,3,4)
      by (auto simp: idem_ok_def has_scope_row_scope intro: distinct_map_inD [of row_scope])
  qed
  with assms(2) show ?thesis by (simp add: shown_def)
qed

text \<open>An update of one row by id keeps the table in order and changes the record of its scope.\<close>

lemma idem_ok_update:
  assumes "idem_ok d" "\<And>r. row_scope (f r) = row_scope r" "\<And>r. ik_id (f r) = ik_id r"
  shows "idem_ok (d\<lparr>idem_keys := update_where p f (idem_keys d)\<rparr>)"
  using assms by (simp add: idem_ok_def map_update_where)

lemma update_claim_DoneD:
  assumes "update_claim i cond f e w = (Done out, w')"
  shows "out = (if list_ex (\<lambda>r. ik_id r = i \<and> cond r) (idem_keys (dbase w)) then Some i else None) \<and>
    dbase w' = (dbase w)\<lparr>idem_keys := update_where (\<lambda>r. ik_id r = i \<and> cond r) f (idem_keys (dbase w))\<rparr>"
  using stmt_DoneD [OF assms [unfolded update_claim_def]] by auto

lemma update_claim_shown:
  assumes ok: "idem_ok (dbase w)" and sh: "shown e (dbase w) s = Some rec"
    and run: "update_claim (cr_id rec) cond f e w = (Done out, w')"
    and f: "\<And>r. row_scope (f r) = row_scope r" "\<And>r. ik_id (f r) = ik_id r"
  obtains r where "rec = record_of r" "idem_ok (dbase w')"
    "cond r \<Longrightarrow> out = Some (cr_id rec) \<and> shown e (dbase w') s = Some (record_of (f r))"
    "\<not> cond r \<Longrightarrow> out = None \<and> shown e (dbase w') s = Some rec"
proof -
  from sh obtain k r where r: "scope_key e (cs_key s) = Some k" "r \<in> set (idem_keys (dbase w))"
    "has_scope k s r" "rec = record_of r" by (rule shown_row)
  then have i: "cr_id rec = ik_id r" by (simp add: record_of_def)
  from update_claim_DoneD [OF run] i have
    o: "out = (if list_ex (\<lambda>x. ik_id x = ik_id r \<and> cond x) (idem_keys (dbase w)) then Some (ik_id r) else None)"
    and d: "dbase w' = (dbase w)\<lparr>idem_keys := update_where (\<lambda>x. ik_id x = ik_id r \<and> cond x) f (idem_keys (dbase w))\<rparr>"
    by simp_all
  have uniq: "x = r" if "x \<in> set (idem_keys (dbase w))" "ik_id x = ik_id r" for x
    using that r(2) ok by (auto simp: idem_ok_def intro: distinct_map_inD [of ik_id])
  then have ex: "list_ex (\<lambda>x. ik_id x = ik_id r \<and> cond x) (idem_keys (dbase w)) = cond r"
    using r(2) by (auto simp: list_ex_iff)
  have ok': "idem_ok (dbase w')" unfolding d using ok f by (rule idem_ok_update)
  show thesis
  proof (rule that [OF r(4) ok'])
    assume c: "cond r"
    have "f r \<in> set (idem_keys (dbase w'))"
      using r(2) c by (auto simp: d update_where_def intro: rev_image_eqI)
    moreover have "has_scope k s (f r)" using r(3) f(1) by (simp add: has_scope_row_scope)
    ultimately show "out = Some (cr_id rec) \<and> shown e (dbase w') s = Some (record_of (f r))"
      using shown_of_row [OF ok' r(1)] c ex o i by simp
  next
    assume c: "\<not> cond r"
    then have "update_where (\<lambda>x. ik_id x = ik_id r \<and> cond x) f (idem_keys (dbase w)) = idem_keys (dbase w)"
      using uniq by (intro update_where_none) auto
    then show "out = None \<and> shown e (dbase w') s = Some rec"
      using c ex o d sh by (simp add: shown_def)
  qed
qed

text \<open>A claim that inserts.\<close>

definition claim_row :: "env \<Rightarrow> string \<Rightarrow> claimRequest \<Rightarrow> int \<Rightarrow> time \<Rightarrow> idem_row" where
  "claim_row e k c i now =
     \<lparr>ik_id = i, ik_key = k, ik_user = cs_user (cq_scope c), ik_path = cs_path (cq_scope c),
      ik_method = cs_method (cq_scope c), ik_hash = cq_hash c, ik_status = ''processing'',
      ik_resp_status = None, ik_resp_body = None, ik_resp_ctype = None,
      ik_expires = stored_time e (cq_expires c), ik_created = now\<rparr>"

lemma insert_claim_InrD:
  assumes "insert_claim c now e d = Inr (out, d')" "fits e (cq_scope c)"
  obtains k where "scope_key e (cs_key (cq_scope c)) = Some k"
    "out = None \<Longrightarrow> d' = d \<and> list_ex (has_scope k (cq_scope c)) (idem_keys d)"
    "\<And>i. out = Some i \<Longrightarrow> i = seq_idem d + 1 \<and> \<not> list_ex (has_scope k (cq_scope c)) (idem_keys d) \<and>
       user_exists d (cs_user (cq_scope c)) \<and>
       d' = d\<lparr>idem_keys := idem_keys d @ [claim_row e k c i now], seq_idem := i\<rparr>"
  using assms
  by (auto simp: insert_claim_def Let_def fits_def claim_row_def split: option.splits if_splits)

lemma db_Claim_DoneD:
  assumes "db_Claim c e w = (Done out, w')"
  shows "\<exists>now. insert_claim c now e (dbase w) = Inr (out, dbase w')"
proof -
  from assms obtain now w1 where
    "(if driver_of e = DriverSQLite then time_now else db_now) e w = (Done now, w1)"
    "stmt (insert_claim c now) e w1 = (Done out, w')"
    unfolding db_Claim_def by (rule bind_act_DoneD)
  moreover from this(1) have "dbase w1 = dbase w"
    by (auto simp: act_simps split: if_splits dest: db_now_DoneD)
  ultimately show ?thesis using stmt_DoneD by metis
qed

lemma idem_ok_insert:
  assumes ok: "idem_ok d" and new: "\<not> list_ex (has_scope k (cq_scope c)) (idem_keys d)"
  shows "idem_ok (d\<lparr>idem_keys := idem_keys d @ [claim_row e k c (seq_idem d + 1) now], seq_idem := seq_idem d + 1\<rparr>)"
proof -
  have "row_scope (claim_row e k c i now) \<noteq> row_scope r" if "r \<in> set (idem_keys d)" for r i
    using new that by (auto simp: list_ex_iff has_scope_def row_scope_def claim_row_def)
  moreover have "ik_id r < seq_idem d + 1" if "r \<in> set (idem_keys d)" for r
    using ok that by (auto simp: idem_ok_def list_all_iff)
  ultimately show ?thesis
    using ok by (force simp: idem_ok_def list_all_iff claim_row_def)
qed

lemma shown_insert:
  assumes k: "scope_key e (cs_key (cq_scope c)) = Some k"
    and new: "\<not> list_ex (has_scope k (cq_scope c)) (idem_keys d)"
    and d': "idem_keys d' = idem_keys d @ [claim_row e k c i now]"
  shows "shown e d' s = (if same_scope e s (cq_scope c) then Some (fresh_record e i c) else shown e d s)"
proof (cases "scope_key e (cs_key s)")
  case None
  then show ?thesis by (simp add: shown_def same_scope_def)
next
  case (Some k')
  have m: "has_scope k' s (claim_row e k c i now) = same_scope e s (cq_scope c)"
    using Some k by (auto simp: has_scope_def claim_row_def same_scope_def)
  have r: "record_of (claim_row e k c i now) = fresh_record e i c"
    by (simp add: record_of_def claim_row_def fresh_record_def)
  show ?thesis
  proof (cases "same_scope e s (cq_scope c)")
    case True
    then have "has_scope k' s = has_scope k (cq_scope c)"
      using Some k by (auto simp: has_scope_def same_scope_def)
    with new have "first_row (has_scope k' s) (idem_keys d) = None"
      by (simp add: first_row_None_iff list_ex_iff)
    with True Some m r show ?thesis by (simp add: shown_def d' first_row_append)
  next
    case False
    with Some m show ?thesis by (simp add: shown_def d' first_row_append split: option.splits)
  qed
qed

lemma db_Claim_new:
  assumes "idem_ok (dbase w)" "fits e (cq_scope c)" "db_Claim c e w = (Done (Some i), w')"
  shows "shown e (dbase w) (cq_scope c) = None \<and> idem_ok (dbase w') \<and> same_scope e (cq_scope c) (cq_scope c) \<and>
    (\<forall>s. shown e (dbase w') s = (if same_scope e s (cq_scope c) then Some (fresh_record e i c) else shown e (dbase w) s))"
proof -
  from db_Claim_DoneD [OF assms(3)] obtain now where "insert_claim c now e (dbase w) = Inr (Some i, dbase w')" ..
  then obtain k where k: "scope_key e (cs_key (cq_scope c)) = Some k"
    and i: "i = seq_idem (dbase w) + 1" and new: "\<not> list_ex (has_scope k (cq_scope c)) (idem_keys (dbase w))"
    and d': "dbase w' = (dbase w)\<lparr>idem_keys := idem_keys (dbase w) @ [claim_row e k c i now], seq_idem := i\<rparr>"
    using assms(2) by (rule insert_claim_InrD) blast
  have "shown e (dbase w) (cq_scope c) = None"
    using k new by (simp add: shown_def first_row_None_iff list_ex_iff)
  moreover have "same_scope e (cq_scope c) (cq_scope c)" using k by (simp add: same_scope_def)
  ultimately show ?thesis
    using idem_ok_insert [OF assms(1) new] shown_insert [OF k new] by (simp add: d' i)
qed

lemma db_Claim_old:
  assumes "fits e (cq_scope c)" "db_Claim c e w = (Done None, w')"
  shows "shown e (dbase w) (cq_scope c) \<noteq> None \<and> dbase w' = dbase w"
proof -
  from db_Claim_DoneD [OF assms(2)] obtain now where "insert_claim c now e (dbase w) = Inr (None, dbase w')" ..
  then obtain k where k: "scope_key e (cs_key (cq_scope c)) = Some k"
    and old: "list_ex (has_scope k (cq_scope c)) (idem_keys (dbase w))" "dbase w' = dbase w"
    using assms(1) by (rule insert_claim_InrD) blast
  then show ?thesis by (auto simp: shown_def first_row_None_iff list_ex_iff)
qed

lemma now_outside_tx:
  assumes "(if driver_of e = DriverSQLite then time_now else db_now) e w = (Done now, w1)" "tx_now w = None"
  shows "now = stored_time e (clock e (ticks w)) \<and> dbase w1 = dbase w"
  using assms by (auto simp: act_simps db_now_def stored_time_def split: if_splits)

lemma db_Claim_ticks: "db_Claim c e w = (a, w') \<Longrightarrow> ticks w' \<le> ticks w + 2"
  by (auto simp: db_Claim_def bind_act_def act_simps db_now_def stmt_def
      split: if_splits option.splits sum.splits prod.splits)

lemma db_Claim_fails:
  assumes "db_Claim c e w = (a, w')" "\<forall>out. a \<noteq> Done out"
  shows "dbase w' = dbase w" "\<exists>err. a = Fail_with err"
  using assms by (auto simp: db_Claim_def bind_act_def act_simps db_now_def stmt_def
      split: if_splits option.splits sum.splits prod.splits)

lemma db_Claim_answers:
  assumes run: "db_Claim c e w = (Fail_with err, w')" and fit: "fits e (cq_scope c)"
    and sh: "shown e (dbase w) (cq_scope c) = Some r" and h: "varchar 64 (cq_hash c)"
  shows "\<exists>n msg. failure e n = Some msg"
proof (rule ccontr)
  assume "\<not> ?thesis"
  then have calm: "failure e n = None" for n by (cases "failure e n") auto
  from sh obtain k x where k: "scope_key e (cs_key (cq_scope c)) = Some k"
    "x \<in> set (idem_keys (dbase w))" "has_scope k (cq_scope c) x" by (rule shown_row)
  then have "list_ex (has_scope k (cq_scope c)) (idem_keys (dbase w))" by (auto simp: list_ex_iff)
  then have "insert_claim c now e (dbase w) = Inr (None, dbase w)" for now
    using k(1) fit h by (auto simp: insert_claim_def fits_def)
  then show False using run calm
    by (auto simp: db_Claim_def bind_act_def act_simps db_now_def stmt_def
        split: if_splits option.splits)
qed

interpretation claims: claim_contract dbClaimStore idem_ok shown same_scope fits
proof
  fix w e c i w'
  assume "idem_ok (dbase w)" "fits e (cq_scope c)" "Claim dbClaimStore c e w = (Done (Some i), w')"
  then show "shown e (dbase w) (cq_scope c) = None \<and> idem_ok (dbase w') \<and> same_scope e (cq_scope c) (cq_scope c) \<and>
    (\<forall>s. shown e (dbase w') s = (if same_scope e s (cq_scope c) then Some (fresh_record e i c) else shown e (dbase w) s))"
    using db_Claim_new by (simp add: dbClaimStore_def)
next
  fix w e c w'
  assume "idem_ok (dbase w)" "fits e (cq_scope c)" "Claim dbClaimStore c e w = (Done None, w')"
  then show "shown e (dbase w) (cq_scope c) \<noteq> None \<and> dbase w' = dbase w"
    using db_Claim_old by (simp add: dbClaimStore_def)
next
  fix s e w got w'
  assume "Get dbClaimStore s e w = (Done got, w')"
  then have "select_claim s e (dbase w) = Inr (got, dbase w')"
    by (auto simp: dbClaimStore_def db_Get_def dest: stmt_DoneD)
  then show "got = shown e (dbase w) s \<and> dbase w' = dbase w"
    by (auto simp: select_claim_def shown_def split: option.splits if_splits)
next
  fix w e s r and res :: claimResult and u w'
  assume a: "idem_ok (dbase w)" "shown e (dbase w) s = Some r" "cl_failed res = False"
    "Finalize dbClaimStore (cr_id r) res e w = (Done u, w')"
  then obtain out where "update_claim (cr_id r) (\<lambda>_. True) (completed_row e res) e w = (Done out, w')"
    by (auto simp: dbClaimStore_def db_Finalize_def stmt_def act_simps
        split: if_splits option.splits elim!: bind_act_DoneD)
  with a(1,2) obtain x where "r = record_of x" "idem_ok (dbase w')"
    "shown e (dbase w') s = Some (record_of (completed_row e res x))"
    by (rule update_claim_shown) (simp_all add: completed_row_def row_scope_def)
  then show "idem_ok (dbase w') \<and> shown e (dbase w') s = Some (completed_record e res r)"
    by (simp add: record_of_def completed_row_def completed_record_def)
next
  fix w e s r and res :: claimResult and u w'
  assume a: "idem_ok (dbase w)" "shown e (dbase w) s = Some r" "cl_failed res = True"
    "Finalize dbClaimStore (cr_id r) res e w = (Done u, w')"
  then obtain out where "update_claim (cr_id r) (\<lambda>_. True) (\<lambda>r. r\<lparr>ik_status := ''failed''\<rparr>) e w = (Done out, w')"
    by (auto simp: dbClaimStore_def db_Finalize_def act_simps elim!: bind_act_DoneD)
  with a(1,2) obtain x where "r = record_of x" "idem_ok (dbase w')"
    "shown e (dbase w') s = Some (record_of (x\<lparr>ik_status := ''failed''\<rparr>))"
    by (rule update_claim_shown) (simp_all add: row_scope_def)
  then show "idem_ok (dbase w') \<and> shown e (dbase w') s = Some (r\<lparr>cr_status := ''failed''\<rparr>)"
    by (simp add: record_of_def)
next
  fix w e s r c out w'
  assume a: "idem_ok (dbase w)" "shown e (dbase w) s = Some r"
    "ReclaimFailed dbClaimStore (cr_id r) c e w = (Done out, w')"
  then have "update_claim (cr_id r) (\<lambda>r. ik_status r = ''failed'' \<and> ik_hash r = cq_hash c)
      (\<lambda>r. r\<lparr>ik_status := ''processing'', ik_expires := stored_time e (cq_expires c)\<rparr>) e w = (Done out, w')"
    by (simp add: dbClaimStore_def db_ReclaimFailed_def)
  with a(1,2) obtain x where "r = record_of x" "idem_ok (dbase w')"
    "ik_status x = ''failed'' \<and> ik_hash x = cq_hash c \<Longrightarrow> out = Some (cr_id r) \<and> shown e (dbase w') s =
       Some (record_of (x\<lparr>ik_status := ''processing'', ik_expires := stored_time e (cq_expires c)\<rparr>))"
    "\<not> (ik_status x = ''failed'' \<and> ik_hash x = cq_hash c) \<Longrightarrow> out = None \<and> shown e (dbase w') s = Some r"
    by (rule update_claim_shown) (simp_all add: row_scope_def)
  then show "idem_ok (dbase w') \<and>
    (if cr_status r = ''failed'' \<and> cr_hash r = cq_hash c
     then out = Some (cr_id r) \<and> shown e (dbase w') s =
       Some (r\<lparr>cr_status := ''processing'', cr_expires := stored_time e (cq_expires c)\<rparr>)
     else out = None \<and> shown e (dbase w') s = Some r)"
    by (auto simp: record_of_def)
next
  fix w e s r c out w'
  assume a: "idem_ok (dbase w)" "shown e (dbase w) s = Some r"
    "ReclaimExpired dbClaimStore (cr_id r) c e w = (Done out, w')" "tx_now w = None"
  let ?f = "\<lambda>r. r\<lparr>ik_status := ''processing'', ik_hash := cq_hash c, ik_expires := stored_time e (cq_expires c),
                ik_resp_status := None, ik_resp_body := None, ik_resp_ctype := None\<rparr>"
  from a(3) obtain now w1 where
    n: "(if driver_of e = DriverSQLite then time_now else db_now) e w = (Done now, w1)"
    and u: "update_claim (cr_id r) (\<lambda>r. ik_expires r \<le> now) ?f e w1 = (Done out, w')"
    by (auto simp: dbClaimStore_def db_ReclaimExpired_def elim!: bind_act_DoneD)
  note nw = now_outside_tx [OF n a(4)]
  with a(1,2) have a1: "idem_ok (dbase w1)" "shown e (dbase w1) s = Some r" by simp_all
  obtain x where "r = record_of x" "idem_ok (dbase w')"
    "ik_expires x \<le> now \<Longrightarrow> out = Some (cr_id r) \<and> shown e (dbase w') s = Some (record_of (?f x))"
    "\<not> ik_expires x \<le> now \<Longrightarrow> out = None \<and> shown e (dbase w') s = Some r"
    using a1 u by (rule update_claim_shown) (simp_all add: row_scope_def)
  then show "idem_ok (dbase w') \<and>
    (if cr_expires r \<le> stored_time e (clock e (ticks w))
     then out = Some (cr_id r) \<and> shown e (dbase w') s = Some (fresh_record e (cr_id r) c)
     else out = None \<and> shown e (dbase w') s = Some r)"
    using nw by (simp add: record_of_def fresh_record_def)
next
  fix c e w a w'
  assume "Claim dbClaimStore c e w = (a, w')"
  then show "ticks w' \<le> ticks w + 2" using db_Claim_ticks by (simp add: dbClaimStore_def)
next
  fix s e w b w'
  assume "Get dbClaimStore s e w = (b, w')"
  then show "ticks w' \<le> ticks w + 1"
    by (auto simp: dbClaimStore_def db_Get_def stmt_def split: option.splits sum.splits prod.splits)
next
  fix c e w a w'
  assume "Claim dbClaimStore c e w = (a, w')"
  then show "tx_now w' = tx_now w"
    by (auto simp: dbClaimStore_def db_Claim_def bind_act_def act_simps db_now_def stmt_def
        split: if_splits option.splits sum.splits prod.splits)
next
  fix s e w b w'
  assume "Get dbClaimStore s e w = (b, w')"
  then show "tx_now w' = tx_now w"
    by (auto simp: dbClaimStore_def db_Get_def stmt_def split: option.splits sum.splits prod.splits)
next
  fix c e w a w'
  assume "Claim dbClaimStore c e w = (a, w')" "\<forall>out. a \<noteq> Done out"
  then show "dbase w' = dbase w \<and> (\<exists>err. a = Fail_with err)"
    using db_Claim_fails by (simp add: dbClaimStore_def)
next
  fix s e w b w'
  assume "Get dbClaimStore s e w = (b, w')" "\<forall>got. b \<noteq> Done got"
  then show "dbase w' = dbase w \<and> (\<exists>err. b = Fail_with err)"
    by (auto simp: dbClaimStore_def db_Get_def stmt_def split: option.splits sum.splits prod.splits)
next
  fix c e w err w' r
  assume "Claim dbClaimStore c e w = (Fail_with err, w')" "fits e (cq_scope c)"
    "shown e (dbase w) (cq_scope c) = Some r" "varchar 64 (cq_hash c)"
  then show "\<exists>n msg. failure e n = Some msg" using db_Claim_answers by (simp add: dbClaimStore_def)
next
  fix s e w err w' r
  assume "Get dbClaimStore s e w = (Fail_with err, w')" "fits e s" "shown e (dbase w) s = Some r"
  then show "\<exists>n msg. failure e n = Some msg"
    by (auto simp: dbClaimStore_def db_Get_def stmt_def select_claim_def shown_def fits_def
        scope_path_def pg_assign_def split: option.splits if_splits)
next
  fix e :: env and i c w
  assume "\<And>n. failure e n = None"
  then show "\<exists>out w'. ReclaimFailed dbClaimStore i c e w = (Done out, w')"
    by (simp add: dbClaimStore_def db_ReclaimFailed_def update_claim_def stmt_def)
next
  fix e :: env and i c w
  assume "\<And>n. failure e n = None"
  then show "\<exists>out w'. ReclaimExpired dbClaimStore i c e w = (Done out, w')"
    using db_now_eval [of e w]
    by (auto simp: dbClaimStore_def db_ReclaimExpired_def update_claim_def stmt_def bind_act_def act_simps)
next
  fix e and res :: claimResult and i w
  assume "storable e res" "\<And>n. failure e n = None"
  then show "\<exists>w'. Finalize dbClaimStore i res e w = (Done (), w')"
    by (cases "driver_of e") (auto simp: dbClaimStore_def db_Finalize_def storable_def stmt_def update_claim_def bind_act_def act_simps)
qed

end
