(* ===== verification/Idempotency.thy ===== *)
theory Idempotency
  imports Idem_Store
begin

text \<open>
  The idempotency middleware (\<open>internal/platform/mid/idempotency.go\<close>): the recorder around the
  writer, the resolution of a key that is already taken, and the handler that ties them to a
  claim store. Its properties are proved inside the locale \<open>claim_contract\<close> and reach the
  program's store through the interpretation of \<open>Idem_Store\<close>.
\<close>

section \<open>The recorder\<close>

record capture =
  cap_status :: nat
  cap_body :: bytes
  cap_forwarded :: "writer_op list"

definition new_capture :: capture where
  "new_capture = \<lparr>cap_status = 0, cap_body = [], cap_forwarded = []\<rparr>"

text \<open>\<open>captureResponseWriter\<close>: \<open>Header()\<close> is that of the wrapped writer; a second \<open>WriteHeader\<close>
  is swallowed; a body write is recorded and passed on.\<close>

fun capture_call :: "writer_op \<Rightarrow> capture \<Rightarrow> capture" where
  "capture_call (SetHeader k v) c = c\<lparr>cap_forwarded := cap_forwarded c @ [SetHeader k v]\<rparr>"
| "capture_call (WriteHeader code) c =
     (if cap_status c \<noteq> 0 then c
      else c\<lparr>cap_status := code, cap_forwarded := cap_forwarded c @ [WriteHeader code]\<rparr>)"
| "capture_call (WriteBody b) c =
     c\<lparr>cap_status := (if cap_status c = 0 then 200 else cap_status c), cap_body := cap_body c @ b,
       cap_forwarded := cap_forwarded c @ [WriteBody b]\<rparr>"

interpretation capture_writer: response_writer capture_call cap_status cap_body
  by unfold_locales auto

definition captured :: "writer_op list \<Rightarrow> capture" where
  "captured xs = fold capture_call xs new_capture"

section \<open>The middleware\<close>

definition fail_ops :: "nat \<Rightarrow> string \<Rightarrow> string \<Rightarrow> writer_op list act" where
  "fail_ops status code message e w = (case Fail status code message e w of (xs, w') \<Rightarrow> (Done xs, w'))"

definition concurrent_ops :: "writer_op list act" where
  "concurrent_ops =
     fail_ops 409 ''CONCURRENT_REQUEST'' ''A request with this idempotency key is currently processing''"

definition fallbackContentType :: string where
  "fallbackContentType = ''application/json; charset=utf-8''"

datatype resolveState = ResolveHandled "writer_op list" | ResolveVanished | ResolveReclaimed int

definition reclaimed :: "int option \<Rightarrow> resolveState act" where
  "reclaimed out =
     (case out of
        None \<Rightarrow> bind_act concurrent_ops (\<lambda>xs. ret (ResolveHandled xs))
      | Some i \<Rightarrow> ret (ResolveReclaimed i))"

text \<open>The answer that replays a stored response.\<close>

definition replay_ops :: "claimRecord \<Rightarrow> writer_op list" where
  "replay_ops rec =
     [SetHeader ''Content-Type'' (if cr_resp_ctype rec \<noteq> [] then cr_resp_ctype rec else fallbackContentType),
      SetHeader ''Idempotency-Replayed'' ''true'', WriteHeader (cr_resp_status rec), WriteBody (cr_resp_body rec)]"

definition resolveRecord :: "claim_store \<Rightarrow> claimRequest \<Rightarrow> claimRecord \<Rightarrow> time \<Rightarrow> resolveState act" where
  "resolveRecord store c rec now =
     (if cr_expires rec \<le> now then bind_act (ReclaimExpired store (cr_id rec) c) reclaimed
      else if cr_hash rec \<noteq> cq_hash c then
        bind_act (fail_ops 422 ''IDEMPOTENCY_KEY_MISMATCH''
          ''Idempotency key was previously used with a different payload'') (\<lambda>xs. ret (ResolveHandled xs))
      else if cr_status rec = ''processing'' then bind_act concurrent_ops (\<lambda>xs. ret (ResolveHandled xs))
      else if cr_status rec = ''completed'' \<and> cr_resp_status rec \<noteq> 0 then ret (ResolveHandled (replay_ops rec))
      else if cr_status rec \<noteq> ''failed'' then
        bind_act (fail_ops 409 ''IDEMPOTENCY_CONFLICT'' ''Conflict acquiring idempotency key lock'')
          (\<lambda>xs. ret (ResolveHandled xs))
      else bind_act (ReclaimFailed store (cr_id rec) c) reclaimed)"

definition resolveConflict :: "claim_store \<Rightarrow> claimRequest \<Rightarrow> resolveState act" where
  "resolveConflict store c =
     bind_act (Get store (cq_scope c)) (\<lambda>got.
       case got of
         None \<Rightarrow> ret ResolveVanished
       | Some rec \<Rightarrow> bind_act time_now (resolveRecord store c rec))"

text \<open>The key is ours, under the id on the right, or the request is answered, on the left.\<close>

definition acquire :: "claim_store \<Rightarrow> claimRequest \<Rightarrow> (writer_op list + int) act" where
  "acquire store c =
     bind_act (Claim store c) (\<lambda>first.
       case first of
         Some i \<Rightarrow> ret (Inr i)
       | None \<Rightarrow>
           bind_act (resolveConflict store c) (\<lambda>state.
             case state of
               ResolveHandled xs \<Rightarrow> ret (Inl xs)
             | ResolveReclaimed i \<Rightarrow> ret (Inr i)
             | ResolveVanished \<Rightarrow>
                 bind_act (Claim store c) (\<lambda>second.
                   case second of
                     Some i \<Rightarrow> ret (Inr i)
                   | None \<Rightarrow> bind_act concurrent_ops (\<lambda>xs. ret (Inl xs)))))"

text \<open>The handler under the recorder, then \<open>Finalize\<close>, whose error is only logged; a panic
  finalises the key as failed and goes on.\<close>

definition finalize_logged :: "claim_store \<Rightarrow> int \<Rightarrow> claimResult \<Rightarrow> env \<Rightarrow> world \<Rightarrow> world" where
  "finalize_logged store i res e w = snd (Finalize store i res e w)"

definition result_of :: "headers \<Rightarrow> writer_op list \<Rightarrow> time \<Rightarrow> claimResult" where
  "result_of h xs expiresAt =
     (let cap = captured xs; status = (if cap_status cap = 0 then 200 else cap_status cap)
      in \<lparr>cl_failed = (500 \<le> status), cl_status = status, cl_body = cap_body cap,
          cl_ctype = headers_after h xs ''Content-Type'', cl_expires = expiresAt\<rparr>)"

definition run_captured :: "claim_store \<Rightarrow> int \<Rightarrow> time \<Rightarrow> handler \<Rightarrow> handler" where
  "run_captured store i expiresAt nxt e r h w =
     (case nxt e r h w of
        (rep, w1) \<Rightarrow>
          (case panicked rep of
             Some p \<Rightarrow>
               (\<lparr>ops = cap_forwarded (captured (ops rep)), panicked = Some p\<rparr>,
                finalize_logged store i
                  \<lparr>cl_failed = True, cl_status = 0, cl_body = [], cl_ctype = [], cl_expires = expiresAt\<rparr> e w1)
           | None \<Rightarrow>
               (\<lparr>ops = cap_forwarded (captured (ops rep)), panicked = None\<rparr>,
                finalize_logged store i (result_of h (ops rep) expiresAt) e w1)))"

definition hashed_request :: "request \<Rightarrow> bytes \<Rightarrow> bytes" where
  "hashed_request r body = rq_method r @ [byte 10] @ rq_uri r @ [byte 10] @ body"

definition claim_of :: "env \<Rightarrow> request \<Rightarrow> bytes \<Rightarrow> time \<Rightarrow> claimRequest" where
  "claim_of e r body expiresAt =
     \<lparr>cq_scope = \<lparr>cs_key = rq_header r ''Idempotency-Key'', cs_user = GetUserID (rq_ctx r),
                  cs_path = rq_path r, cs_method = rq_method r\<rparr>,
      cq_hash = sha256_hex e (hashed_request r body), cq_expires = expiresAt\<rparr>"

text \<open>The request with its body read into memory.\<close>

definition buffered :: "request \<Rightarrow> bytes \<Rightarrow> request" where
  "buffered r body = r\<lparr>rq_body := body, rq_limit := None, rq_broken := None\<rparr>"

definition ttl_or_default :: "duration \<Rightarrow> duration" where
  "ttl_or_default ttl = (if ttl \<le> 0 then 24 * hour else ttl)"

definition idempotency :: "claim_store \<Rightarrow> duration \<Rightarrow> middleware" where
  "idempotency store ttl nxt e r h w =
     (let key = rq_header r ''Idempotency-Key'' in
      if key = [] \<or> rq_method r \<notin> {''POST'', ''PATCH'', ''PUT''} then nxt e r h w
      else if uuid_parse e key = None then
        answered_with (Fail 400 ''INVALID_IDEMPOTENCY_KEY'' ''Idempotency-Key must be a valid UUID'' e w)
      else if GetUserID (rq_ctx r) = 0 then
        answered_with (Fail 401 ''UNAUTHORIZED'' ''Authentication required for idempotent requests'' e w)
      else (case read_all r of
        Inl err \<Rightarrow>
          if errors_as_max_bytes err
          then answered_with (Fail 413 ''PAYLOAD_TOO_LARGE'' ''Request body exceeds the allowed size'' e w)
          else answered_with (Fail 400 ''INVALID_REQUEST_BODY'' ''Failed to read request body'' e w)
      | Inr body \<Rightarrow>
          let expiresAt = clock e (ticks w) + ttl_or_default ttl in
          (case acquire store (claim_of e r body expiresAt) e (tick w) of
             (Fail_with err, w1) \<Rightarrow>
               answered_with (Fail 500 ''INTERNAL_ERROR'' ''An internal server error occurred'' e w1)
           | (Panics p, w1) \<Rightarrow> (\<lparr>ops = [], panicked = Some p\<rparr>, w1)
           | (Done (Inl xs), w1) \<Rightarrow> (returns xs, w1)
           | (Done (Inr i), w1) \<Rightarrow> run_captured store i expiresAt nxt e (buffered r body) h w1)))"

definition Idempotency :: "duration \<Rightarrow> middleware" where
  "Idempotency ttl = idempotency dbClaimStore ttl"

section \<open>The recorder is transparent\<close>

lemma captured_snoc: "captured (xs @ [x]) = capture_call x (captured xs)"
  by (simp add: captured_def)

lemma captured_conn:
  fixes xs :: "writer_op list" and c0 :: conn
  assumes "cn_status c0 = 0" "cn_body c0 = []"
  shows "fold conn_call (cap_forwarded (captured xs)) c0 = fold conn_call xs c0 \<and>
    cap_status (captured xs) = cn_status (fold conn_call xs c0) \<and>
    cap_body (captured xs) = cn_body (fold conn_call xs c0)"
proof (induction xs rule: rev_induct)
  case Nil
  then show ?case using assms by (simp add: captured_def new_capture_def)
next
  case (snoc x xs)
  then show ?case by (cases x) (simp_all add: captured_snoc)
qed

text \<open>The client gets what the handler wrote, and the recorder has its status and body.\<close>

lemma send_captured: "send h (cap_forwarded (captured xs)) = send h xs"
  using captured_conn [of "open_conn\<lparr>cn_header := h\<rparr>" xs] by (simp add: send_def open_conn_def)

lemma result_of_send:
  "cl_status (result_of h xs t) = rs_status (send h xs)" "cl_body (result_of h xs t) = rs_body (send h xs)"
proof -
  let ?c0 = "open_conn\<lparr>cn_header := h\<rparr>"
  have c: "cap_status (captured xs) = cn_status (fold conn_call xs ?c0)"
    "cap_body (captured xs) = cn_body (fold conn_call xs ?c0)"
    using captured_conn [of ?c0 xs] by (simp_all add: open_conn_def)
  have z: "cn_status (fold conn_call xs ?c0) = 0 \<Longrightarrow> cn_body (fold conn_call xs ?c0) = []"
  proof (induction xs rule: rev_induct)
    case (snoc x xs)
    then show ?case by (cases x) (auto split: if_splits)
  qed (simp add: open_conn_def)
  show "cl_status (result_of h xs t) = rs_status (send h xs)" "cl_body (result_of h xs t) = rs_body (send h xs)"
    using c z by (simp_all add: result_of_def send_def Let_def)
qed

lemma send_replay:
  assumes "cr_resp_status rec \<noteq> 0"
  shows "rs_status (send h (replay_ops rec)) = cr_resp_status rec"
    "rs_body (send h (replay_ops rec)) = cr_resp_body rec"
    "rs_headers (send h (replay_ops rec)) =
      h(''Content-Type'' := if cr_resp_ctype rec \<noteq> [] then cr_resp_ctype rec else fallbackContentType,
        ''Idempotency-Replayed'' := ''true'')"
  using assms by (simp_all add: send_def replay_ops_def open_conn_def)

lemma fail_ops_DoneD:
  "fail_ops st c m e w = (Done xs, w') \<Longrightarrow> st \<noteq> 0 \<Longrightarrow> rs_status (send h xs) = st \<and> dbase w' = dbase w"
  by (auto simp: fail_ops_def Fail_def split: prod.splits)

lemma fail_ops_eval: "\<exists>xs. fail_ops st c m e w = (Done xs, tick w)"
  by (simp add: fail_ops_def Fail_def)

section \<open>Requests that never reach the store\<close>

text \<open>Which requests the middleware guards.\<close>

definition guarded :: "env \<Rightarrow> request \<Rightarrow> bool" where
  "guarded e r \<longleftrightarrow> rq_header r ''Idempotency-Key'' \<noteq> [] \<and> rq_method r \<in> {''POST'', ''PATCH'', ''PUT''}"

definition admissible :: "env \<Rightarrow> request \<Rightarrow> bytes \<Rightarrow> bool" where
  "admissible e r body \<longleftrightarrow> guarded e r \<and> uuid_parse e (rq_header r ''Idempotency-Key'') \<noteq> None \<and>
     GetUserID (rq_ctx r) \<noteq> 0 \<and> read_all r = Inr body"

definition request_status :: "env \<Rightarrow> request \<Rightarrow> nat" where
  "request_status e r =
     (if uuid_parse e (rq_header r ''Idempotency-Key'') = None then 400
      else if GetUserID (rq_ctx r) = 0 then 401
      else (case read_all r of Inl err \<Rightarrow> if errors_as_max_bytes err then 413 else 400 | Inr _ \<Rightarrow> 0))"

lemma idempotency_bypass: "\<not> guarded e r \<Longrightarrow> idempotency store ttl nxt e r h w = nxt e r h w"
  by (auto simp: idempotency_def guarded_def Let_def)

lemma idempotency_rejects:
  assumes "guarded e r" "\<And>body. \<not> admissible e r body" "idempotency store ttl nxt e r h w = (rep, w')"
  shows "rs_status (send h (ops rep)) = request_status e r \<and> dbase w' = dbase w \<and> panicked rep = None"
proof -
  from assms(2) have ex: "uuid_parse e (rq_header r ''Idempotency-Key'') = None \<or> GetUserID (rq_ctx r) = 0 \<or>
      (\<exists>err. read_all r = Inl err)"
    using assms(1) by (cases "read_all r") (auto simp: admissible_def)
  show ?thesis
    using assms(1,3) ex
    by (auto simp: idempotency_def guarded_def request_status_def Let_def answered_with_Fail split: if_splits)
qed

lemma idempotency_admissible:
  assumes "admissible e r body"
  shows "idempotency store ttl nxt e r h w =
    (let expiresAt = clock e (ticks w) + ttl_or_default ttl in
     case acquire store (claim_of e r body expiresAt) e (tick w) of
       (Fail_with err, w1) \<Rightarrow>
         answered_with (Fail 500 ''INTERNAL_ERROR'' ''An internal server error occurred'' e w1)
     | (Panics p, w1) \<Rightarrow> (\<lparr>ops = [], panicked = Some p\<rparr>, w1)
     | (Done (Inl xs), w1) \<Rightarrow> (returns xs, w1)
     | (Done (Inr i), w1) \<Rightarrow> run_captured store i expiresAt nxt e (buffered r body) h w1)"
  using assms by (auto simp add: idempotency_def admissible_def guarded_def Let_def)

section \<open>Keys that are taken\<close>

context claim_contract begin

text \<open>\<open>Claim\<close> and \<open>Get\<close> on a scope that has a record: they find it, or the database failed.\<close>

lemma claim_taken:
  assumes "ok (dbase w)" "fit e (cq_scope c)" "view e (dbase w) (cq_scope c) = Some rec"
    "varchar 64 (cq_hash c)" "Claim store c e w = (a, w')"
  shows "dbase w' = dbase w \<and> ticks w' \<le> ticks w + 2 \<and>
    (a = Done None \<or> (\<exists>err n msg. a = Fail_with err \<and> failure e n = Some msg))"
proof (cases "\<exists>out. a = Done out")
  case True
  then obtain out where out: "a = Done out" by blast
  with assms claim_new [of w e c] have "out = None" by (cases out) auto
  with out assms claim_old claim_ticks show ?thesis by blast
next
  case False
  then obtain err where e: "a = Fail_with err" "dbase w' = dbase w" using claim_fails [OF assms(5)] by blast
  have "\<exists>n msg. failure e n = Some msg"
    using assms(5) unfolding e(1) by (rule claim_answers) (fact assms)+
  with e claim_ticks [OF assms(5)] show ?thesis by blast
qed

lemma get_taken:
  assumes "fit e s" "view e (dbase w) s = Some rec" "Get store s e w = (b, w')"
  shows "dbase w' = dbase w \<and> ticks w' \<le> ticks w + 1 \<and>
    (b = Done (Some rec) \<or> (\<exists>err n msg. b = Fail_with err \<and> failure e n = Some msg))"
proof (cases "\<exists>got. b = Done got")
  case True
  with assms get get_ticks show ?thesis by metis
next
  case False
  then obtain err where e: "b = Fail_with err" "dbase w' = dbase w" using get_fails [OF assms(3)] by blast
  have "\<exists>n msg. failure e n = Some msg"
    using assms(3) unfolding e(1) by (rule get_answers) (fact assms)+
  with e get_ticks [OF assms(3)] show ?thesis by blast
qed

end

text \<open>What the middleware answers for a record that has not expired and is not up for a rerun.\<close>

definition settled_ops :: "claimRecord \<Rightarrow> claimRequest \<Rightarrow> env \<Rightarrow> world \<Rightarrow> writer_op list" where
  "settled_ops rec c e w =
     (if cr_hash rec \<noteq> cq_hash c then
        fst (Fail 422 ''IDEMPOTENCY_KEY_MISMATCH''
           ''Idempotency key was previously used with a different payload'' e w)
      else if cr_status rec = ''processing'' then
        fst (Fail 409 ''CONCURRENT_REQUEST'' ''A request with this idempotency key is currently processing'' e w)
      else replay_ops rec)"

text \<open>A retry: the same key, user, path and method, and the same bytes under the hash.\<close>

definition retry_of :: "env \<Rightarrow> request \<Rightarrow> bytes \<Rightarrow> request \<Rightarrow> bytes \<Rightarrow> bool" where
  "retry_of e r body r2 body2 \<longleftrightarrow>
     admissible e r2 body2 \<and> cq_scope (claim_of e r2 body2 0) = cq_scope (claim_of e r body 0) \<and>
     hashed_request r2 body2 = hashed_request r body"

text \<open>The client gets the status and the body the handler wrote first, under its content type.\<close>

definition replays :: "headers \<Rightarrow> writer_op list \<Rightarrow> headers \<Rightarrow> writer_op list \<Rightarrow> bool" where
  "replays h xs h2 xs2 \<longleftrightarrow>
     rs_status (send h2 xs2) = rs_status (send h xs) \<and> rs_body (send h2 xs2) = rs_body (send h xs) \<and>
     rs_headers (send h2 xs2) =
       h2(''Content-Type'' := (let ct = headers_after h xs ''Content-Type'' in if ct \<noteq> [] then ct else fallbackContentType),
          ''Idempotency-Replayed'' := ''true'')"

lemma send_status_nonzero: "rs_status (send h xs) \<noteq> 0"
  by (simp add: send_def Let_def)

text \<open>Not expired at any reading of the clock in the next \<open>k\<close> ticks.\<close>

definition unexpired :: "nat \<Rightarrow> env \<Rightarrow> world \<Rightarrow> claimRecord \<Rightarrow> bool" where
  "unexpired k e w rec \<longleftrightarrow> (\<forall>n \<le> ticks w + k. clock e n < cr_expires rec)"

text \<open>A key whose request failed, and one that has expired, is given out again.\<close>

definition rerun :: "env \<Rightarrow> world \<Rightarrow> claimRequest \<Rightarrow> claimRecord \<Rightarrow> bool" where
  "rerun e w c rec \<longleftrightarrow>
     (\<forall>n \<le> ticks w + 4. cr_expires rec \<le> stored_time e (clock e n)) \<or>
     unexpired 3 e w rec \<and> cr_status rec = ''failed'' \<and> cr_hash rec = cq_hash c"

text \<open>The record of a request that holds its key.\<close>

definition held :: "env \<Rightarrow> claimRequest \<Rightarrow> int \<Rightarrow> claimRecord \<Rightarrow> bool" where
  "held e c i rec \<longleftrightarrow> cr_id rec = i \<and> cr_status rec = ''processing'' \<and>
     cr_hash rec = cq_hash c \<and> cr_expires rec = stored_time e (cq_expires c)"

lemma held_fresh: "held e c i (fresh_record e i c)"
  by (simp add: held_def fresh_record_def)

definition settled :: "claimRecord \<Rightarrow> claimRequest \<Rightarrow> bool" where
  "settled rec c \<longleftrightarrow> cr_hash rec \<noteq> cq_hash c \<or> cr_status rec = ''processing'' \<or>
     cr_status rec = ''completed'' \<and> cr_resp_status rec \<noteq> 0"

lemma resolveRecord_settled:
  assumes "now < cr_expires rec" "settled rec c"
  shows "\<exists>w'. resolveRecord store c rec now e w = (Done (ResolveHandled (settled_ops rec c e w)), w') \<and>
    dbase w' = dbase w"
  using assms
  by (auto simp: resolveRecord_def settled_def settled_ops_def bind_act_def act_simps concurrent_ops_def
      fail_ops_def Fail_def)

context claim_contract begin

lemma acquire_settled:
  assumes ok: "ok (dbase w)" and fit: "fit e (cq_scope c)" and h: "varchar 64 (cq_hash c)"
    and rec: "view e (dbase w) (cq_scope c) = Some rec" and state: "settled rec c"
    and run: "acquire store c e w = (res, w')"
    and time: "unexpired 3 e w rec"
  shows "dbase w' = dbase w \<and>
    ((\<exists>err n msg. res = Fail_with err \<and> failure e n = Some msg) \<or>
     (\<exists>w1. res = Done (Inl (settled_ops rec c e w1))))"
proof -
  obtain a w1 where cl: "Claim store c e w = (a, w1)" by fastforce
  note 1 = claim_taken [OF ok fit rec h cl]
  show ?thesis
  proof (cases "a = Done None")
    case False
    with 1 obtain err n msg where f: "a = Fail_with err" "failure e n = Some msg" by blast
    with cl run have "res = Fail_with err" "w' = w1" by (simp_all add: acquire_def bind_act_def)
    with 1 f show ?thesis by blast
  next
    case True
    obtain b w2 where gt: "Get store (cq_scope c) e w1 = (b, w2)" by fastforce
    have "view e (dbase w1) (cq_scope c) = Some rec" using rec 1 by simp
    note 2 = get_taken [OF fit this gt]
    show ?thesis
    proof (cases "b = Done (Some rec)")
      case False
      with 2 obtain err n msg where f: "b = Fail_with err" "failure e n = Some msg" by blast
      with cl gt True run have "res = Fail_with err" "w' = w2"
        by (simp_all add: acquire_def resolveConflict_def bind_act_def)
      with 1 2 f show ?thesis by auto
    next
      case got: True
      obtain x w3 where rr: "resolveRecord store c rec (clock e (ticks w2)) e (tick w2) = (x, w3)" by fastforce
      have "clock e (ticks w2) < cr_expires rec" using time 1 2 by (simp add: unexpired_def)
      from resolveRecord_settled [OF this state, of store e "tick w2"] rr have
        "x = Done (ResolveHandled (settled_ops rec c e (tick w2))) \<and> dbase w3 = dbase w2" by auto
      then show ?thesis
        using cl gt True got rr run 1 2
        by (auto simp: acquire_def resolveConflict_def bind_act_def act_simps)
    qed
  qed
qed

text \<open>A request on a settled key: the handler has no part in the answer.\<close>

lemma idempotency_settled:
  assumes adm: "admissible e r body" and ok: "ok (dbase w)"
    and fit: "fit e (cq_scope (claim_of e r body t))" and h: "varchar 64 (cq_hash (claim_of e r body t))"
    and rec: "view e (dbase w) (cq_scope (claim_of e r body t)) = Some rec"
    and state: "settled rec (claim_of e r body t)"
    and run: "idempotency store ttl nxt e r h0 w = (rep, w')"
    and time: "unexpired 4 e w rec"
  shows "dbase w' = dbase w \<and> panicked rep = None \<and>
    ((\<exists>w1. ops rep = settled_ops rec (claim_of e r body t) e w1) \<or>
     rs_status (send h0 (ops rep)) = 500 \<and> (\<exists>n msg. failure e n = Some msg))"
proof -
  define c where "c = claim_of e r body (clock e (ticks w) + ttl_or_default ttl)"
  have c: "cq_scope c = cq_scope (claim_of e r body t)" "cq_hash c = cq_hash (claim_of e r body t)"
    by (simp_all add: c_def claim_of_def)
  then have same: "settled rec c = settled rec (claim_of e r body t)"
    "settled_ops rec c = settled_ops rec (claim_of e r body t)"
    by (simp_all add: settled_def settled_ops_def fun_eq_iff)
  obtain res w1 where acq: "acquire store c e (tick w) = (res, w1)" by fastforce
  have out: "dbase w1 = dbase w \<and> ((\<exists>err n msg. res = Fail_with err \<and> failure e n = Some msg) \<or>
     (\<exists>w2. res = Done (Inl (settled_ops rec c e w2))))"
    using acquire_settled [OF _ _ _ _ _ acq, of rec] ok fit h rec state same(1) c time
    by (simp add: unexpired_def)
  have "idempotency store ttl nxt e r h0 w =
    (case res of Fail_with err \<Rightarrow>
         answered_with (Fail 500 ''INTERNAL_ERROR'' ''An internal server error occurred'' e w1)
     | Done (Inl xs) \<Rightarrow> (returns xs, w1) | _ \<Rightarrow> (rep, w'))"
    using acq out unfolding idempotency_admissible [OF adm] Let_def c_def [symmetric] by auto
  with run have eq: "(case res of Fail_with err \<Rightarrow>
         answered_with (Fail 500 ''INTERNAL_ERROR'' ''An internal server error occurred'' e w1)
     | Done (Inl xs) \<Rightarrow> (returns xs, w1) | _ \<Rightarrow> (rep, w')) = (rep, w')" by simp
  from out show ?thesis
  proof (elim conjE disjE exE)
    fix err n msg assume d: "dbase w1 = dbase w" "res = Fail_with err" "failure e n = Some msg"
    with eq answered_with_Fail [of 500 _ _ e w1 rep w' h0] show ?thesis by auto
  next
    fix w2 assume d: "dbase w1 = dbase w" "res = Done (Inl (settled_ops rec c e w2))"
    with eq have "rep = returns (settled_ops rec c e w2)" "w' = w1" by simp_all
    with d show ?thesis unfolding same by (auto simp: returns_def)
  qed
qed

text \<open>A request that gets the key, in whatever way, holds a fresh processing record.\<close>

lemma reclaimed_DoneD: "reclaimed out e w = (Done (ResolveReclaimed i), w') \<Longrightarrow> out = Some i \<and> w' = w"
  by (auto simp: reclaimed_def bind_act_def act_simps concurrent_ops_def fail_ops_def Fail_def split: option.splits)

lemma claim_held:
  assumes "ok (dbase w)" "fit e (cq_scope c)" "Claim store c e w = (Done (Some i), w')"
  shows "ok (dbase w') \<and> (\<exists>rec. view e (dbase w') (cq_scope c) = Some rec \<and> held e c i rec)"
proof -
  from claim_new [OF assms] have
    "ok (dbase w')" "view e (dbase w') (cq_scope c) = Some (fresh_record e i c)" by simp_all
  then show ?thesis by (simp add: held_fresh)
qed

lemma resolve_held:
  assumes "ok (dbase w)" "view e (dbase w) (cq_scope c) = Some rec" "tx_now w = None"
    "resolveRecord store c rec now e w = (Done (ResolveReclaimed i), w')"
  shows "ok (dbase w') \<and> (\<exists>rec. view e (dbase w') (cq_scope c) = Some rec \<and> held e c i rec)"
proof -
  from assms(4) consider
      out where "ReclaimExpired store (cr_id rec) c e w = (Done out, w')" "out = Some i"
    | out where "ReclaimFailed store (cr_id rec) c e w = (Done out, w')" "out = Some i"
    unfolding resolveRecord_def concurrent_ops_def
    by (auto simp: act_simps fail_ops_def Fail_def dest!: reclaimed_DoneD elim!: bind_act_DoneD split: if_splits)
  then show ?thesis
  proof cases
    case 1
    from reclaim_expired [OF assms(1,2) 1(1) assms(3)] 1(2) show ?thesis
      by (auto simp: held_fresh split: if_splits)
  next
    case 2
    from reclaim_failed [OF assms(1,2) 2(1)] 2(2) show ?thesis
      by (auto simp: held_def split: if_splits)
  qed
qed

lemma acquire_held:
  assumes ok: "ok (dbase w)" and fit: "fit e (cq_scope c)" and tx: "tx_now w = None"
    and run: "acquire store c e w = (Done (Inr i), w')"
  shows "ok (dbase w') \<and> (\<exists>rec. view e (dbase w') (cq_scope c) = Some rec \<and> held e c i rec)"
proof -
  from run obtain first w1 where cl: "Claim store c e w = (Done first, w1)"
    unfolding acquire_def by (rule bind_act_DoneD)
  show ?thesis
  proof (cases first)
    case (Some j)
    with run cl have "w' = w1" "j = i" by (simp_all add: acquire_def bind_act_def act_simps)
    with claim_held [OF ok fit] cl Some show ?thesis by simp
  next
    case None
    then have w1: "dbase w1 = dbase w" "tx_now w1 = None"
      using claim_old [OF ok fit] claim_tx [OF cl] cl tx by simp_all
    from run cl None obtain st w2 where rc: "resolveConflict store c e w1 = (Done st, w2)"
      by (auto simp: acquire_def bind_act_def split: result.splits prod.splits)
    from rc obtain got w3 where gt: "Get store (cq_scope c) e w1 = (Done got, w3)"
      unfolding resolveConflict_def by (rule bind_act_DoneD)
    from get [OF gt] get_tx [OF gt] w1 have w3: "got = view e (dbase w) (cq_scope c)" "dbase w3 = dbase w" "tx_now w3 = None"
      by simp_all
    show ?thesis
    proof (cases got)
      case Got: None
      with rc gt have "st = ResolveVanished" "w2 = w3"
        by (simp_all add: resolveConflict_def bind_act_def act_simps)
      with run cl None rc obtain second where "Claim store c e w3 = (Done second, w')" "second = Some i"
        by (auto simp: acquire_def bind_act_def act_simps concurrent_ops_def fail_ops_def Fail_def
            split: result.splits prod.splits option.splits)
      with claim_held [OF _ fit, of w3 i w'] ok w3 show ?thesis by simp
    next
      case Got: (Some rec)
      with rc gt have rr: "resolveRecord store c rec (clock e (ticks w3)) e (tick w3) = (Done st, w2)"
        by (simp add: resolveConflict_def bind_act_def act_simps)
      from run cl None rc have "st = ResolveReclaimed i \<and> w' = w2 \<or> st = ResolveVanished"
        by (auto simp: acquire_def bind_act_def act_simps split: resolveState.splits)
      moreover have "st \<noteq> ResolveVanished"
        using rr by (auto simp: resolveRecord_def reclaimed_def bind_act_def act_simps concurrent_ops_def
            fail_ops_def Fail_def split: if_splits result.splits prod.splits option.splits)
      ultimately show ?thesis
        using resolve_held [of "tick w3" e c rec] rr w3 ok Got by auto
    qed
  qed
qed

text \<open>The handler runs and its response is stored.\<close>

lemma run_captured_stored:
  assumes calm: "\<And>n. failure e n = None"
    and inner: "nxt e r' h0 w = (rep1, w1)" "panicked rep1 = None" "rs_status (send h0 (ops rep1)) < 500"
    and kept: "ok (dbase w1)" "view e (dbase w1) s = Some rec" "cr_id rec = i"
    and fitting: "storable e (result_of h0 (ops rep1) t)"
    and run: "run_captured store i t nxt e r' h0 w = (rep, w')"
  shows "send h0 (ops rep) = send h0 (ops rep1) \<and> panicked rep = None \<and> ok (dbase w') \<and>
    view e (dbase w') s = Some (completed_record e (result_of h0 (ops rep1) t) rec)"
proof -
  let ?res = "result_of h0 (ops rep1) t"
  have nf: "cl_failed ?res = False"
    using inner(3) result_of_send(1) [of h0 "ops rep1" t] by (simp add: result_of_def Let_def)
  obtain w2 where f: "Finalize store i ?res e w1 = (Done (), w2)"
    using finalize_answers [OF fitting calm] by blast
  from run inner(1,2) f have "rep = \<lparr>ops = cap_forwarded (captured (ops rep1)), panicked = None\<rparr>" "w' = w2"
    by (simp_all add: run_captured_def finalize_logged_def)
  with finalize_done [OF kept(1,2) nf] f kept(3) show ?thesis by (simp add: send_captured)
qed

text \<open>The retry of a request whose response was stored gets that response.\<close>

lemma retry_replays:
  assumes calm: "\<And>n. failure e n = None"
    and adm: "admissible e r body" and ok: "ok (dbase w)" and tx: "tx_now w = None"
    and c: "c = claim_of e r body (clock e (ticks w) + ttl_or_default ttl)"
    and fit: "fit e (cq_scope c)" and h: "varchar 64 (cq_hash c)"
    and acq: "acquire store c e (tick w) = (Done (Inr i), w0)"
    and inner: "nxt e (buffered r body) h0 w0 = (rep1, w1)" "panicked rep1 = None"
      "rs_status (send h0 (ops rep1)) < 500"
    and kept: "ok (dbase w0) \<longrightarrow> ok (dbase w1)" "view e (dbase w1) = view e (dbase w0)"
    and fitting: "storable e (result_of h0 (ops rep1) (cq_expires c))"
    and first: "idempotency store ttl nxt e r h0 w = (rep, w')"
    and retry: "retry_of e r body r2 body2"
    and later: "ok (dbase w2)" "view e (dbase w2) (cq_scope c) = view e (dbase w') (cq_scope c)"
    and time: "\<forall>n \<le> ticks w2 + 4. clock e n < stored_time e (cq_expires c)"
    and second: "idempotency store ttl2 nxt2 e r2 h2 w2 = (rep2, w2')"
  shows "send h0 (ops rep) = send h0 (ops rep1) \<and> dbase w2' = dbase w2 \<and> panicked rep2 = None \<and>
    replays h0 (ops rep1) h2 (ops rep2)"
proof -
  let ?res = "result_of h0 (ops rep1) (cq_expires c)"
  from acquire_held [OF _ fit _ acq] ok tx obtain rec where
    ok0: "ok (dbase w0)" and rec: "view e (dbase w0) (cq_scope c) = Some rec" "held e c i rec" by auto
  have "run_captured store i (cq_expires c) nxt e (buffered r body) h0 w0 = (rep, w')"
    using first acq unfolding idempotency_admissible [OF adm] Let_def c [symmetric]
    by (simp add: c claim_of_def)
  from run_captured_stored [OF calm inner _ _ _ fitting this] ok0 rec kept have
    sent: "send h0 (ops rep) = send h0 (ops rep1)"
    and stored: "view e (dbase w') (cq_scope c) = Some (completed_record e ?res rec)"
    by (auto simp: held_def)
  let ?rec = "completed_record e ?res rec" and ?c2 = "claim_of e r2 body2 (cq_expires c)"
  have c2: "cq_scope ?c2 = cq_scope c" "cq_hash ?c2 = cq_hash c" "admissible e r2 body2"
    using retry by (simp_all add: c claim_of_def retry_of_def)
  have st: "cr_status ?rec = ''completed''" "cr_resp_status ?rec = rs_status (send h0 (ops rep1))"
    "cr_resp_body ?rec = rs_body (send h0 (ops rep1))" "cr_hash ?rec = cq_hash c"
    "cr_expires ?rec = stored_time e (cq_expires c)"
    "cr_resp_ctype ?rec = headers_after h0 (ops rep1) ''Content-Type''"
    using rec(2) by (simp_all add: completed_record_def result_of_send held_def)
      (simp_all add: result_of_def Let_def)
  then have sett: "settled ?rec ?c2" "settled_ops ?rec ?c2 e x = replay_ops ?rec" for x
    using send_status_nonzero [of h0 "ops rep1"] c2(2) by (simp_all add: settled_def settled_ops_def)
  have unexp: "unexpired 4 e w2 ?rec" using time st(5) by (simp add: unexpired_def)
  have "dbase w2' = dbase w2 \<and> panicked rep2 = None \<and>
    ((\<exists>x. ops rep2 = settled_ops ?rec ?c2 e x) \<or>
     rs_status (send h2 (ops rep2)) = 500 \<and> (\<exists>n msg. failure e n = Some msg))"
    using c2 fit h later stored sett(1) unexp
    by (intro idempotency_settled [OF c2(3) later(1) _ _ _ sett(1) second unexp]) simp_all
  then have "dbase w2' = dbase w2" "panicked rep2 = None" "ops rep2 = replay_ops ?rec"
    using calm sett(2) by auto
  moreover have "cr_resp_status ?rec \<noteq> 0" unfolding st(2) by (rule send_status_nonzero)
  ultimately show ?thesis
    using sent send_replay [of ?rec h2] st by (simp add: replays_def)
qed

lemma acquire_rerun:
  assumes calm: "\<And>n. failure e n = None"
    and ok: "ok (dbase w)" and tx: "tx_now w = None" and fit: "fit e (cq_scope c)" and h: "varchar 64 (cq_hash c)"
    and rec: "view e (dbase w) (cq_scope c) = Some rec" and re: "rerun e w c rec"
  shows "\<exists>w'. acquire store c e w = (Done (Inr (cr_id rec)), w')"
proof -
  obtain a w1 where cl: "Claim store c e w = (a, w1)" by fastforce
  from claim_taken [OF ok fit rec h cl] calm claim_tx [OF cl] tx have
    1: "a = Done None" "dbase w1 = dbase w" "ticks w1 \<le> ticks w + 2" "tx_now w1 = None" by auto
  obtain b w2 where gt: "Get store (cq_scope c) e w1 = (b, w2)" by fastforce
  have "view e (dbase w1) (cq_scope c) = Some rec" using rec 1 by simp
  from get_taken [OF fit this gt] calm get_tx [OF gt] 1 have
    2: "b = Done (Some rec)" "dbase w2 = dbase w" "ticks w2 \<le> ticks w + 3" "tx_now w2 = None" by auto
  have ok2: "ok (dbase (tick w2))" "view e (dbase (tick w2)) (cq_scope c) = Some rec" using ok rec 2 by simp_all
  have "\<exists>w'. resolveRecord store c rec (clock e (ticks w2)) e (tick w2) = (Done (ResolveReclaimed (cr_id rec)), w')"
  proof (cases "cr_expires rec \<le> clock e (ticks w2)")
    case True
    obtain out w' where x: "ReclaimExpired store (cr_id rec) c e (tick w2) = (Done out, w')"
      using reclaim_answers(2) [OF calm] by blast
    have "\<forall>n \<le> ticks w + 4. cr_expires rec \<le> stored_time e (clock e n)"
      using re True 2(3) by (auto simp: rerun_def unexpired_def)
    then have "cr_expires rec \<le> stored_time e (clock e (ticks (tick w2)))" using 2(3) by simp
    with reclaim_expired [OF ok2 x] 2 have "out = Some (cr_id rec)" by simp
    with True x show ?thesis by (simp add: resolveRecord_def bind_act_def reclaimed_def act_simps)
  next
    case False
    then have "\<not> cr_expires rec \<le> stored_time e (clock e (ticks w2))"
      using stored_time_le [of e "clock e (ticks w2)"] by linarith
    moreover have "ticks w2 \<le> ticks w + 4" using 2(3) by simp
    ultimately have "\<not> (\<forall>n \<le> ticks w + 4. cr_expires rec \<le> stored_time e (clock e n))" by blast
    with re have f: "cr_status rec = ''failed''" "cr_hash rec = cq_hash c" by (simp_all add: rerun_def)
    obtain out w' where x: "ReclaimFailed store (cr_id rec) c e (tick w2) = (Done out, w')"
      using reclaim_answers(1) [OF calm] by blast
    with reclaim_failed [OF ok2 x] f have "out = Some (cr_id rec)" by simp
    with False f x show ?thesis by (simp add: resolveRecord_def bind_act_def reclaimed_def act_simps)
  qed
  with cl gt 1(1) 2(1) show ?thesis
    by (auto simp: acquire_def resolveConflict_def bind_act_def act_simps)
qed

end

section \<open>Concrete requests\<close>

definition sample_env :: env where
  "sample_env = (calm DriverSQLite)\<lparr>sha256_hex := (\<lambda>_. replicate 64 CHR ''a'')\<rparr>"

lemma sample_env_simps [simp]:
  "driver_of sample_env = DriverSQLite" "clock sample_env n = int n * second" "failure sample_env n = None"
  "new_uuid_at sample_env n = ''uuid-'' @ show_nat n" "uuid_parse sample_env s = Some s"
  "sha256_hex sample_env t = replicate 64 CHR ''a''" "to_lower sample_env s = ascii_lower s"
  by (simp_all add: sample_env_def)

definition sample_handler :: handler where
  "sample_handler e r h w = (returns (Created_reply (JStr (rq_body r))), w)"

definition sample_failing :: handler where
  "sample_failing e r h w = (\<lparr>ops = [], panicked = Some ''boom''\<rparr>, w)"

definition sample_claim :: claimRequest where
  "sample_claim = claim_of sample_env sample_request ''{}'' (clock sample_env 0 + ttl_or_default hour)"

text \<open>The row the first request of a key makes.\<close>

definition sample_row :: idem_row where
  "sample_row = \<lparr>ik_id = 1, ik_key = ''k-1'', ik_user = 1, ik_path = ''/tasks'',
      ik_method = ''POST'', ik_hash = replicate 64 CHR ''a'', ik_status = ''processing'', ik_resp_status = None,
      ik_resp_body = None, ik_resp_ctype = None, ik_expires = hour, ik_created = second\<rparr>"

definition sample_claimed :: world where
  "sample_claimed = \<lparr>dbase = sample_db\<lparr>idem_keys := [sample_row], seq_idem := 1\<rparr>, ticks = 3, tx_now = None, buckets = Map.empty\<rparr>"

lemma sample_admissible: "admissible sample_env sample_request ''{}''"
  by (simp add: admissible_def guarded_def sample_request_def background_def GetUserID_def read_all_def)

lemma sample_idem_ok: "idem_ok sample_db" "idem_ok (dbase sample_claimed)"
  by (simp_all add: idem_ok_def sample_claimed_def sample_row_def)

lemma sample_claim_simps:
  "cq_scope sample_claim = \<lparr>cs_key = ''k-1'', cs_user = 1, cs_path = ''/tasks'', cs_method = ''POST''\<rparr>"
  "cq_hash sample_claim = replicate 64 CHR ''a''" "cq_expires sample_claim = hour"
  by (simp_all add: sample_claim_def claim_of_def sample_request_def background_def GetUserID_def ttl_or_default_def)

lemma sample_acquire: "acquire dbClaimStore sample_claim sample_env (tick sample_world) = (Done (Inr 1), sample_claimed)"
  by (simp add: acquire_def dbClaimStore_def db_Claim_def bind_act_def act_simps stmt_def insert_claim_def
      sample_claim_simps scope_key_def scope_path_def user_exists_def stored_time_def Let_def tick_def
      sample_claimed_def sample_row_def sample_world_def start_world_def)

lemma sample_handler_run:
  "sample_handler e (buffered sample_request ''{}'') h w = (returns (Created_reply (JStr ''{}'')), w)"
  by (simp add: sample_handler_def buffered_def)

lemma retry_refl: "admissible e r body \<Longrightarrow> retry_of e r body r body"
  by (simp add: retry_of_def)

lemma sample_storable: "storable sample_env res"
  by (simp add: storable_def)

lemma sample_fits: "fits sample_env s" "varchar 64 (replicate 64 CHR ''a'')" "stored_time sample_env t = t"
proof -
  have "ascii (replicate 64 CHR ''a'')" by (simp add: ascii_def list_all_iff)
  moreover have "byte 0 \<noteq> CHR ''a''" by code_simp
  ultimately show "varchar 64 (replicate 64 CHR ''a'')"
    by (simp add: varchar_def pg_text_def valid_utf8_ascii runes_ascii)
qed (simp_all add: fits_def scope_path_def stored_time_def)

lemma sample_first:
  "Idempotency hour sample_handler sample_env sample_request no_headers sample_world =
    (returns (Created_reply (JStr ''{}'')),
     \<lparr>dbase = sample_db\<lparr>idem_keys := [completed_row sample_env (result_of no_headers (Created_reply (JStr ''{}'')) hour) sample_row],
        seq_idem := 1\<rparr>, ticks = 4, tx_now = None, buckets = Map.empty\<rparr>)"
proof -
  have cap: "captured (Created_reply (JStr ''{}'')) =
    \<lparr>cap_status = 201, cap_body = render (success_body (JStr ''{}'')) @ [byte 10], cap_forwarded = Created_reply (JStr ''{}'')\<rparr>"
    by (simp add: captured_def new_capture_def Created_reply_def JSON_reply_def)
  have "Idempotency hour sample_handler sample_env sample_request no_headers sample_world =
    run_captured dbClaimStore 1 hour sample_handler sample_env (buffered sample_request ''{}'') no_headers sample_claimed"
    using sample_acquire [unfolded sample_claim_def]
    by (simp add: Idempotency_def idempotency_admissible [OF sample_admissible] ttl_or_default_def)
  then show ?thesis
    by (simp add: run_captured_def sample_handler_def returns_def buffered_def finalize_logged_def dbClaimStore_def
        db_Finalize_def result_of_def update_claim_def bind_act_def stmt_def sample_claimed_def sample_row_def
        completed_row_def act_simps tick_def sample_request_def cap)
qed

section \<open>Properties\<close>

text \<open>
  C5 (retry_gets_first_response). A request that gets the key, whose handler answers with a status below 500 without
  touching the table of keys, is answered as the handler answered; while its record has not
  expired, any retry (same key, user, path and method, same bytes) is answered with that status, body
  and content type and the header \<open>Idempotency-Replayed\<close>, whatever handler is behind the
  middleware then, and changes no table. Nothing fails meanwhile.
\<close>

theorem retry_gets_first_response:
  assumes "\<forall>n. failure e n = None"
    and "admissible e r body" "idem_ok (dbase w)" "tx_now w = None"
    and "c = claim_of e r body (clock e (ticks w) + ttl_or_default ttl)"
    and "fits e (cq_scope c)" "varchar 64 (cq_hash c)"
    and "acquire dbClaimStore c e (tick w) = (Done (Inr i), w0)"
    and "nxt e (buffered r body) h0 w0 = (rep1, w1)" "panicked rep1 = None"
      "rs_status (send h0 (ops rep1)) < 500"
    and "idem_keys (dbase w1) = idem_keys (dbase w0)" "seq_idem (dbase w1) = seq_idem (dbase w0)"
    and "storable e (result_of h0 (ops rep1) (cq_expires c))"
    and "Idempotency ttl nxt e r h0 w = (rep, w')"
    and "retry_of e r body r2 body2"
    and "idem_ok (dbase w2)" "shown e (dbase w2) (cq_scope c) = shown e (dbase w') (cq_scope c)"
    and "\<forall>n \<le> ticks w2 + 4. clock e n < stored_time e (cq_expires c)"
    and "Idempotency ttl2 nxt2 e r2 h2 w2 = (rep2, w2')"
  shows "send h0 (ops rep) = send h0 (ops rep1) \<and> dbase w2' = dbase w2 \<and> panicked rep2 = None \<and>
    replays h0 (ops rep1) h2 (ops rep2)"
proof -
  have kept: "idem_ok (dbase w0) \<longrightarrow> idem_ok (dbase w1)" "shown e (dbase w1) = shown e (dbase w0)"
    using assms(12,13) by (simp_all add: idem_ok_def shown_def fun_eq_iff split: option.splits)
  show ?thesis
    by (rule claims.retry_replays [where nxt = nxt, OF _ assms(2-11) kept assms(14)
        assms(15) [unfolded Idempotency_def] assms(16-19) assms(20) [unfolded Idempotency_def]]) (simp add: assms(1))
qed

theorem retry_gets_first_response_witness:
  "replays no_headers (Created_reply (JStr ''{}'')) no_headers
     (ops (fst (Idempotency hour sample_failing sample_env sample_request no_headers
       (snd (Idempotency hour sample_handler sample_env sample_request no_headers sample_world)))))"
proof -
  let ?w = "snd (Idempotency hour sample_handler sample_env sample_request no_headers sample_world)"
  have c: "sample_claim = claim_of sample_env sample_request ''{}'' (clock sample_env (ticks sample_world) + ttl_or_default hour)"
    by (simp add: sample_claim_def)
  have st: "rs_status (send no_headers (Created_reply (JStr ''{}''))) < 500"
    by (simp add: Created_reply_def)
  have ok: "idem_ok (dbase ?w)" "ticks ?w = 4"
    by (simp_all add: sample_first idem_ok_def sample_row_def completed_row_def row_scope_def)
  obtain rep2 w2 where s: "Idempotency hour sample_failing sample_env sample_request no_headers ?w = (rep2, w2)"
    by fastforce
  have "replays no_headers (ops (returns (Created_reply (JStr ''{}'')))) no_headers (ops rep2)"
    by (rule retry_gets_first_response [of sample_env sample_request "''{}''" sample_world sample_claim hour 1 sample_claimed
        sample_handler no_headers "returns (Created_reply (JStr ''{}''))" sample_claimed _ ?w sample_request "''{}''" ?w
        hour sample_failing no_headers rep2 w2, THEN conjunct2, THEN conjunct2, THEN conjunct2])
      (use ok s sample_acquire c st in \<open>simp_all add: sample_admissible sample_idem_ok sample_claim_simps sample_handler_run
        sample_fits sample_storable retry_refl sample_first returns_def\<close>)
  then show ?thesis using s by (simp add: returns_def)
qed

text \<open>
  C16 (settled_key_not_rerun). A request on a key whose record has not expired and is still processing, is completed,
  or was made for other bytes: the handler takes no part in the answer, no table changes, and the
  answer is 409, the stored response, or 422 (or 500 when the database fails).
\<close>

theorem settled_key_not_rerun:
  assumes "admissible e r body" "idem_ok (dbase w)" "fits e (cq_scope (claim_of e r body t))"
    and "varchar 64 (cq_hash (claim_of e r body t))"
    and "shown e (dbase w) (cq_scope (claim_of e r body t)) = Some rec"
    and "settled rec (claim_of e r body t)" "unexpired 4 e w rec"
    and "Idempotency ttl nxt e r h0 w = (rep, w')"
  shows "dbase w' = dbase w \<and> panicked rep = None \<and>
    ((\<exists>w1. ops rep = settled_ops rec (claim_of e r body t) e w1) \<or>
     rs_status (send h0 (ops rep)) = 500 \<and> (\<exists>n msg. failure e n = Some msg))"
  by (rule claims.idempotency_settled [OF assms(1-6) assms(8) [unfolded Idempotency_def] assms(7)])

theorem settled_key_not_rerun_witness:
  "rs_status (send no_headers (ops (fst (Idempotency hour sample_failing sample_env sample_request no_headers sample_claimed)))) = 409"
proof -
  obtain rep w' where s: "Idempotency hour sample_failing sample_env sample_request no_headers sample_claimed = (rep, w')"
    by fastforce
  let ?c = "claim_of sample_env sample_request ''{}'' hour"
  have c: "?c = sample_claim" by (simp add: sample_claim_def ttl_or_default_def)
  have "\<exists>w1. ops rep = settled_ops (record_of sample_row) sample_claim sample_env w1"
    using settled_key_not_rerun [of sample_env sample_request "''{}''" sample_claimed hour "record_of sample_row" hour
        sample_failing no_headers rep w'] s sample_idem_ok(2)
    by (simp add: c sample_admissible sample_fits sample_claim_simps shown_def scope_key_def has_scope_def sample_claimed_def
        settled_def record_of_def sample_row_def unexpired_def)
  then show ?thesis
    using s by (auto simp: settled_ops_def sample_claim_simps record_of_def sample_row_def send_Fail)
qed

text \<open>
  C30 (failed_or_expired_key_reruns). A key whose request failed with the same bytes, or whose record has expired, is
  given out again: the middleware gets it back under the same record and runs the handler.
\<close>

theorem failed_or_expired_key_reruns:
  assumes "\<forall>n. failure e n = None" "admissible e r body" "idem_ok (dbase w)" "tx_now w = None"
    and "c = claim_of e r body (clock e (ticks w) + ttl_or_default ttl)"
    and "fits e (cq_scope c)" "varchar 64 (cq_hash c)"
    and "shown e (dbase w) (cq_scope c) = Some rec" "rerun e (tick w) c rec"
  shows "\<exists>w0. Idempotency ttl nxt e r h0 w =
      run_captured dbClaimStore (cr_id rec) (cq_expires c) nxt e (buffered r body) h0 w0 \<and>
    idem_ok (dbase w0) \<and> (\<exists>rec'. shown e (dbase w0) (cq_scope c) = Some rec' \<and> held e c (cr_id rec) rec')"
proof -
  have ok: "idem_ok (dbase (tick w))" "tx_now (tick w) = None" "shown e (dbase (tick w)) (cq_scope c) = Some rec"
    using assms by simp_all
  obtain w0 where a: "acquire dbClaimStore c e (tick w) = (Done (Inr (cr_id rec)), w0)"
    using claims.acquire_rerun [OF _ ok(1,2) assms(6,7) ok(3) assms(9)] assms(1) by auto
  then have "Idempotency ttl nxt e r h0 w = run_captured dbClaimStore (cr_id rec) (cq_expires c) nxt e (buffered r body) h0 w0"
    unfolding Idempotency_def idempotency_admissible [OF assms(2)] Let_def assms(5) [symmetric]
    by (simp add: assms(5) claim_of_def)
  with claims.acquire_held [OF ok(1) assms(6) ok(2) a] show ?thesis by blast
qed

definition sample_failed :: world where
  "sample_failed = sample_world\<lparr>dbase := sample_db\<lparr>idem_keys := [sample_row\<lparr>ik_status := ''failed''\<rparr>], seq_idem := 1\<rparr>\<rparr>"

theorem failed_or_expired_key_reruns_witness:
  "\<exists>w0. Idempotency hour sample_handler sample_env sample_request no_headers sample_failed =
     run_captured dbClaimStore 1 hour sample_handler sample_env (buffered sample_request ''{}'') no_headers w0"
proof -
  let ?rec = "record_of (sample_row\<lparr>ik_status := ''failed''\<rparr>)"
  have c: "sample_claim = claim_of sample_env sample_request ''{}'' (clock sample_env (ticks sample_failed) + ttl_or_default hour)"
    by (simp add: sample_claim_def sample_failed_def)
  have w: "idem_ok (dbase sample_failed)" "tx_now sample_failed = None"
    "shown sample_env (dbase sample_failed) (cq_scope sample_claim) = Some ?rec"
    by (simp_all add: sample_failed_def idem_ok_def shown_def scope_key_def has_scope_def sample_claim_simps sample_row_def)
  have re: "rerun sample_env (tick sample_failed) sample_claim ?rec"
    by (simp add: rerun_def unexpired_def sample_failed_def record_of_def sample_row_def sample_claim_simps)
  have s: "fits sample_env (cq_scope sample_claim)" "varchar 64 (cq_hash sample_claim)" "\<forall>n. failure sample_env n = None"
    by (simp_all add: sample_fits sample_claim_simps)
  have "cr_id ?rec = 1" "cq_expires sample_claim = hour"
    by (simp_all add: record_of_def sample_row_def sample_claim_simps)
  with failed_or_expired_key_reruns [OF s(3) sample_admissible w(1,2) c s(1,2) w(3) re, of sample_handler no_headers]
  show ?thesis by auto
qed

text \<open>
  A guarded request that is not admissible (the key is no UUID, the caller is not known, the
  body is too large or cannot be read) is answered 400, 401, 413 or 400; neither the handler nor
  the database has a part in it.
\<close>

theorem bad_keys_rejected:
  assumes "guarded e r" "\<not> (\<exists>body. admissible e r body)" "Idempotency ttl nxt e r h w = (rep, w')"
  shows "rs_status (send h (ops rep)) = request_status e r \<and> dbase w' = dbase w \<and> panicked rep = None"
  using idempotency_rejects [OF assms(1) _ assms(3) [unfolded Idempotency_def]] assms(2) by blast

theorem bad_keys_rejected_witness:
  "rs_status (send no_headers (ops (fst (Idempotency hour sample_handler sample_env (sample_request\<lparr>rq_ctx := background\<rparr>)
     no_headers sample_world)))) = 401"
  using bad_keys_rejected [of sample_env "sample_request\<lparr>rq_ctx := background\<rparr>" hour sample_handler no_headers sample_world]
  by (cases "Idempotency hour sample_handler sample_env (sample_request\<lparr>rq_ctx := background\<rparr>) no_headers sample_world")
    (simp add: guarded_def admissible_def sample_request_def background_def GetUserID_def request_status_def)

text \<open>
  The recorder passes on what the handler wrote (the client sees the same status, headers
  and body), and what it stores is the status and body the client got; a status of 500 or more is
  stored as a failure.
\<close>

theorem recorder_transparent:
  "send h (cap_forwarded (captured xs)) = send h xs \<and>
   cl_status (result_of h xs t) = rs_status (send h xs) \<and> cl_body (result_of h xs t) = rs_body (send h xs) \<and>
   (cl_failed (result_of h xs t) \<longleftrightarrow> 500 \<le> rs_status (send h xs))"
proof -
  have "cl_failed (result_of h xs t) \<longleftrightarrow> 500 \<le> cl_status (result_of h xs t)"
    by (simp add: result_of_def Let_def)
  then show ?thesis by (simp add: send_captured result_of_send)
qed

end
