(* ===== verification/Task_Store.thy ===== *)
theory Task_Store
  imports World
begin

text \<open>
  Tasks (\<open>internal/modules/tasks/model.go\<close>) and their two stores: \<open>Store\<close> over the sqlc queries
  for PostgreSQL (\<open>store.go\<close>, \<open>sqlc/query.sql.go\<close>) and \<open>sqliteStore\<close> (\<open>sqlite_store.go\<close>). The
  locale \<open>task_contract\<close> is the interface \<open>StorePort\<close> with what the service relies on; both
  stores are interpretations of it.
\<close>

section \<open>The model\<close>

definition ErrNotFound :: go_error where
  "ErrNotFound = Sentinel ''task not found''"

definition DefaultListLimit :: int where "DefaultListLimit = 25"
definition MaxListLimit :: int where "MaxListLimit = 100"
definition MaxListOffset :: int where "MaxListOffset = 100000"
definition MaxSearchLength :: nat where "MaxSearchLength = 255"

definition IsValidStatus :: "string \<Rightarrow> bool" where
  "IsValidStatus s \<longleftrightarrow> s = ''pending'' \<or> s = ''in_progress'' \<or> s = ''done''"

definition StatusOptions :: "(string \<times> string) list" where
  "StatusOptions = [(''pending'', ''Pending''), (''in_progress'', ''In Progress''), (''done'', ''Done'')]"

record task =
  ta_id :: int
  ta_public :: uuid
  ta_user :: int
  ta_title :: string
  ta_description :: string
  ta_status :: string
  ta_assignee :: "int option"
  ta_created :: time
  ta_updated :: time

record task_input =
  in_title :: string
  in_description :: string
  in_status :: string

definition Normalize :: "task_input \<Rightarrow> task_input" where
  "Normalize i =
     \<lparr>in_title = trim_space (in_title i), in_description = trim_space (in_description i),
      in_status = trim_space (in_status i)\<rparr>"

definition Validate :: "task_input \<Rightarrow> string list" where
  "Validate i =
     (if in_title i = [] then [''title is required'']
      else if length (in_title i) > 255 then [''title must be 255 characters or fewer'']
      else if length (in_description i) > 4096 then [''description must be 4096 characters or fewer'']
      else if in_status i \<noteq> [] \<and> \<not> IsValidStatus (in_status i)
      then [''status must be pending, in_progress, or done'']
      else [])"

section \<open>Pattern matching\<close>

definition backslash :: string where "backslash = [CHR 0x5C]"

text \<open>\<open>escapeLike\<close>: rune by rune, as \<open>range\<close> yields them.\<close>

definition escape_rune :: "string \<Rightarrow> string list" where
  "escape_rune r = (if r = backslash \<or> r = ''%'' \<or> r = ''_'' then [backslash, r] else [r])"

definition escapeLike :: "string \<Rightarrow> string" where
  "escapeLike s = concat (concat (map escape_rune (runes s)))"

text \<open>
  \<open>LIKE\<close> with the escape character \<open>\\<close>, over characters: \<^term>\<open>None\<close> is PostgreSQL's error for a
  pattern that ends in the escape character, raised when the match gets there.
\<close>

function like_match :: "string list \<Rightarrow> string list \<Rightarrow> bool option" where
  "like_match [] t = Some (t = [])"
| "like_match (p # ps) t =
     (if p = backslash then
        (case (ps, t) of
           (_, []) \<Rightarrow> Some False
         | ([], _) \<Rightarrow> None
         | (q # qs, c # cs) \<Rightarrow> if c = q then like_match qs cs else Some False)
      else if p = ''%'' then
        (case t of
           [] \<Rightarrow> like_match ps []
         | c # cs \<Rightarrow>
             (case like_match ps t of
                Some False \<Rightarrow> like_match (p # ps) cs
              | res \<Rightarrow> res))
      else
        (case t of
           [] \<Rightarrow> Some False
         | c # cs \<Rightarrow> if p = ''_'' \<or> c = p then like_match ps cs else Some False))"
  by pat_completeness auto
termination by (relation "measure (\<lambda>(ps, t). length ps + length t)") auto

definition sqlite_like :: "string \<Rightarrow> string \<Rightarrow> bool" where
  "sqlite_like pattern title \<longleftrightarrow>
     like_match (runes (ascii_lower pattern)) (runes (ascii_lower title)) = Some True"

definition pg_ilike :: "env \<Rightarrow> string \<Rightarrow> string \<Rightarrow> bool option" where
  "pg_ilike e title pattern = like_match (runes (pg_lower e pattern)) (runes (pg_lower e title))"

section \<open>The interface\<close>

record list_filter =
  lf_status :: string
  lf_search :: string
  lf_limit :: int
  lf_offset :: int

record task_store =
  st_List :: "int \<Rightarrow> list_filter \<Rightarrow> task list act"
  st_Find :: "int \<Rightarrow> uuid \<Rightarrow> task act"
  st_FindTx :: "int \<Rightarrow> uuid \<Rightarrow> task act"
  st_Create :: "int \<Rightarrow> task_input \<Rightarrow> task act"
  st_Update :: "int \<Rightarrow> uuid \<Rightarrow> task_input \<Rightarrow> task act"
  st_Delete :: "int \<Rightarrow> uuid \<Rightarrow> unit act"
  st_AssertActiveUser :: "int \<Rightarrow> unit act"
  st_Assign :: "int \<Rightarrow> uuid \<Rightarrow> int \<Rightarrow> task act"
  st_InsertLog :: "int \<Rightarrow> int \<Rightarrow> string \<Rightarrow> int option \<Rightarrow> int option \<Rightarrow> int option \<Rightarrow> unit act"

definition makeTask :: "task_row \<Rightarrow> task" where
  "makeTask r =
     \<lparr>ta_id = tk_id r, ta_public = tk_public r, ta_user = tk_user r, ta_title = tk_title r,
      ta_description = tk_description r, ta_status = tk_status r, ta_assignee = tk_assignee r,
      ta_created = tk_created r, ta_updated = tk_updated r\<rparr>"

definition store_error :: "string \<Rightarrow> string \<Rightarrow> go_error \<Rightarrow> go_error" where
  "store_error message what err = NewAppError ''tasks.store'' ''INTERNAL_ERROR'' message (Some (Errorf what err))"

definition not_found :: "string \<Rightarrow> go_error" where
  "not_found message = NewAppError ''tasks.store'' ''NOT_FOUND'' message (Some ErrNotFound)"

text \<open>\<open>errors.Is(err, sql.ErrNoRows)\<close> first, then any other error.\<close>

definition row_error :: "string \<Rightarrow> string \<Rightarrow> string \<Rightarrow> go_error \<Rightarrow> go_error" where
  "row_error missing message what err =
     (if errors_is err ''sql: no rows in result set'' then not_found missing else store_error message what err)"

definition status_or_pending :: "string \<Rightarrow> string" where
  "status_or_pending s = (if s = [] then ''pending'' else s)"

definition clamp_limit :: "int \<Rightarrow> int" where
  "clamp_limit l = (if l \<le> 0 \<or> l > MaxListLimit then DefaultListLimit else l)"

definition clamp_offset :: "int \<Rightarrow> int" where
  "clamp_offset n = (let n' = (if n < 0 then 0 else n) in if n' > MaxListOffset then MaxListOffset else n')"

definition search_pattern :: "string \<Rightarrow> string" where
  "search_pattern s = ''%'' @ escapeLike s @ ''%''"

section \<open>Statements both stores share\<close>

text \<open>The row a query by owner and public id addresses.\<close>

definition owns :: "int \<Rightarrow> uuid \<Rightarrow> task_row \<Rightarrow> bool" where
  "owns uid pid r \<longleftrightarrow> tk_user r = uid \<and> tk_public r = pid"

definition owned :: "db \<Rightarrow> int \<Rightarrow> uuid \<Rightarrow> task_row option" where
  "owned d uid pid = first_row (owns uid pid) (tasks d)"

definition select_task :: "int \<Rightarrow> uuid \<Rightarrow> task_row act" where
  "select_task uid pid = query_row (\<lambda>e d. owned d uid pid)"

text \<open>\<open>UPDATE ... WHERE user_id AND public_id RETURNING *\<close>. The parameters are read first
  (\<open>pre\<close>), the constraints checked on a row that matches (\<open>post\<close>).\<close>

definition update_task ::
  "int \<Rightarrow> uuid \<Rightarrow> (env \<Rightarrow> go_error option) \<Rightarrow> (env \<Rightarrow> db \<Rightarrow> go_error option) \<Rightarrow> (task_row \<Rightarrow> task_row) \<Rightarrow>
    env \<Rightarrow> db \<Rightarrow> go_error + task_row \<times> db" where
  "update_task uid pid pre post f e d =
     (case pre e of
        Some err \<Rightarrow> Inl err
      | None \<Rightarrow>
          (case owned d uid pid of
             None \<Rightarrow> Inl ErrNoRows
           | Some r \<Rightarrow>
               (case post e d of
                  Some err \<Rightarrow> Inl err
                | None \<Rightarrow> Inr (f r, d\<lparr>tasks := update_where (owns uid pid) f (tasks d)\<rparr>))))"

definition text_error :: "string list \<Rightarrow> env \<Rightarrow> go_error option" where
  "text_error ss e = (if driver_of e = DriverPostgres \<and> \<not> list_all pg_text ss then Some encoding_error else None)"

definition task_length_error :: "task_input \<Rightarrow> env \<Rightarrow> db \<Rightarrow> go_error option" where
  "task_length_error i e d =
     (if driver_of e = DriverPostgres \<and> \<not> (varchar 255 (in_title i) \<and> varchar 32 (status_or_pending (in_status i)))
      then Some varchar_error else None)"

definition assignee_error :: "int \<Rightarrow> env \<Rightarrow> db \<Rightarrow> go_error option" where
  "assignee_error uid e d = (if user_exists d uid then None else Some fk_error)"

text \<open>\<open>DELETE\<close> with its row count; the logs of the task go with it (\<open>ON DELETE CASCADE\<close>).\<close>

definition delete_task :: "int \<Rightarrow> uuid \<Rightarrow> nat act" where
  "delete_task uid pid =
     stmt (\<lambda>e d. let gone = map tk_id (filter (owns uid pid) (tasks d)) in
       Inr (count_where (owns uid pid) (tasks d),
         d\<lparr>tasks := delete_where (owns uid pid) (tasks d),
           task_logs := delete_where (\<lambda>l. tl_task l \<in> set gone) (task_logs d)\<rparr>))"

definition insert_task :: "task_row \<Rightarrow> env \<Rightarrow> db \<Rightarrow> go_error + task_row \<times> db" where
  "insert_task r e d =
     (if list_ex (\<lambda>x. tk_public x = tk_public r) (tasks d) then Inl unique_error
      else if driver_of e = DriverPostgres \<and> \<not> (varchar 255 (tk_title r) \<and> varchar 32 (tk_status r)) then Inl varchar_error
      else if driver_of e = DriverPostgres \<and> \<not> pg_text (tk_description r) then Inl encoding_error
      else if \<not> user_exists d (tk_user r) then Inl fk_error
      else let r' = r\<lparr>tk_id := seq_tasks d + 1\<rparr> in
        Inr (r', d\<lparr>tasks := tasks d @ [r'], seq_tasks := seq_tasks d + 1\<rparr>))"

definition active_user :: "db \<Rightarrow> int \<Rightarrow> bool" where
  "active_user d uid \<longleftrightarrow> list_ex (\<lambda>u. us_id u = uid \<and> us_active u \<and> us_deleted u = None) (users d)"

definition insert_task_log :: "task_log_row \<Rightarrow> env \<Rightarrow> db \<Rightarrow> go_error + unit \<times> db" where
  "insert_task_log l e d =
     (if driver_of e = DriverPostgres \<and> \<not> varchar 64 (tl_action l) then Inl varchar_error
      else if \<not> (user_exists d (tl_user l) \<and> list_ex (\<lambda>r. tk_id r = tl_task l) (tasks d)) then Inl fk_error
      else Inr ((), d\<lparr>task_logs := task_logs d @ [l\<lparr>tl_id := seq_task_logs d + 1\<rparr>], seq_task_logs := seq_task_logs d + 1\<rparr>))"

definition new_task_row :: "uuid \<Rightarrow> int \<Rightarrow> task_input \<Rightarrow> time \<Rightarrow> task_row" where
  "new_task_row pid uid i now =
     \<lparr>tk_id = 0, tk_public = pid, tk_user = uid, tk_title = in_title i, tk_description = in_description i,
      tk_status = status_or_pending (in_status i), tk_assignee = None, tk_created = now, tk_updated = now\<rparr>"

definition edited :: "task_input \<Rightarrow> time \<Rightarrow> task_row \<Rightarrow> task_row" where
  "edited i now r =
     r\<lparr>tk_title := in_title i, tk_description := in_description i,
       tk_status := status_or_pending (in_status i), tk_updated := now\<rparr>"

definition assigned_to :: "int \<Rightarrow> time \<Rightarrow> task_row \<Rightarrow> task_row" where
  "assigned_to uid now r = r\<lparr>tk_assignee := Some uid, tk_updated := now\<rparr>"

section \<open>The store over PostgreSQL\<close>

text \<open>
  \<open>ListTasks\<close>: \<open>status = COALESCE($2, status) AND title ILIKE COALESCE($3, title)\<close>. Without a
  search the title is its own pattern. A row whose match raises an error fails the query, if the
  plan comes to it: one that sorts matches every row of the user, one that walks the index newest
  first stops when it has as many matches as \<open>LIMIT\<close> and \<open>OFFSET\<close> ask for.
\<close>

definition pg_list_match :: "env \<Rightarrow> string option \<Rightarrow> string option \<Rightarrow> task_row \<Rightarrow> bool option" where
  "pg_list_match e status pattern r =
     (if tk_status r \<noteq> (case status of Some s \<Rightarrow> s | None \<Rightarrow> tk_status r) then Some False
      else pg_ilike e (tk_title r) (case pattern of Some p \<Rightarrow> p | None \<Rightarrow> tk_title r))"

fun until_enough :: "('r \<Rightarrow> bool option) \<Rightarrow> nat \<Rightarrow> 'r list \<Rightarrow> 'r list" where
  "until_enough p n [] = []"
| "until_enough p n (r # rs) =
     (if n = 0 then [] else r # until_enough p (if p r = Some True then n - 1 else n) rs)"

definition newest_rows :: "env \<Rightarrow> task_row list \<Rightarrow> task_row list" where
  "newest_rows e rs = sort_key (\<lambda>r. - tk_created r) (sort_key (\<lambda>r. scan_order e (tk_id r)) rs)"

definition pg_list ::
  "int \<Rightarrow> string option \<Rightarrow> string option \<Rightarrow> int \<Rightarrow> int \<Rightarrow> env \<Rightarrow> db \<Rightarrow> go_error + task_row list \<times> db" where
  "pg_list uid status pattern limit offset e d =
     (let mine = filter (\<lambda>r. tk_user r = uid) (tasks d);
          match = pg_list_match e status pattern;
          met = (if index_scan e d then until_enough match (nat limit + nat offset) (newest_rows e mine) else mine)
      in if \<not> list_all pg_text ((case status of Some s \<Rightarrow> [s] | None \<Rightarrow> []) @ (case pattern of Some p \<Rightarrow> [p] | None \<Rightarrow> []))
         then Inl encoding_error
         else if list_ex (\<lambda>r. match r = None) met
         then Inl (Opaque ''LIKE pattern must not end with escape character'')
         else Inr (take (nat limit) (drop (nat offset) (newest_rows e (filter (\<lambda>r. match r = Some True) mine))), d))"

definition Store_List :: "int \<Rightarrow> list_filter \<Rightarrow> task list act" where
  "Store_List uid f =
     (let status = (if lf_status f \<noteq> [] then Some (lf_status f) else None);
          pattern = (if lf_search f \<noteq> [] then Some (search_pattern (lf_search f)) else None)
      in bind_act
           (map_error (store_error ''Failed to list tasks'' ''list tasks'')
             (stmt (pg_list uid status pattern (clamp_limit (lf_limit f)) (clamp_offset (lf_offset f)))))
           (\<lambda>rows. ret (map makeTask rows)))"

definition Store_find :: "int \<Rightarrow> uuid \<Rightarrow> task act" where
  "Store_find uid pid =
     bind_act (map_error (row_error ''Task not found'' ''Failed to find task'' ''find task'') (select_task uid pid))
       (\<lambda>r. ret (makeTask r))"

definition Store_Create :: "int \<Rightarrow> task_input \<Rightarrow> task act" where
  "Store_Create uid i =
     bind_act db_now (\<lambda>now.
     bind_act uuid_new (\<lambda>pid.
     bind_act (map_error (store_error ''Failed to create task'' ''create task'')
       (stmt (insert_task (new_task_row pid uid i now)))) (\<lambda>r. ret (makeTask r))))"

definition Store_Update :: "int \<Rightarrow> uuid \<Rightarrow> task_input \<Rightarrow> task act" where
  "Store_Update uid pid i =
     bind_act db_now (\<lambda>now.
     bind_act (map_error (row_error ''Task not found'' ''Failed to update task'' ''update task'')
       (stmt (update_task uid pid (text_error [in_title i, in_description i, in_status i]) (task_length_error i)
         (edited i now)))) (\<lambda>r. ret (makeTask r)))"

definition deleted_count :: "nat act \<Rightarrow> unit act" where
  "deleted_count m =
     bind_act (map_error (store_error ''Failed to delete task'' ''delete task'') m)
       (\<lambda>n. if n = 0 then throw (not_found ''Task not found'') else ret ())"

definition Store_Delete :: "int \<Rightarrow> uuid \<Rightarrow> unit act" where
  "Store_Delete uid pid = deleted_count (delete_task uid pid)"

definition Store_AssertActiveUser :: "int \<Rightarrow> unit act" where
  "Store_AssertActiveUser uid =
     map_error (row_error ''User not found'' ''Failed to find assignee'' ''find assignee'')
       (query_row (\<lambda>e d. if active_user d uid then Some () else None))"

definition Store_Assign :: "int \<Rightarrow> uuid \<Rightarrow> int \<Rightarrow> task act" where
  "Store_Assign uid pid assignee =
     bind_act db_now (\<lambda>now.
     bind_act (map_error (row_error ''Task not found'' ''Failed to assign task'' ''assign task'')
       (stmt (update_task uid pid (\<lambda>_. None) (assignee_error assignee) (assigned_to assignee now))))
       (\<lambda>r. ret (makeTask r)))"

definition new_log_row ::
  "int \<Rightarrow> int \<Rightarrow> string \<Rightarrow> int option \<Rightarrow> int option \<Rightarrow> int option \<Rightarrow> time \<Rightarrow> task_log_row" where
  "new_log_row task uid action oldA newA actor now =
     \<lparr>tl_id = 0, tl_task = task, tl_user = uid, tl_action = action, tl_old_assignee = oldA,
      tl_new_assignee = newA, tl_actor = actor, tl_created = now\<rparr>"

definition Store_InsertLog ::
  "int \<Rightarrow> int \<Rightarrow> string \<Rightarrow> int option \<Rightarrow> int option \<Rightarrow> int option \<Rightarrow> unit act" where
  "Store_InsertLog task uid action oldA newA actor =
     bind_act db_now (\<lambda>now.
       map_error (store_error ''Failed to record task log'' ''insert task log'')
         (stmt (insert_task_log (new_log_row task uid action oldA newA actor now))))"

definition Store :: task_store where
  "Store =
     \<lparr>st_List = Store_List, st_Find = Store_find, st_FindTx = Store_find, st_Create = Store_Create,
      st_Update = Store_Update, st_Delete = Store_Delete, st_AssertActiveUser = Store_AssertActiveUser,
      st_Assign = Store_Assign, st_InsertLog = Store_InsertLog\<rparr>"

section \<open>The store over SQLite\<close>

text \<open>\<open>scanSQLiteTask\<close>: the public id is text and is parsed (times are numbers here, so their
  parsing is left out).\<close>

definition scanSQLiteTask :: "env \<Rightarrow> task_row \<Rightarrow> go_error + task" where
  "scanSQLiteTask e r =
     (case uuid_parse e (tk_public r) of
        None \<Rightarrow> Inl (Opaque ''invalid UUID'')
      | Some p \<Rightarrow> Inr ((makeTask r)\<lparr>ta_public := p\<rparr>))"

definition scanned :: "task_row \<Rightarrow> task act" where
  "scanned r e = (case scanSQLiteTask e r of Inl err \<Rightarrow> throw err e | Inr t \<Rightarrow> ret t e)"

fun scan_all :: "task_row list \<Rightarrow> task list act" where
  "scan_all [] = ret []"
| "scan_all (r # rs) =
     bind_act (map_error (store_error ''Failed to list tasks'' ''scan task'') (scanned r)) (\<lambda>t.
     bind_act (scan_all rs) (\<lambda>ts. ret (t # ts)))"

definition sqlite_list :: "int \<Rightarrow> string \<Rightarrow> string \<Rightarrow> int \<Rightarrow> int \<Rightarrow> db \<Rightarrow> task_row list" where
  "sqlite_list uid status pattern limit offset d =
     take (nat limit) (drop (nat offset)
       (sort_key (\<lambda>r. - tk_created r) (sort_key (\<lambda>r. - tk_id r)
         (filter (\<lambda>r. tk_user r = uid \<and> (status = [] \<or> tk_status r = status) \<and>
                     (pattern = [] \<or> sqlite_like pattern (tk_title r))) (tasks d)))))"

definition sqlite_List :: "int \<Rightarrow> list_filter \<Rightarrow> task list act" where
  "sqlite_List uid f =
     (let pattern = (if lf_search f \<noteq> [] then search_pattern (lf_search f) else [])
      in bind_act
           (map_error (store_error ''Failed to list tasks'' ''list tasks'')
             (stmt (\<lambda>e d. Inr (sqlite_list uid (lf_status f) pattern (clamp_limit (lf_limit f))
                (clamp_offset (lf_offset f)) d, d))))
           scan_all)"

definition sqlite_find :: "int \<Rightarrow> uuid \<Rightarrow> task act" where
  "sqlite_find uid pid =
     map_error (row_error ''Task not found'' ''Failed to find task'' ''find task'')
       (bind_act (select_task uid pid) scanned)"

definition sqlite_Create :: "int \<Rightarrow> task_input \<Rightarrow> task act" where
  "sqlite_Create uid i =
     bind_act time_now (\<lambda>now.
     bind_act uuid_new (\<lambda>pid.
     map_error (store_error ''Failed to create task'' ''create task'')
       (bind_act (stmt (insert_task (new_task_row pid uid i now))) scanned)))"

definition sqlite_Update :: "int \<Rightarrow> uuid \<Rightarrow> task_input \<Rightarrow> task act" where
  "sqlite_Update uid pid i =
     bind_act time_now (\<lambda>now.
     map_error (row_error ''Task not found'' ''Failed to update task'' ''update task'')
       (bind_act (stmt (update_task uid pid (\<lambda>_. None) (\<lambda>_ _. None) (edited i now))) scanned))"

definition sqlite_Delete :: "int \<Rightarrow> uuid \<Rightarrow> unit act" where
  "sqlite_Delete uid pid = deleted_count (delete_task uid pid)"

definition sqlite_AssertActiveUser :: "int \<Rightarrow> unit act" where
  "sqlite_AssertActiveUser uid =
     map_error (row_error ''User not found'' ''Failed to find assignee'' ''find assignee'')
       (query_row (\<lambda>e d. if active_user d uid then Some () else None))"

definition sqlite_Assign :: "int \<Rightarrow> uuid \<Rightarrow> int \<Rightarrow> task act" where
  "sqlite_Assign uid pid assignee =
     bind_act time_now (\<lambda>now.
     map_error (row_error ''Task not found'' ''Failed to assign task'' ''assign task'')
       (bind_act (stmt (update_task uid pid (\<lambda>_. None) (assignee_error assignee) (assigned_to assignee now))) scanned))"

definition sqlite_InsertLog ::
  "int \<Rightarrow> int \<Rightarrow> string \<Rightarrow> int option \<Rightarrow> int option \<Rightarrow> int option \<Rightarrow> unit act" where
  "sqlite_InsertLog task uid action oldA newA actor =
     bind_act time_now (\<lambda>now.
       map_error (store_error ''Failed to record task log'' ''insert task log'')
         (stmt (insert_task_log (new_log_row task uid action oldA newA actor now))))"

definition sqliteStore :: task_store where
  "sqliteStore =
     \<lparr>st_List = sqlite_List, st_Find = sqlite_find, st_FindTx = sqlite_find, st_Create = sqlite_Create,
      st_Update = sqlite_Update, st_Delete = sqlite_Delete, st_AssertActiveUser = sqlite_AssertActiveUser,
      st_Assign = sqlite_Assign, st_InsertLog = sqlite_InsertLog\<rparr>"

definition NewStore :: "env \<Rightarrow> task_store" where
  "NewStore e = (if driver_of e = DriverSQLite then sqliteStore else Store)"

section \<open>The contract\<close>

text \<open>A task as a store reads its row: the public id may be the parsed form of the stored text.\<close>

definition reads :: "env \<Rightarrow> task_row \<Rightarrow> task \<Rightarrow> bool" where
  "reads e r t \<longleftrightarrow> t = makeTask r \<or> (\<exists>p. uuid_parse e (tk_public r) = Some p \<and> t = (makeTask r)\<lparr>ta_public := p\<rparr>)"

text \<open>The error a missing task is reported with, unless the database fails.\<close>

definition missing :: "env \<Rightarrow> 'a result \<Rightarrow> bool" where
  "missing e res \<longleftrightarrow> (\<exists>err. res = Fail_with err \<and>
     (err = not_found ''Task not found'' \<or> (\<exists>n msg. failure e n = Some msg)))"

definition newest_first :: "task list \<Rightarrow> bool" where
  "newest_first ts \<longleftrightarrow> sorted_wrt (\<ge>) (map ta_created ts)"

locale task_contract =
  fixes store :: task_store
  assumes find: "st_FindTx store u p e w = (Done t, w') \<Longrightarrow>
      dbase w' = dbase w \<and> (\<exists>r. owned (dbase w) u p = Some r \<and> reads e r t)"
    and find_missing: "owned (dbase w) u p = None \<Longrightarrow> st_FindTx store u p e w = (res, w') \<Longrightarrow>
      dbase w' = dbase w \<and> missing e res"
    and find_same: "st_Find store = st_FindTx store"
    and lists: "st_List store u f e w = (Done ts, w') \<Longrightarrow>
      dbase w' = dbase w \<and> newest_first ts \<and> length ts \<le> 100 \<and>
      (\<forall>t \<in> set ts. \<exists>r \<in> set (tasks (dbase w)). reads e r t \<and> tk_user r = u \<and>
         (lf_status f \<noteq> [] \<longrightarrow> tk_status r = lf_status f))"
    and create: "st_Create store u i e w = (Done t, w') \<Longrightarrow>
      \<exists>pid now r. r = (new_task_row pid u i now)\<lparr>tk_id := seq_tasks (dbase w) + 1\<rparr> \<and> reads e r t \<and>
        dbase w' = (dbase w)\<lparr>tasks := tasks (dbase w) @ [r], seq_tasks := seq_tasks (dbase w) + 1\<rparr>"
    and update: "st_Update store u p i e w = (Done t, w') \<Longrightarrow>
      \<exists>r now. owned (dbase w) u p = Some r \<and> reads e (edited i now r) t \<and>
        dbase w' = (dbase w)\<lparr>tasks := update_where (owns u p) (edited i now) (tasks (dbase w))\<rparr>"
    and delete: "st_Delete store u p e w = (Done x, w') \<Longrightarrow>
      owned (dbase w) u p \<noteq> None \<and>
      dbase w' = (dbase w)\<lparr>tasks := delete_where (owns u p) (tasks (dbase w)),
        task_logs := delete_where (\<lambda>l. tl_task l \<in> set (map tk_id (filter (owns u p) (tasks (dbase w))))) (task_logs (dbase w))\<rparr>"
    and active: "st_AssertActiveUser store a e w = (Done x, w') \<Longrightarrow> dbase w' = dbase w \<and> active_user (dbase w) a"
    and assign: "st_Assign store u p a e w = (Done t, w') \<Longrightarrow>
      \<exists>r now. owned (dbase w) u p = Some r \<and> reads e (assigned_to a now r) t \<and>
        dbase w' = (dbase w)\<lparr>tasks := update_where (owns u p) (assigned_to a now) (tasks (dbase w))\<rparr>"
    and log: "st_InsertLog store k u act oldA newA actor e w = (Done x, w') \<Longrightarrow>
      \<exists>now. dbase w' = (dbase w)
        \<lparr>task_logs := task_logs (dbase w) @
           [(new_log_row k u act oldA newA actor now)\<lparr>tl_id := seq_task_logs (dbase w) + 1\<rparr>],
         seq_task_logs := seq_task_logs (dbase w) + 1\<rparr>"

section \<open>Both stores keep it\<close>

lemma reads_makeTask [simp]: "reads e r (makeTask r)"
  by (simp add: reads_def)

lemma scanned_DoneD: "scanned r e w = (Done t, w') \<Longrightarrow> reads e r t \<and> w' = w"
  by (auto simp: scanned_def scanSQLiteTask_def reads_def act_simps split: option.splits)

lemma select_task_DoneD: "select_task u p e w = (Done r, w') \<Longrightarrow> owned (dbase w) u p = Some r \<and> dbase w' = dbase w"
  unfolding select_task_def by (auto dest: query_row_DoneD)

lemma select_task_missing:
  "owned (dbase w) u p = None \<Longrightarrow> select_task u p e w = (res, w') \<Longrightarrow>
    dbase w' = dbase w \<and> (\<exists>err. res = Fail_with err \<and> (err = ErrNoRows \<or> (\<exists>n msg. failure e n = Some msg)))"
  by (auto simp: select_task_def query_row_def stmt_def split: option.splits)

lemma row_error_ErrNoRows [simp]: "row_error m msg what ErrNoRows = not_found m"
  by (simp add: row_error_def ErrNoRows_def)

lemma update_task_InrD:
  "update_task u p pre post f e d = Inr (r', d') \<Longrightarrow>
    \<exists>r. owned d u p = Some r \<and> r' = f r \<and> d' = d\<lparr>tasks := update_where (owns u p) f (tasks d)\<rparr>"
  by (auto simp: update_task_def split: option.splits)

lemma insert_task_InrD:
  "insert_task r e d = Inr (r', d') \<Longrightarrow> r' = r\<lparr>tk_id := seq_tasks d + 1\<rparr> \<and>
    d' = d\<lparr>tasks := tasks d @ [r'], seq_tasks := seq_tasks d + 1\<rparr> \<and> user_exists d (tk_user r)"
  by (auto simp: insert_task_def Let_def split: if_splits)

lemma insert_task_log_InrD:
  "insert_task_log l e d = Inr (x, d') \<Longrightarrow>
    d' = d\<lparr>task_logs := task_logs d @ [l\<lparr>tl_id := seq_task_logs d + 1\<rparr>], seq_task_logs := seq_task_logs d + 1\<rparr>"
  by (auto simp: insert_task_log_def split: if_splits)

lemma deleted_count_DoneD:
  assumes "deleted_count (delete_task u p) e w = (Done x, w')"
  shows "owned (dbase w) u p \<noteq> None \<and>
    dbase w' = (dbase w)\<lparr>tasks := delete_where (owns u p) (tasks (dbase w)),
      task_logs := delete_where (\<lambda>l. tl_task l \<in> set (map tk_id (filter (owns u p) (tasks (dbase w))))) (task_logs (dbase w))\<rparr>"
proof -
  from assms obtain n w1 where d: "delete_task u p e w = (Done n, w1)" and n: "n \<noteq> 0" "w' = w1"
    unfolding deleted_count_def by (auto simp: act_simps elim!: bind_act_DoneD split: if_splits)
  from stmt_DoneD [OF d [unfolded delete_task_def]] have
    "n = count_where (owns u p) (tasks (dbase w))"
    "dbase w1 = (dbase w)\<lparr>tasks := delete_where (owns u p) (tasks (dbase w)),
      task_logs := delete_where (\<lambda>l. tl_task l \<in> set (map tk_id (filter (owns u p) (tasks (dbase w))))) (task_logs (dbase w))\<rparr>"
    by (simp_all add: Let_def)
  with n show ?thesis by (simp add: owned_def)
qed

lemma assert_active_DoneD:
  "map_error f (query_row (\<lambda>e d. if active_user d uid then Some () else None)) e w = (Done x, w') \<Longrightarrow>
    dbase w' = dbase w \<and> active_user (dbase w) uid"
  by (auto dest!: query_row_DoneD split: if_splits)

lemma newest_first_take_drop:
  "newest_first (map f (take n (drop m (sort_key (\<lambda>r. - tk_created r) rs))))"
  if "\<And>r. ta_created (f r) = tk_created r"
proof -
  have "sorted (map (\<lambda>r. - tk_created r) (sort_key (\<lambda>r. - tk_created r) rs))" by simp
  then have "sorted_wrt (\<lambda>r s. tk_created s \<le> tk_created r) (sort_key (\<lambda>r. - tk_created r) rs)"
    by (simp add: sorted_map)
  then have "sorted_wrt (\<lambda>r s. tk_created s \<le> tk_created r) (take n (drop m (sort_key (\<lambda>r. - tk_created r) rs)))"
    by (intro sorted_wrt_take sorted_wrt_drop)
  then show ?thesis by (simp add: newest_first_def sorted_wrt_map comp_def that)
qed

lemma scan_all_DoneD:
  "scan_all rs e w = (Done ts, w') \<Longrightarrow> w' = w \<and> list_all2 (reads e) rs ts"
proof (induction rs arbitrary: ts)
  case Nil
  then show ?case by (simp add: act_simps)
next
  case (Cons r rs)
  then show ?case by (auto simp: act_simps elim!: bind_act_DoneD dest!: scanned_DoneD)
qed

lemma clamp_limit_le: "clamp_limit l \<le> 100 \<and> 0 < clamp_limit l \<and> nat (clamp_limit l) \<le> 100"
  by (auto simp add: clamp_limit_def MaxListLimit_def DefaultListLimit_def nat_le_iff)

lemma reads_fields:
  "reads e r t \<Longrightarrow> ta_id t = tk_id r \<and> ta_user t = tk_user r \<and> ta_created t = tk_created r \<and>
    ta_title t = tk_title r \<and> ta_status t = tk_status r \<and> ta_assignee t = tk_assignee r"
  by (auto simp: reads_def makeTask_def)

lemma newest_first_reads:
  assumes "list_all2 (reads e) rs ts" "newest_first (map makeTask rs)"
  shows "newest_first ts"
proof -
  have "map ta_created ts = map ta_created (map makeTask rs)"
    using assms(1) by (induction rule: list_all2_induct) (auto dest: reads_fields simp: makeTask_def)
  with assms(2) show ?thesis by (simp add: newest_first_def)
qed

lemma find_missing_map_error:
  assumes "map_error (row_error ''Task not found'' msg what) m e w = (res, w')"
    "\<And>res1 w1. m e w = (res1, w1) \<Longrightarrow> dbase w1 = dbase w \<and>
      (\<exists>err. res1 = Fail_with err \<and> (err = ErrNoRows \<or> (\<exists>n msg. failure e n = Some msg)))"
  shows "dbase w' = dbase w \<and> missing e res"
proof -
  obtain res1 w1 where m: "m e w = (res1, w1)" by fastforce
  with assms(2) [OF m] obtain err where "res1 = Fail_with err" "dbase w1 = dbase w"
    "err = ErrNoRows \<or> (\<exists>n msg. failure e n = Some msg)" by blast
  with m assms(1) show ?thesis by (auto simp: map_error_def missing_def)
qed

lemma bind_select_missing:
  assumes "owned (dbase w) u p = None" "bind_act (select_task u p) k e w = (res, w')"
  shows "dbase w' = dbase w \<and>
    (\<exists>err. res = Fail_with err \<and> (err = ErrNoRows \<or> (\<exists>n msg. failure e n = Some msg)))"
proof -
  obtain res1 w1 where s: "select_task u p e w = (res1, w1)" by fastforce
  from select_task_missing [OF assms(1) this] assms(2) s show ?thesis by (auto simp: bind_act_def)
qed

lemma pg_list_InrD:
  "pg_list u status pattern l n e d = Inr (rs, d') \<Longrightarrow> d' = d \<and>
    rs = take (nat l) (drop (nat n) (sort_key (\<lambda>r. - tk_created r) (sort_key (\<lambda>r. scan_order e (tk_id r))
      (filter (\<lambda>r. pg_list_match e status pattern r = Some True) (filter (\<lambda>r. tk_user r = u) (tasks d))))))"
  unfolding pg_list_def Let_def by (auto simp add: newest_rows_def simp del: list_ex_iff split: if_splits)

text \<open>The first \<open>n\<close> rows are always met.\<close>

lemma set_newest_rows [simp]: "set (newest_rows e rs) = set rs"
  by (simp add: newest_rows_def)

lemma take_until_enough: "set (take n rs) \<subseteq> set (until_enough p n rs)"
proof (induction rs arbitrary: n)
  case (Cons r rs)
  show ?case
  proof (cases n)
    case (Suc m)
    have "set (take m rs) \<subseteq> set (take (Suc m) rs)" by (rule set_take_subset_set_take) simp
    with Cons.IH [of m] Cons.IH [of "Suc m"] show ?thesis by (auto simp: Suc)
  qed simp
qed simp

lemma newest_rows_reach:
  assumes "r \<in> set rs" "length (filter (\<lambda>x. tk_created r \<le> tk_created x) rs) \<le> n"
  shows "r \<in> set (take n (newest_rows e rs))"
proof -
  let ?l = "newest_rows e rs"
  obtain as bs where l: "?l = as @ r # bs" using assms(1) by (metis set_newest_rows split_list)
  have "sorted (map (\<lambda>r. - tk_created r) ?l)" by (simp add: newest_rows_def)
  then have "\<forall>a \<in> set as. tk_created r \<le> tk_created a" by (simp add: l sorted_append)
  then have "filter (\<lambda>x. tk_created r \<le> tk_created x) as = as" by simp
  then have "Suc (length as) \<le> length (filter (\<lambda>x. tk_created r \<le> tk_created x) ?l)" by (simp add: l)
  also have "\<dots> = length (filter (\<lambda>x. tk_created r \<le> tk_created x) rs)"
  proof -
    have "mset (filter (\<lambda>x. tk_created r \<le> tk_created x) ?l) = mset (filter (\<lambda>x. tk_created r \<le> tk_created x) rs)"
      by (simp add: newest_rows_def)
    then show ?thesis by (rule mset_eq_length)
  qed
  finally have "length as < n" using assms(2) by simp
  then show ?thesis by (simp add: l take_Cons')
qed

lemma pg_list_match_status: "pg_list_match e (Some s) pattern r = Some True \<Longrightarrow> tk_status r = s"
  by (auto simp: pg_list_match_def split: if_splits)

lemma Store_List_DoneD:
  assumes "Store_List u f e w = (Done ts, w')"
  shows "dbase w' = dbase w \<and> newest_first ts \<and> length ts \<le> 100 \<and>
    (\<forall>t \<in> set ts. \<exists>r \<in> set (tasks (dbase w)). reads e r t \<and> tk_user r = u \<and>
       (lf_status f \<noteq> [] \<longrightarrow> tk_status r = lf_status f))"
proof -
  define status where "status = (if lf_status f \<noteq> [] then Some (lf_status f) else None)"
  from assms obtain pattern rs where
    s: "stmt (pg_list u status pattern (clamp_limit (lf_limit f)) (clamp_offset (lf_offset f))) e w = (Done rs, w')"
    and ts: "ts = map makeTask rs"
    by (auto simp: Store_List_def Let_def act_simps status_def elim!: bind_act_DoneD)
  note rs = pg_list_InrD [OF stmt_DoneD [OF s, THEN conjunct1]]
  have "newest_first ts" unfolding ts rs [THEN conjunct2]
    by (rule newest_first_take_drop) (simp add: makeTask_def)
  moreover have "length ts \<le> 100"
    using rs clamp_limit_le [of "lf_limit f"] by (simp add: ts min.coboundedI2)
  moreover have "\<exists>r \<in> set (tasks (dbase w)). reads e r t \<and> tk_user r = u \<and>
      (lf_status f \<noteq> [] \<longrightarrow> tk_status r = lf_status f)" if t: "t \<in> set ts" for t
  proof -
    from t rs obtain r where r: "t = makeTask r" "r \<in> set (tasks (dbase w))" "tk_user r = u"
      "pg_list_match e status pattern r = Some True"
      by (auto simp: ts dest!: in_set_takeD in_set_dropD)
    then have "lf_status f \<noteq> [] \<longrightarrow> tk_status r = lf_status f"
      using pg_list_match_status by (auto simp: status_def)
    with r show ?thesis using reads_makeTask by blast
  qed
  ultimately show ?thesis using rs by blast
qed

lemma sqlite_List_DoneD:
  assumes "sqlite_List u f e w = (Done ts, w')"
  shows "dbase w' = dbase w \<and> newest_first ts \<and> length ts \<le> 100 \<and>
    (\<forall>t \<in> set ts. \<exists>r \<in> set (tasks (dbase w)). reads e r t \<and> tk_user r = u \<and>
       (lf_status f \<noteq> [] \<longrightarrow> tk_status r = lf_status f))"
proof -
  from assms obtain pattern rs w1 where
    s: "stmt (\<lambda>e d. Inr (sqlite_list u (lf_status f) pattern (clamp_limit (lf_limit f)) (clamp_offset (lf_offset f)) d, d)) e w
      = (Done rs, w1)"
    and sc: "scan_all rs e w1 = (Done ts, w')"
    by (auto simp: sqlite_List_def Let_def elim!: bind_act_DoneD)
  from stmt_DoneD [OF s] have w1: "dbase w1 = dbase w"
    and rs: "rs = sqlite_list u (lf_status f) pattern (clamp_limit (lf_limit f)) (clamp_offset (lf_offset f)) (dbase w)"
    by auto
  from scan_all_DoneD [OF sc] have w': "w' = w1" and ts: "list_all2 (reads e) rs ts" by auto
  have "newest_first (map makeTask rs)"
    unfolding rs sqlite_list_def by (rule newest_first_take_drop) (simp add: makeTask_def)
  with ts have "newest_first ts" by (rule newest_first_reads)
  moreover have "length ts \<le> 100"
    using ts clamp_limit_le [of "lf_limit f"] by (simp add: rs sqlite_list_def list_all2_lengthD [symmetric] min.coboundedI2)
  moreover have "\<exists>r \<in> set (tasks (dbase w)). reads e r t \<and> tk_user r = u \<and>
      (lf_status f \<noteq> [] \<longrightarrow> tk_status r = lf_status f)" if t: "t \<in> set ts" for t
  proof -
    from t ts obtain r where r: "r \<in> set rs" "reads e r t"
      by (metis in_set_conv_nth list_all2_conv_all_nth)
    then show ?thesis
      by (auto simp: rs sqlite_list_def dest!: in_set_takeD in_set_dropD)
  qed
  ultimately show ?thesis using w1 w' by simp
qed

lemma create_body:
  assumes "dbase w1 = dbase w" "stmt (insert_task (new_task_row pid u i now)) e w1 = (Done r, w2)"
    "reads e r t" "w' = w2"
  shows "\<exists>pid now r. r = (new_task_row pid u i now)\<lparr>tk_id := seq_tasks (dbase w) + 1\<rparr> \<and> reads e r t \<and>
        dbase w' = (dbase w)\<lparr>tasks := tasks (dbase w) @ [r], seq_tasks := seq_tasks (dbase w) + 1\<rparr>"
  using insert_task_InrD [OF stmt_DoneD [OF assms(2), THEN conjunct1]] assms
  by (intro exI [of _ pid] exI [of _ now] exI [of _ r]) simp

lemma Store_Create_DoneD:
  assumes "Store_Create u i e w = (Done t, w')"
  shows "\<exists>pid now r. r = (new_task_row pid u i now)\<lparr>tk_id := seq_tasks (dbase w) + 1\<rparr> \<and> reads e r t \<and>
        dbase w' = (dbase w)\<lparr>tasks := tasks (dbase w) @ [r], seq_tasks := seq_tasks (dbase w) + 1\<rparr>"
proof -
  from assms obtain now w1 pid w2 r where
    "db_now e w = (Done now, w1)" "uuid_new e w1 = (Done pid, w2)"
    "stmt (insert_task (new_task_row pid u i now)) e w2 = (Done r, w')" "t = makeTask r"
    by (auto simp: Store_Create_def ret_def elim!: bind_act_DoneD)
  then show ?thesis by (intro create_body [of w2]) (auto simp: act_simps dest: db_now_DoneD)
qed

lemma sqlite_Create_DoneD:
  assumes "sqlite_Create u i e w = (Done t, w')"
  shows "\<exists>pid now r. r = (new_task_row pid u i now)\<lparr>tk_id := seq_tasks (dbase w) + 1\<rparr> \<and> reads e r t \<and>
        dbase w' = (dbase w)\<lparr>tasks := tasks (dbase w) @ [r], seq_tasks := seq_tasks (dbase w) + 1\<rparr>"
proof -
  from assms obtain now w1 pid w2 r w3 where
    "time_now e w = (Done now, w1)" "uuid_new e w1 = (Done pid, w2)"
    "stmt (insert_task (new_task_row pid u i now)) e w2 = (Done r, w3)" "scanned r e w3 = (Done t, w')"
    by (auto simp: sqlite_Create_def elim!: bind_act_DoneD)
  then show ?thesis by (intro create_body [of w2]) (auto simp: act_simps dest: scanned_DoneD)
qed

lemma update_body:
  assumes "dbase w1 = dbase w" "stmt (update_task u p pre post (g now)) e w1 = (Done r', w2)"
    "reads e r' t" "w' = w2"
  shows "\<exists>r now. owned (dbase w) u p = Some r \<and> reads e (g now r) t \<and>
    dbase w' = (dbase w)\<lparr>tasks := update_where (owns u p) (g now) (tasks (dbase w))\<rparr>"
proof -
  from update_task_InrD [OF stmt_DoneD [OF assms(2), THEN conjunct1]] assms obtain r where
    "owned (dbase w) u p = Some r" "r' = g now r"
    "dbase w2 = (dbase w)\<lparr>tasks := update_where (owns u p) (g now) (tasks (dbase w))\<rparr>" by auto
  with assms show ?thesis by (intro exI [of _ r] exI [of _ now]) simp
qed

lemma log_body:
  assumes "dbase w1 = dbase w" "stmt (insert_task_log (new_log_row k u act oldA newA actor now)) e w1 = (Done x, w')"
  shows "\<exists>now. dbase w' = (dbase w)
    \<lparr>task_logs := task_logs (dbase w) @
       [(new_log_row k u act oldA newA actor now)\<lparr>tl_id := seq_task_logs (dbase w) + 1\<rparr>],
     seq_task_logs := seq_task_logs (dbase w) + 1\<rparr>"
  using insert_task_log_InrD [OF stmt_DoneD [OF assms(2), THEN conjunct1]] assms(1)
  by (intro exI [of _ now]) simp

lemma Store_Update_DoneD:
  assumes "Store_Update u p i e w = (Done t, w')"
  shows "\<exists>r now. owned (dbase w) u p = Some r \<and> reads e (edited i now r) t \<and>
    dbase w' = (dbase w)\<lparr>tasks := update_where (owns u p) (edited i now) (tasks (dbase w))\<rparr>"
proof -
  from assms obtain now w1 r where
    "db_now e w = (Done now, w1)"
    "stmt (update_task u p (text_error [in_title i, in_description i, in_status i]) (task_length_error i) (edited i now)) e w1 = (Done r, w')" "t = makeTask r"
    by (auto simp: Store_Update_def ret_def elim!: bind_act_DoneD)
  then show ?thesis by (intro update_body [of w1]) (auto dest: db_now_DoneD)
qed

lemma Store_Assign_DoneD:
  assumes "Store_Assign u p a e w = (Done t, w')"
  shows "\<exists>r now. owned (dbase w) u p = Some r \<and> reads e (assigned_to a now r) t \<and>
    dbase w' = (dbase w)\<lparr>tasks := update_where (owns u p) (assigned_to a now) (tasks (dbase w))\<rparr>"
proof -
  from assms obtain now w1 r where
    "db_now e w = (Done now, w1)"
    "stmt (update_task u p (\<lambda>_. None) (assignee_error a) (assigned_to a now)) e w1 = (Done r, w')" "t = makeTask r"
    by (auto simp: Store_Assign_def ret_def elim!: bind_act_DoneD)
  then show ?thesis by (intro update_body [of w1]) (auto dest: db_now_DoneD)
qed

lemma sqlite_Update_DoneD:
  assumes "sqlite_Update u p i e w = (Done t, w')"
  shows "\<exists>r now. owned (dbase w) u p = Some r \<and> reads e (edited i now r) t \<and>
    dbase w' = (dbase w)\<lparr>tasks := update_where (owns u p) (edited i now) (tasks (dbase w))\<rparr>"
proof -
  from assms obtain now w1 r w2 where
    "time_now e w = (Done now, w1)"
    "stmt (update_task u p (\<lambda>_. None) (\<lambda>_ _. None) (edited i now)) e w1 = (Done r, w2)" "scanned r e w2 = (Done t, w')"
    by (auto simp: sqlite_Update_def elim!: bind_act_DoneD)
  then show ?thesis by (intro update_body [of w1]) (auto simp: act_simps dest: scanned_DoneD)
qed

lemma sqlite_Assign_DoneD:
  assumes "sqlite_Assign u p a e w = (Done t, w')"
  shows "\<exists>r now. owned (dbase w) u p = Some r \<and> reads e (assigned_to a now r) t \<and>
    dbase w' = (dbase w)\<lparr>tasks := update_where (owns u p) (assigned_to a now) (tasks (dbase w))\<rparr>"
proof -
  from assms obtain now w1 r w2 where
    "time_now e w = (Done now, w1)"
    "stmt (update_task u p (\<lambda>_. None) (assignee_error a) (assigned_to a now)) e w1 = (Done r, w2)" "scanned r e w2 = (Done t, w')"
    by (auto simp: sqlite_Assign_def elim!: bind_act_DoneD)
  then show ?thesis by (intro update_body [of w1]) (auto simp: act_simps dest: scanned_DoneD)
qed

interpretation pg_store: task_contract Store
proof
  fix u p e w t w'
  assume "st_FindTx Store u p e w = (Done t, w')"
  then show "dbase w' = dbase w \<and> (\<exists>r. owned (dbase w) u p = Some r \<and> reads e r t)"
    by (auto simp: Store_def Store_find_def act_simps elim!: bind_act_DoneD dest!: select_task_DoneD)
next
  fix u p e w res w'
  assume o: "owned (dbase w) u p = None" and run: "st_FindTx Store u p e w = (res, w')"
  obtain res1 w1 where m: "map_error (row_error ''Task not found'' ''Failed to find task'' ''find task'') (select_task u p) e w = (res1, w1)"
    by fastforce
  have "dbase w1 = dbase w \<and> missing e res1"
    by (rule find_missing_map_error [OF m]) (rule select_task_missing [OF o])
  then obtain err where "res1 = Fail_with err" "dbase w1 = dbase w \<and> missing e res1" by (auto simp: missing_def)
  with m run show "dbase w' = dbase w \<and> missing e res"
    by (auto simp: Store_def Store_find_def bind_act_def missing_def)
next
  show "st_Find Store = st_FindTx Store" by (simp add: Store_def)
next
  fix u f e w ts w'
  assume "st_List Store u f e w = (Done ts, w')"
  then show "dbase w' = dbase w \<and> newest_first ts \<and> length ts \<le> 100 \<and>
      (\<forall>t \<in> set ts. \<exists>r \<in> set (tasks (dbase w)). reads e r t \<and> tk_user r = u \<and>
         (lf_status f \<noteq> [] \<longrightarrow> tk_status r = lf_status f))"
    using Store_List_DoneD by (simp add: Store_def)
next
  fix u i e w t w'
  assume "st_Create Store u i e w = (Done t, w')"
  then show "\<exists>pid now r. r = (new_task_row pid u i now)\<lparr>tk_id := seq_tasks (dbase w) + 1\<rparr> \<and> reads e r t \<and>
        dbase w' = (dbase w)\<lparr>tasks := tasks (dbase w) @ [r], seq_tasks := seq_tasks (dbase w) + 1\<rparr>"
    using Store_Create_DoneD by (simp add: Store_def)
next
  fix u p i e w t w'
  assume "st_Update Store u p i e w = (Done t, w')"
  then show "\<exists>r now. owned (dbase w) u p = Some r \<and> reads e (edited i now r) t \<and>
        dbase w' = (dbase w)\<lparr>tasks := update_where (owns u p) (edited i now) (tasks (dbase w))\<rparr>"
    using Store_Update_DoneD by (simp add: Store_def)
next
  fix u p e w x w'
  assume "st_Delete Store u p e w = (Done x, w')"
  then show "owned (dbase w) u p \<noteq> None \<and>
      dbase w' = (dbase w)\<lparr>tasks := delete_where (owns u p) (tasks (dbase w)),
        task_logs := delete_where (\<lambda>l. tl_task l \<in> set (map tk_id (filter (owns u p) (tasks (dbase w))))) (task_logs (dbase w))\<rparr>"
    using deleted_count_DoneD by (simp add: Store_def Store_Delete_def)
next
  fix a e w x w'
  assume "st_AssertActiveUser Store a e w = (Done x, w')"
  then show "dbase w' = dbase w \<and> active_user (dbase w) a"
    unfolding Store_def task_store.simps Store_AssertActiveUser_def by (rule assert_active_DoneD)
next
  fix u p a e w t w'
  assume "st_Assign Store u p a e w = (Done t, w')"
  then show "\<exists>r now. owned (dbase w) u p = Some r \<and> reads e (assigned_to a now r) t \<and>
        dbase w' = (dbase w)\<lparr>tasks := update_where (owns u p) (assigned_to a now) (tasks (dbase w))\<rparr>"
    using Store_Assign_DoneD by (simp add: Store_def)
next
  fix k u act oldA newA actor e w x w'
  assume "st_InsertLog Store k u act oldA newA actor e w = (Done x, w')"
  then show "\<exists>now. dbase w' = (dbase w)
        \<lparr>task_logs := task_logs (dbase w) @
           [(new_log_row k u act oldA newA actor now)\<lparr>tl_id := seq_task_logs (dbase w) + 1\<rparr>],
         seq_task_logs := seq_task_logs (dbase w) + 1\<rparr>"
    by (auto simp: Store_def Store_InsertLog_def elim!: bind_act_DoneD dest!: db_now_DoneD dest: log_body)
qed

interpretation sqlite_store: task_contract sqliteStore
proof
  fix u p e w t w'
  assume "st_FindTx sqliteStore u p e w = (Done t, w')"
  then show "dbase w' = dbase w \<and> (\<exists>r. owned (dbase w) u p = Some r \<and> reads e r t)"
    by (auto simp: sqliteStore_def sqlite_find_def elim!: bind_act_DoneD dest!: select_task_DoneD scanned_DoneD)
next
  fix u p e w res w'
  assume o: "owned (dbase w) u p = None" and run: "st_FindTx sqliteStore u p e w = (res, w')"
  from run have m: "map_error (row_error ''Task not found'' ''Failed to find task'' ''find task'')
      (bind_act (select_task u p) scanned) e w = (res, w')"
    by (simp add: sqliteStore_def sqlite_find_def)
  show "dbase w' = dbase w \<and> missing e res"
    by (rule find_missing_map_error [OF m]) (rule bind_select_missing [OF o])
next
  show "st_Find sqliteStore = st_FindTx sqliteStore" by (simp add: sqliteStore_def)
next
  fix u f e w ts w'
  assume "st_List sqliteStore u f e w = (Done ts, w')"
  then show "dbase w' = dbase w \<and> newest_first ts \<and> length ts \<le> 100 \<and>
      (\<forall>t \<in> set ts. \<exists>r \<in> set (tasks (dbase w)). reads e r t \<and> tk_user r = u \<and>
         (lf_status f \<noteq> [] \<longrightarrow> tk_status r = lf_status f))"
    using sqlite_List_DoneD by (simp add: sqliteStore_def)
next
  fix u i e w t w'
  assume "st_Create sqliteStore u i e w = (Done t, w')"
  then show "\<exists>pid now r. r = (new_task_row pid u i now)\<lparr>tk_id := seq_tasks (dbase w) + 1\<rparr> \<and> reads e r t \<and>
        dbase w' = (dbase w)\<lparr>tasks := tasks (dbase w) @ [r], seq_tasks := seq_tasks (dbase w) + 1\<rparr>"
    using sqlite_Create_DoneD by (simp add: sqliteStore_def)
next
  fix u p i e w t w'
  assume "st_Update sqliteStore u p i e w = (Done t, w')"
  then show "\<exists>r now. owned (dbase w) u p = Some r \<and> reads e (edited i now r) t \<and>
        dbase w' = (dbase w)\<lparr>tasks := update_where (owns u p) (edited i now) (tasks (dbase w))\<rparr>"
    using sqlite_Update_DoneD by (simp add: sqliteStore_def)
next
  fix u p e w x w'
  assume "st_Delete sqliteStore u p e w = (Done x, w')"
  then show "owned (dbase w) u p \<noteq> None \<and>
      dbase w' = (dbase w)\<lparr>tasks := delete_where (owns u p) (tasks (dbase w)),
        task_logs := delete_where (\<lambda>l. tl_task l \<in> set (map tk_id (filter (owns u p) (tasks (dbase w))))) (task_logs (dbase w))\<rparr>"
    using deleted_count_DoneD by (simp add: sqliteStore_def sqlite_Delete_def)
next
  fix a e w x w'
  assume "st_AssertActiveUser sqliteStore a e w = (Done x, w')"
  then show "dbase w' = dbase w \<and> active_user (dbase w) a"
    unfolding sqliteStore_def task_store.simps sqlite_AssertActiveUser_def by (rule assert_active_DoneD)
next
  fix u p a e w t w'
  assume "st_Assign sqliteStore u p a e w = (Done t, w')"
  then show "\<exists>r now. owned (dbase w) u p = Some r \<and> reads e (assigned_to a now r) t \<and>
        dbase w' = (dbase w)\<lparr>tasks := update_where (owns u p) (assigned_to a now) (tasks (dbase w))\<rparr>"
    using sqlite_Assign_DoneD by (simp add: sqliteStore_def)
next
  fix k u act oldA newA actor e w x w'
  assume "st_InsertLog sqliteStore k u act oldA newA actor e w = (Done x, w')"
  then show "\<exists>now. dbase w' = (dbase w)
        \<lparr>task_logs := task_logs (dbase w) @
           [(new_log_row k u act oldA newA actor now)\<lparr>tl_id := seq_task_logs (dbase w) + 1\<rparr>],
         seq_task_logs := seq_task_logs (dbase w) + 1\<rparr>"
    using log_body [of "tick w" w k u act oldA newA actor "clock e (ticks w)"]
    by (simp add: sqliteStore_def sqlite_InsertLog_def bind_act_def act_simps)
qed

end
