(* ===== verification/Task_Search.thy ===== *)
theory Task_Search
  imports Task_Store
begin

text \<open>
  The search of the task list: \<open>escapeLike\<close> makes of any search text a pattern that matches it
  literally, so a search is a test for a substring of characters, whatever \<open>%\<close>, \<open>_\<close> or backslash
  it holds.
\<close>

section \<open>Runes\<close>

definition is_rune :: "string \<Rightarrow> bool" where
  "is_rune r \<longleftrightarrow> rune_len r = Some (length r)"

lemma rune_len_bounds: "rune_len s = Some n \<Longrightarrow> 0 < n \<and> n \<le> length s"
  by (auto simp: rune_len_def split: list.splits if_splits)

lemma rune_len_take:
  assumes a: "rune_len s = Some n"
  shows "rune_len (take n s @ t) = Some n"
proof -
  have len: "n \<le> length s" using rune_len_bounds [OF a] by simp
  from a have "n = 1 \<or> n = 2 \<or> n = 3 \<or> n = 4"
    by (auto simp: rune_len_def split: list.splits if_splits)
  then show ?thesis
  proof (elim disjE)
    assume n: "n = 1"
    with len obtain c cs where s: "s = c # cs" by (cases s) auto
    from a n show ?thesis unfolding s by (simp add: rune_len_def split: if_splits)
  next
    assume n: "n = 2"
    with len obtain c d cs where s: "s = c # d # cs" by (cases s; cases "tl s") auto
    from a n show ?thesis unfolding s by (simp add: rune_len_def split: if_splits)
  next
    assume n: "n = 3"
    with len obtain c d f cs where s: "s = c # d # f # cs"
      by (cases s; cases "tl s"; cases "tl (tl s)") auto
    from a n show ?thesis unfolding s by (simp add: rune_len_def split: if_splits)
  next
    assume n: "n = 4"
    with len obtain c d f g cs where s: "s = c # d # f # g # cs"
      by (cases s; cases "tl s"; cases "tl (tl s)"; cases "tl (tl (tl s))") auto
    from a n show ?thesis unfolding s by (simp add: rune_len_def split: if_splits)
  qed
qed

lemma is_rune_append: "is_rune r \<Longrightarrow> rune_len (r @ t) = Some (length r)"
  using rune_len_take [of r "length r" t] by (simp add: is_rune_def)

lemma is_rune_not_Nil: "is_rune r \<Longrightarrow> r \<noteq> []"
  by (auto simp: is_rune_def rune_len_def)

lemma runes_concat: "list_all is_rune rs \<Longrightarrow> runes (concat rs) = rs"
proof (induction rs)
  case (Cons r rs)
  then have "r \<noteq> []" "rune_len (r @ concat rs) = Some (length r)"
    by (simp_all add: is_rune_not_Nil is_rune_append)
  then show ?case using Cons by (simp add: runes.simps [of "r @ concat rs"])
qed simp

lemma is_rune_error: "is_rune rune_error"
  by (simp add: is_rune_def rune_error_def rune_len_def cont_byte_def)

lemma runes_are_runes: "list_all is_rune (runes s)"
proof (induction s rule: runes.induct)
  case (1 s)
  show ?case
  proof (cases "s = []")
    case False
    show ?thesis
    proof (cases "rune_len s")
      case None
      have "list_all is_rune (runes (drop 1 s))" using 1 False None by blast
      with None False show ?thesis by (simp add: runes.simps [of s] is_rune_error)
    next
      case (Some n)
      with rune_len_take [OF Some, of "[]"] rune_len_bounds [OF Some] have "is_rune (take n s)"
        by (simp add: is_rune_def)
      moreover have "list_all is_rune (runes (drop n s))" using 1 False Some by blast
      ultimately show ?thesis using False Some by (simp add: runes.simps [of s])
    qed
  qed simp
qed

section \<open>Literal patterns\<close>

lemma escape_runes_are_runes: "list_all is_rune rs \<Longrightarrow> list_all is_rune (concat (map escape_rune rs))"
  by (induction rs) (auto simp: escape_rune_def is_rune_def backslash_def)

lemma runes_search_pattern:
  "runes (search_pattern s) = ''%'' # concat (map escape_rune (runes s)) @ [''%'']"
proof -
  have "list_all is_rune (''%'' # concat (map escape_rune (runes s)) @ [''%''])"
    using escape_runes_are_runes [OF runes_are_runes [of s]] by (simp add: is_rune_def)
  then have "runes (concat (''%'' # concat (map escape_rune (runes s)) @ [''%''])) =
      ''%'' # concat (map escape_rune (runes s)) @ [''%'']"
    by (rule runes_concat)
  then show ?thesis by (simp add: search_pattern_def escapeLike_def)
qed

lemma like_all: "like_match [''%''] t = Some True"
  by (induction t) (auto simp: backslash_def)

lemma like_literal:
  "like_match (concat (map escape_rune rs) @ ps) t =
    (if take (length rs) t = rs then like_match ps (drop (length rs) t) else Some False)"
proof (induction rs arbitrary: t)
  case (Cons r rs)
  show ?case
  proof (cases t)
    case Nil
    then show ?thesis by (simp add: escape_rune_def backslash_def split: list.split)
  next
    case (Cons c cs)
    then show ?thesis using Cons.IH [of cs] by (auto simp: escape_rune_def backslash_def)
  qed
qed simp

lemma like_substring:
  "like_match (''%'' # concat (map escape_rune rs) @ [''%'']) t = Some (\<exists>u v. t = u @ rs @ v)"
proof (induction t)
  case Nil
  show ?case using like_literal [of rs "[''%'']" "[]"] by (auto simp: backslash_def like_all)
next
  case (Cons c cs)
  have step: "(\<exists>u v. c # cs = u @ rs @ v) \<longleftrightarrow> take (length rs) (c # cs) = rs \<or> (\<exists>u v. cs = u @ rs @ v)"
  proof
    assume "\<exists>u v. c # cs = u @ rs @ v"
    then obtain u v where e: "c # cs = u @ rs @ v" by blast
    show "take (length rs) (c # cs) = rs \<or> (\<exists>u v. cs = u @ rs @ v)"
    proof (cases u)
      case Nil
      with e have "take (length rs) (c # cs) = rs" by simp
      then show ?thesis ..
    next
      case (Cons d u')
      with e have "cs = u' @ rs @ v" by simp
      then show ?thesis by blast
    qed
  next
    assume "take (length rs) (c # cs) = rs \<or> (\<exists>u v. cs = u @ rs @ v)"
    then show "\<exists>u v. c # cs = u @ rs @ v"
    proof
      assume "take (length rs) (c # cs) = rs"
      then have "c # cs = [] @ rs @ drop (length rs) (c # cs)" by (metis append_Nil append_take_drop_id)
      then show ?thesis by blast
    next
      assume "\<exists>u v. cs = u @ rs @ v"
      then obtain u v where "cs = u @ rs @ v" by blast
      then have "c # cs = (c # u) @ rs @ v" by simp
      then show ?thesis by blast
    qed
  qed
  show ?case
  proof (cases "take (length rs) (c # cs) = rs")
    case True
    then have "like_match (concat (map escape_rune rs) @ [''%'']) (c # cs) = Some True"
      using like_literal [of rs "[''%'']" "c # cs"] True by (simp del: like_match.simps add: like_all)
    then show ?thesis using step True by (simp add: backslash_def)
  next
    case False
    then have "like_match (concat (map escape_rune rs) @ [''%'']) (c # cs) = Some False"
      using like_literal [of rs "[''%'']" "c # cs"] False by (simp del: like_match.simps)
    then show ?thesis using step False Cons.IH by (simp add: backslash_def)
  qed
qed

section \<open>Lower case\<close>

lemma byte_lower: "byte_of (ascii_lower_char c) = (if 65 \<le> byte_of c \<and> byte_of c \<le> (90 :: nat) then byte_of c + 32 else byte_of c)"
  by (auto simp: ascii_lower_char_def less_eq_char_def)

lemma byte_lower_ascii: "byte_of (ascii_lower_char c) < (128 :: nat) \<longleftrightarrow> byte_of c < (128 :: nat)"
  by (simp add: byte_lower)

lemma byte_lower_high: "(128 :: nat) \<le> byte_of c \<Longrightarrow> ascii_lower_char c = c"
  by (auto simp: ascii_lower_char_def less_eq_char_def)

lemma cont_lower: "128 \<le> lo \<Longrightarrow> cont_byte lo hi (byte_of (ascii_lower_char d)) = cont_byte lo hi (byte_of d)"
  by (auto simp: byte_lower cont_byte_def)

lemma rune_len_lower: "rune_len (ascii_lower s) = rune_len s"
proof (cases s)
  case (Cons c cs)
  show ?thesis
  proof (cases "byte_of c < (128 :: nat)")
    case True
    then show ?thesis by (simp add: Cons ascii_lower_def byte_lower_ascii)
  next
    case False
    then have c: "byte_of (ascii_lower_char c) = (byte_of c :: nat)" by (simp add: byte_lower_high)
    have n: "map byte_of (map ascii_lower_char cs) ! k = byte_of (ascii_lower_char (cs ! k))"
      "map byte_of cs ! k = (byte_of (cs ! k) :: nat)" if "k < length cs" for k
      using that by simp_all
    show ?thesis
      unfolding Cons rune_len_def ascii_lower_def list.map list.case c
      by (simp only: length_map n cont_lower cong: conj_cong if_cong) (simp add: n cont_lower Suc_le_eq cong: conj_cong)
  qed
qed (simp add: ascii_lower_def)

lemma length_lower [simp]: "length (ascii_lower s) = length s"
  by (simp add: ascii_lower_def)

lemma rune_error_lower: "ascii_lower rune_error = rune_error"
  by (simp add: ascii_lower_def rune_error_def ascii_lower_char_def less_eq_char_def)

lemma runes_lower: "runes (ascii_lower s) = map ascii_lower (runes s)"
proof (induction s rule: runes.induct)
  case (1 s)
  show ?case
  proof (cases "s = []")
    case True
    then show ?thesis by (simp add: ascii_lower_def)
  next
    case ne: False
    then have ne': "ascii_lower s \<noteq> []" by (simp add: ascii_lower_def)
    have d: "drop n (ascii_lower s) = ascii_lower (drop n s)" "take n (ascii_lower s) = ascii_lower (take n s)" for n
      by (simp_all add: ascii_lower_def drop_map take_map)
    show ?thesis
    proof (cases "rune_len s")
      case None
      then have "runes (ascii_lower (drop 1 s)) = map ascii_lower (runes (drop 1 s))" using 1 ne by blast
      then show ?thesis
        using ne ne' None d by (simp add: runes.simps [of s] runes.simps [of "ascii_lower s"] rune_len_lower rune_error_lower)
    next
      case (Some n)
      then have "runes (ascii_lower (drop n s)) = map ascii_lower (runes (drop n s))" using 1 ne by blast
      then show ?thesis
        using ne ne' Some d by (simp add: runes.simps [of s] runes.simps [of "ascii_lower s"] rune_len_lower)
    qed
  qed
qed

lemma lower_special: "ascii_lower r = [c] \<longleftrightarrow> r = [c]" if "byte_of c < (65 :: nat) \<or> 90 < byte_of c \<and> byte_of c < (97 :: nat)"
proof
  assume l: "ascii_lower r = [c]"
  then obtain d where r: "r = [d]" "ascii_lower_char d = c"
    by (auto simp: ascii_lower_def)
  then have "byte_of (ascii_lower_char d) = (byte_of c :: nat)" by simp
  then have "byte_of d = (byte_of c :: nat)" using that by (auto simp: byte_lower split: if_splits)
  then show "r = [c]" using r by simp
next
  assume "r = [c]"
  with that show "ascii_lower r = [c]" by (auto simp: ascii_lower_def ascii_lower_char_def less_eq_char_def)
qed

lemma lower_escape: "map ascii_lower (escape_rune r) = escape_rune (ascii_lower r)"
proof -
  have "ascii_lower backslash = backslash" by (simp add: backslash_def lower_special)
  then show ?thesis
    by (simp add: escape_rune_def backslash_def lower_special)
qed

text \<open>SQLite's search: the lower-cased search text is a run of characters of the lower-cased
  title.\<close>

lemma sqlite_like_substring:
  "sqlite_like (search_pattern s) title \<longleftrightarrow>
    (\<exists>u v. runes (ascii_lower title) = u @ map ascii_lower (runes s) @ v)"
proof -
  have p: "runes (ascii_lower (search_pattern s)) =
      ''%'' # concat (map escape_rune (map ascii_lower (runes s))) @ [''%'']"
    by (simp add: runes_lower runes_search_pattern lower_special map_concat comp_def lower_escape)
  show ?thesis unfolding sqlite_like_def p like_substring by simp
qed

text \<open>
  C27 (search_is_substring). The search of the SQLite listing finds a title exactly when the search text, upper and lower
  case ASCII letters being the same, is a run of characters of it: no character of the search text
  acts as a wildcard. (Texts without NUL bytes: SQLite reads a pattern and a title up to the first one.)
\<close>

theorem search_is_substring:
  "sqlite_like (search_pattern s) title \<longleftrightarrow>
    (\<exists>u v. map ascii_lower (runes title) = u @ map ascii_lower (runes s) @ v)"
  using sqlite_like_substring by (simp add: runes_lower)

section \<open>PostgreSQL without a search\<close>

text \<open>
  Without a search \<open>ListTasks\<close> matches each title against itself as a pattern. A title of plain
  characters with a backslash at the end is a pattern that ends in the escape character.
\<close>

definition plain_rune :: "string \<Rightarrow> bool" where
  "plain_rune r \<longleftrightarrow> r \<noteq> backslash \<and> r \<noteq> ''%'' \<and> r \<noteq> ''_''"

lemma like_trailing_backslash:
  "list_all plain_rune rs \<Longrightarrow> like_match (rs @ [backslash]) (rs @ [backslash]) = None"
  by (induction rs) (auto simp: plain_rune_def)

lemma pg_list_broken:
  assumes "r \<in> set (tasks d)" "tk_user r = uid" "runes (pg_lower e (tk_title r)) = rs @ [backslash]" "list_all plain_rune rs"
    and "index_scan e d \<Longrightarrow>
      length (filter (\<lambda>x. tk_user x = uid \<and> tk_created r \<le> tk_created x) (tasks d)) \<le> nat limit + nat offset"
  shows "\<exists>err. pg_list uid None None limit offset e d = Inl err"
proof -
  let ?mine = "filter (\<lambda>r. tk_user r = uid) (tasks d)" and ?match = "pg_list_match e None None"
  define met where "met = (if index_scan e d then until_enough ?match (nat limit + nat offset) (newest_rows e ?mine) else ?mine)"
  have mine: "r \<in> set ?mine" using assms(1,2) by simp
  have "r \<in> set met"
  proof (cases "index_scan e d")
    case True
    from assms(5) [OF True] have "length (filter (\<lambda>x. tk_created r \<le> tk_created x) ?mine) \<le> nat limit + nat offset"
      by (simp add: conj_commute)
    from newest_rows_reach [OF mine this]
    have "r \<in> set (until_enough ?match (nat limit + nat offset) (newest_rows e ?mine))"
      by (rule subsetD [OF take_until_enough])
    with True show ?thesis by (simp only: met_def if_True)
  qed (use mine in \<open>simp add: met_def\<close>)
  moreover have "?match r = None"
    using assms(3) like_trailing_backslash [OF assms(4)] by (simp add: pg_list_match_def pg_ilike_def)
  ultimately have "list_ex (\<lambda>r. ?match r = None) met" by (auto simp: list_ex_iff)
  then show ?thesis by (simp add: pg_list_def met_def [symmetric] Let_def)
qed

text \<open>
  C29 (backslash_title_breaks_listing). On PostgreSQL, one task whose title ends in a backslash after characters other than
  backslash, percent sign and underscore makes the listings of its owner without status and search
  fail with an internal error: all of them when the plan matches every row of the owner, and, when it
  walks the index newest first, those whose limit and offset reach the task (every one while no other
  task of the owner is as new).
\<close>

theorem backslash_title_breaks_listing:
  assumes "r \<in> set (tasks (dbase w))" "tk_user r = uid"
    and "runes (pg_lower e (tk_title r)) = rs @ [backslash]" "list_all plain_rune rs"
    and "lf_status f = []" "lf_search f = []"
    and "index_scan e (dbase w) \<Longrightarrow>
      length (filter (\<lambda>x. tk_user x = uid \<and> tk_created r \<le> tk_created x) (tasks (dbase w))) \<le>
        nat (clamp_limit (lf_limit f)) + nat (clamp_offset (lf_offset f))"
  shows "\<exists>err. fst (Store_List uid f e w) = Fail_with err \<and> public_view fb err = (500, ''INTERNAL_ERROR'', ''Failed to list tasks'')"
proof -
  obtain err where "pg_list uid None None (clamp_limit (lf_limit f)) (clamp_offset (lf_offset f)) e (dbase w) = Inl err"
    using pg_list_broken [OF assms(1-4,7)] by blast
  with assms(5,6) show ?thesis
    by (auto simp: Store_List_def bind_act_def map_error_def stmt_def store_error_def NewAppError_def public_view_def
        HTTPStatus_def split: option.splits)
qed

definition backslash_task :: task_row where
  "backslash_task =
     \<lparr>tk_id = 1, tk_public = ''t-1'', tk_user = 1, tk_title = ''C:'' @ backslash, tk_description = [],
      tk_status = ''pending'', tk_assignee = None, tk_created = 0, tk_updated = 0\<rparr>"

theorem backslash_title_breaks_listing_witness:
  "\<exists>err. fst (Store_List 1 \<lparr>lf_status = [], lf_search = [], lf_limit = 25, lf_offset = 0\<rparr> (calm DriverPostgres)
     (start_world (sample_db\<lparr>tasks := [backslash_task]\<rparr>))) = Fail_with err \<and>
   public_view [] err = (500, ''INTERNAL_ERROR'', ''Failed to list tasks'')"
proof -
  have "runes (ascii_lower (''C:'' @ backslash)) = [''c'', '':''] @ [backslash]"
    unfolding runes_lower backslash_def
    by (simp add: runes_ascii ascii_def ascii_lower_def ascii_lower_char_def less_eq_char_def) code_simp
  then show ?thesis
    by (intro backslash_title_breaks_listing [of backslash_task _ 1 _ "[''c'', '':'']"])
      (simp_all add: backslash_task_def plain_rune_def backslash_def clamp_limit_def MaxListLimit_def)
qed

end
