(* ===== verification/Event_Bus.thy ===== *)
theory Event_Bus
  imports Http
begin

text \<open>
  The in-process event bus (\<open>internal/platform/event/bus.go\<close>): a buffered channel, a fixed
  number of workers, handlers subscribed to a type, to \<open>*\<close> or to a prefix \<open>a.b.*\<close>. The first
  part is sequential (which handlers an event reaches, what the worker makes of their errors
  and panics, what \<open>enqueue\<close> answers); the second part is the step relation of publishers,
  workers and \<open>Close\<close> running side by side.
\<close>

section \<open>Events and subscriptions\<close>

record event =
  ev_type :: string
  ev_cid :: string
  ev_user :: int
  ev_payload :: bytes

text \<open>How a handler ends. Handlers work on some state \<^typ>\<open>'s\<close> that the bus does not look at.\<close>

datatype outcome = Returns "go_error option" | Panicked

type_synonym 's subscriber = "ctx \<Rightarrow> event \<Rightarrow> 's \<Rightarrow> outcome \<times> 's"
type_synonym 's handlers = "string \<Rightarrow> 's subscriber list"

definition Subscribe :: "string \<Rightarrow> 's subscriber \<Rightarrow> 's handlers \<Rightarrow> 's handlers" where
  "Subscribe eventType h m = m(eventType := m eventType @ [h])"

text \<open>The handlers \<open>worker\<close> collects for an event: those of the type, those of \<open>*\<close>, then those of
  each proper prefix, longest first.\<close>

definition prefixes :: "string \<Rightarrow> string list" where
  "prefixes ty =
     (let parts = split_on CHR ''.'' ty
      in map (\<lambda>i. join_with ''.'' (take i parts) @ ''.*'') (rev [1 ..< length parts]))"

definition targets :: "'s handlers \<Rightarrow> string \<Rightarrow> 's subscriber list" where
  "targets m ty = m ty @ m ''*'' @ concat (map m (prefixes ty))"

text \<open>The context a handler is given.\<close>

definition handler_ctx :: "event \<Rightarrow> ctx" where
  "handler_ctx ev =
     (let c = (if ev_cid ev \<noteq> [] then WithCorrelationID background (ev_cid ev) else background)
      in if ev_user ev \<noteq> 0 then WithUserID c (ev_user ev) else c)"

definition handler_panic :: go_error where
  "handler_panic = Opaque ''event handler panic''"

text \<open>One handler: its error, or the error its recovered panic becomes.\<close>

definition handler_err :: "outcome \<Rightarrow> go_error option" where
  "handler_err out = (case out of Returns err \<Rightarrow> err | Panicked \<Rightarrow> Some handler_panic)"

definition run_handler :: "'s subscriber \<Rightarrow> event \<Rightarrow> go_error option \<Rightarrow> 's \<Rightarrow> go_error option \<times> 's" where
  "run_handler h ev firstErr s =
     (case h (handler_ctx ev) ev s of
        (out, s') \<Rightarrow> (if handler_err out \<noteq> None \<and> firstErr = None then handler_err out else firstErr, s'))"

fun run_targets :: "'s subscriber list \<Rightarrow> event \<Rightarrow> go_error option \<Rightarrow> 's \<Rightarrow> go_error option \<times> 's" where
  "run_targets [] ev firstErr s = (firstErr, s)"
| "run_targets (h # hs) ev firstErr s =
     (case run_handler h ev firstErr s of (firstErr', s') \<Rightarrow> run_targets hs ev firstErr' s')"

section \<open>The channel\<close>

definition capacity :: nat where "capacity = 1024"

text \<open>An event on its way; the reply channel of \<open>PublishAndWait\<close> is a number.\<close>

record queued =
  q_event :: event
  q_result :: "nat option"

text \<open>
  \<open>b_idle\<close> workers wait at the channel, \<open>b_busy\<close> ones are between two handlers of their event
  (the handlers still to run, the first error so far), \<open>b_exited\<close> ones have left the loop.
  \<open>b_results\<close> are the reply channels with their buffered reply, \<open>b_waiting\<close> the callers of
  \<open>PublishAndWait\<close> that have not returned, \<open>b_next\<close> the next fresh reply channel.
\<close>

record 's bus =
  b_ch :: "queued list"
  b_closed :: bool
  b_dropped :: int
  b_idle :: nat
  b_busy :: "(queued \<times> 's subscriber list \<times> go_error option) list"
  b_exited :: nat
  b_results :: "nat \<Rightarrow> go_error option option"
  b_waiting :: "nat list"
  b_next :: nat
  b_state :: 's

definition NewBus :: "int \<Rightarrow> 's \<Rightarrow> 's bus" where
  "NewBus workers s =
     \<lparr>b_ch = [], b_closed = False, b_dropped = 0, b_idle = (if workers \<le> 0 then 4 else nat workers),
      b_busy = [], b_exited = 0, b_results = (\<lambda>_. None), b_waiting = [], b_next = 0, b_state = s\<rparr>"

text \<open>The event with the missing ids taken from the publisher's context.\<close>

definition stamp :: "ctx \<Rightarrow> event \<Rightarrow> event" where
  "stamp c ev =
     (let ev1 = (if ev_cid ev = [] then ev\<lparr>ev_cid := GetCorrelationID c\<rparr> else ev)
      in if ev_user ev1 = 0 then ev1\<lparr>ev_user := GetUserID c\<rparr> else ev1)"

text \<open>
  \<open>enqueue\<close>. When the context is done and the channel has room both cases of the \<open>select\<close> are
  ready and Go takes either: \<open>pick_done\<close> says which.
\<close>

definition enqueue :: "bool \<Rightarrow> bool \<Rightarrow> ctx \<Rightarrow> queued \<Rightarrow> 's bus \<Rightarrow> bool \<times> 's bus" where
  "enqueue ctx_done pick_done c q b =
     (let q' = q\<lparr>q_event := stamp c (q_event q)\<rparr>
      in if b_closed b then (False, b)
         else if ctx_done \<and> (pick_done \<or> \<not> length (b_ch b) < capacity) then (False, b)
         else if length (b_ch b) < capacity then (True, b\<lparr>b_ch := b_ch b @ [q']\<rparr>)
         else (False, b\<lparr>b_dropped := b_dropped b + 1\<rparr>))"

definition Publish :: "bool \<Rightarrow> bool \<Rightarrow> ctx \<Rightarrow> event \<Rightarrow> 's bus \<Rightarrow> bool \<times> 's bus" where
  "Publish ctx_done pick_done c ev b = enqueue ctx_done pick_done c \<lparr>q_event = ev, q_result = None\<rparr> b"

text \<open>The first half of \<open>PublishAndWait\<close>: make the reply channel, enqueue, and wait if accepted.\<close>

definition PublishAndWait_send :: "bool \<Rightarrow> bool \<Rightarrow> ctx \<Rightarrow> event \<Rightarrow> 's bus \<Rightarrow> bool \<times> 's bus" where
  "PublishAndWait_send ctx_done pick_done c ev b =
     (let i = b_next b
      in case enqueue ctx_done pick_done c \<lparr>q_event = ev, q_result = Some i\<rparr> (b\<lparr>b_next := Suc i\<rparr>) of
           (True, b') \<Rightarrow> (True, b'\<lparr>b_waiting := b_waiting b' @ [i]\<rparr>)
         | (False, b') \<Rightarrow> (False, b'))"

text \<open>What \<open>PublishAndWait\<close> returns when the event was refused.\<close>

definition refused_error :: "go_error option \<Rightarrow> go_error" where
  "refused_error ctx_err = (case ctx_err of Some err \<Rightarrow> err | None \<Rightarrow> Opaque ''event bus unavailable'')"

definition Close :: "'s bus \<Rightarrow> 's bus" where
  "Close b = b\<lparr>b_closed := True\<rparr>"

section \<open>Which handlers an event reaches\<close>

text \<open>The specification of a pattern: the type itself, everything, or everything under a prefix.\<close>

definition matches :: "string \<Rightarrow> string \<Rightarrow> bool" where
  "matches pattern ty \<longleftrightarrow>
     pattern = ty \<or> pattern = ''*'' \<or> (\<exists>p. pattern = p @ ''.*'' \<and> has_prefix ty (p @ ''.''))"

lemma join_with_Cons: "ps \<noteq> [] \<Longrightarrow> join_with sep (p # ps) = p @ sep @ join_with sep ps"
  by (cases ps) auto

lemma join_take_drop:
  "0 < i \<Longrightarrow> i < length ps \<Longrightarrow>
    join_with [c] ps = join_with [c] (take i ps) @ c # join_with [c] (drop i ps)"
proof (induction ps arbitrary: i)
  case (Cons p ps)
  then obtain j where i: "i = Suc j" by (cases i) auto
  show ?case
  proof (cases j)
    case 0
    with Cons i show ?thesis by (auto simp: join_with_Cons)
  next
    case (Suc k)
    with Cons.prems i have "0 < j" "j < length ps" by auto
    then have "join_with [c] ps = join_with [c] (take j ps) @ c # join_with [c] (drop j ps)"
      by (rule Cons.IH)
    moreover have "ps \<noteq> []" "take j ps \<noteq> []" using \<open>0 < j\<close> \<open>j < length ps\<close> by auto
    ultimately show ?thesis by (simp add: i join_with_Cons)
  qed
qed simp

lemma split_on_append_sep:
  "split_on c (p @ c # r) = split_on c p @ split_on c r"
proof (induction p)
  case (Cons a p)
  then show ?case by (cases "split_on c p") (auto split: list.splits)
qed simp

lemma prefixes_iff:
  "x \<in> set (prefixes ty) \<longleftrightarrow> (\<exists>p. x = p @ ''.*'' \<and> has_prefix ty (p @ ''.''))"
proof
  assume "x \<in> set (prefixes ty)"
  then obtain i where i: "1 \<le> i" "i < length (split_on CHR ''.'' ty)"
    "x = join_with ''.'' (take i (split_on CHR ''.'' ty)) @ ''.*''"
    by (auto simp: prefixes_def Let_def)
  then have "ty = join_with ''.'' (take i (split_on CHR ''.'' ty)) @
      CHR ''.'' # join_with ''.'' (drop i (split_on CHR ''.'' ty))"
    using join_take_drop [of i "split_on CHR ''.'' ty" "CHR ''.''"] by simp
  then have "has_prefix ty (join_with ''.'' (take i (split_on CHR ''.'' ty)) @ ''.'')"
    unfolding has_prefix_iff by (metis append.assoc append_Cons append_Nil)
  with i show "\<exists>p. x = p @ ''.*'' \<and> has_prefix ty (p @ ''.'')" by blast
next
  assume "\<exists>p. x = p @ ''.*'' \<and> has_prefix ty (p @ ''.'')"
  then obtain p r where x: "x = p @ ''.*''" and ty: "ty = p @ CHR ''.'' # r"
    by (auto simp: has_prefix_iff)
  define i where "i = length (split_on CHR ''.'' p)"
  have s: "split_on CHR ''.'' ty = split_on CHR ''.'' p @ split_on CHR ''.'' r"
    by (simp add: ty split_on_append_sep)
  then have "1 \<le> i" "i < length (split_on CHR ''.'' ty)"
    using split_on_not_Nil [of "CHR ''.''"] by (auto simp: i_def Suc_le_eq)
  moreover have "join_with ''.'' (take i (split_on CHR ''.'' ty)) = p"
    by (simp add: s i_def)
  ultimately show "x \<in> set (prefixes ty)"
    by (force simp: prefixes_def Let_def x)
qed

lemma matches_iff: "matches pattern ty \<longleftrightarrow> pattern \<in> insert ty (insert ''*'' (set (prefixes ty)))"
  by (simp add: matches_def prefixes_iff)

lemma targets_iff: "h \<in> set (targets m ty) \<longleftrightarrow> (\<exists>pattern. matches pattern ty \<and> h \<in> set (m pattern))"
  by (auto simp: targets_def matches_iff)

text \<open>No handler runs twice for an event whose type is not itself a pattern.\<close>

lemma split_take_split:
  assumes "0 < k"
  shows "split_on c (join_with [c] (take k (split_on c s))) = take k (split_on c s)"
proof (rule split_join_with)
  show "take k (split_on c s) \<noteq> []" using assms by simp
  show "\<forall>p \<in> set (take k (split_on c s)). c \<notin> set p"
    using split_on_no_sep in_set_takeD by fast
qed

lemma inj_prefix: "inj_on (\<lambda>i. join_with [c] (take i (split_on c s)) @ r) {1 ..< length (split_on c s)}"
proof (rule inj_onI)
  fix i j
  assume i: "i \<in> {1 ..< length (split_on c s)}" and j: "j \<in> {1 ..< length (split_on c s)}"
    and eq: "join_with [c] (take i (split_on c s)) @ r = join_with [c] (take j (split_on c s)) @ r"
  from eq have e: "join_with [c] (take i (split_on c s)) = join_with [c] (take j (split_on c s))" by simp
  have "0 < i" "0 < j" using i j by auto
  then have "take i (split_on c s) = take j (split_on c s)"
    using split_take_split [of i c s] split_take_split [of j c s] e by metis
  then have "length (take i (split_on c s)) = length (take j (split_on c s))" by (rule arg_cong)
  with i j show "i = j" by simp
qed

lemma distinct_prefixes: "distinct (prefixes ty)"
  unfolding prefixes_def Let_def distinct_map using inj_prefix by simp

text \<open>The patterns an event type consults, in the order of the handlers' runs.\<close>

definition patterns :: "string \<Rightarrow> string list" where
  "patterns ty = ty # ''*'' # prefixes ty"

lemma targets_patterns: "targets m ty = concat (map m (patterns ty))"
  by (simp add: targets_def patterns_def)

lemma set_patterns: "set (patterns ty) = {p. matches p ty}"
  by (auto simp: patterns_def matches_iff)

definition plain_type :: "string \<Rightarrow> bool" where
  "plain_type ty \<longleftrightarrow> ty \<noteq> ''*'' \<and> \<not> has_prefix (rev ty) ''*.''"

lemma distinct_patterns: "plain_type ty \<Longrightarrow> distinct (patterns ty)"
  by (auto simp: patterns_def plain_type_def distinct_prefixes prefixes_iff has_prefix_iff) (metis rev_rev_ident)

text \<open>The handlers of a new bus after a sequence of \<open>Subscribe\<close> calls.\<close>

definition subscribed :: "(string \<times> 's subscriber) list \<Rightarrow> 's handlers" where
  "subscribed subs = fold (\<lambda>(pattern, h). Subscribe pattern h) subs (\<lambda>_. [])"

lemma fold_Subscribe:
  "fold (\<lambda>(pattern, h). Subscribe pattern h) subs m ty = m ty @ map snd (filter (\<lambda>s. fst s = ty) subs)"
  by (induction subs arbitrary: m) (auto simp: Subscribe_def)

lemma subscribed_order: "subscribed subs = (\<lambda>ty. map snd (filter (\<lambda>s. fst s = ty) subs))"
  by (rule ext) (simp add: subscribed_def fold_Subscribe)

section \<open>What the handlers' outcomes make\<close>

text \<open>Every handler runs, whatever the others return or panic with.\<close>

lemma run_targets_state:
  "snd (run_targets hs ev fe s) = fold (\<lambda>h s. snd (h (handler_ctx ev) ev s)) hs s"
  by (induction hs arbitrary: fe s) (auto simp: run_handler_def split: prod.splits)

lemma run_targets_keeps: "fst (run_targets hs ev (Some err) s) = Some err"
  by (induction hs arbitrary: s) (auto simp: run_handler_def split: prod.splits)

text \<open>The outcomes of the handlers, each in the state the ones before it left.\<close>

fun outcomes :: "'s subscriber list \<Rightarrow> event \<Rightarrow> 's \<Rightarrow> outcome list" where
  "outcomes [] ev s = []"
| "outcomes (h # hs) ev s = (case h (handler_ctx ev) ev s of (out, s') \<Rightarrow> out # outcomes hs ev s')"

lemma run_targets_error:
  "fst (run_targets hs ev None s) = (case filter (\<lambda>out. handler_err out \<noteq> None) (outcomes hs ev s) of
     [] \<Rightarrow> None | out # _ \<Rightarrow> handler_err out)"
proof (induction hs arbitrary: s)
  case (Cons h hs)
  obtain out s' where h: "h (handler_ctx ev) ev s = (out, s')" by fastforce
  show ?case
  proof (cases "handler_err out")
    case None
    with h Cons [of s'] show ?thesis by (simp add: run_handler_def)
  next
    case (Some err)
    with h show ?thesis by (simp add: run_handler_def run_targets_keeps)
  qed
qed simp

section \<open>Publishers and workers side by side\<close>

datatype label =
    Accepted queued
  | Refused
  | Took queued
  | Handled
  | Finished queued "go_error option"
  | Reply nat "go_error option"
  | Gave_up nat
  | Worker_exit
  | Closing

inductive bus_step :: "'s handlers \<Rightarrow> 's bus \<Rightarrow> label \<Rightarrow> 's bus \<Rightarrow> bool" for m where
  publish: "Publish cd pd c ev b = (ok, b') \<Longrightarrow>
    bus_step m b (if ok then Accepted (last (b_ch b')) else Refused) b'"
| publish_wait: "PublishAndWait_send cd pd c ev b = (ok, b') \<Longrightarrow>
    bus_step m b (if ok then Accepted (last (b_ch b')) else Refused) b'"
| take_event: "b_idle b = Suc n \<Longrightarrow> b_ch b = q # ch \<Longrightarrow>
    bus_step m b (Took q)
      (b\<lparr>b_idle := n, b_ch := ch, b_busy := b_busy b @ [(q, targets m (ev_type (q_event q)), None)]\<rparr>)"
| handle: "i < length (b_busy b) \<Longrightarrow> b_busy b ! i = (q, h # hs, fe) \<Longrightarrow>
    run_handler h (q_event q) fe (b_state b) = (fe', s') \<Longrightarrow>
    bus_step m b Handled (b\<lparr>b_busy := (b_busy b)[i := (q, hs, fe')], b_state := s'\<rparr>)"
| finish: "b_busy b = xs @ (q, [], fe) # ys \<Longrightarrow> q_result q = None \<Longrightarrow>
    bus_step m b (Finished q fe) (b\<lparr>b_busy := xs @ ys, b_idle := Suc (b_idle b)\<rparr>)"
| finish_reply: "b_busy b = xs @ (q, [], fe) # ys \<Longrightarrow> q_result q = Some k \<Longrightarrow> b_results b k = None \<Longrightarrow>
    bus_step m b (Finished q fe)
      (b\<lparr>b_busy := xs @ ys, b_idle := Suc (b_idle b), b_results := (b_results b)(k := Some fe)\<rparr>)"
| worker_exit: "b_closed b \<Longrightarrow> b_ch b = [] \<Longrightarrow> b_idle b = Suc n \<Longrightarrow>
    bus_step m b Worker_exit (b\<lparr>b_idle := n, b_exited := Suc (b_exited b)\<rparr>)"
| receive: "k \<in> set (b_waiting b) \<Longrightarrow> b_results b k = Some r \<Longrightarrow>
    bus_step m b (Reply k r)
      (b\<lparr>b_results := (b_results b)(k := None), b_waiting := removeAll k (b_waiting b)\<rparr>)"
| give_up: "k \<in> set (b_waiting b) \<Longrightarrow> bus_step m b (Gave_up k) (b\<lparr>b_waiting := removeAll k (b_waiting b)\<rparr>)"
| closing: "bus_step m b Closing (Close b)"

inductive bus_run :: "'s handlers \<Rightarrow> 's bus \<Rightarrow> label list \<Rightarrow> 's bus \<Rightarrow> bool" for m b where
  start: "bus_run m b [] b"
| more: "bus_run m b tr b1 \<Longrightarrow> bus_step m b1 l b2 \<Longrightarrow> bus_run m b (tr @ [l]) b2"

inductive_cases bus_stepE: "bus_step m b l b'"

text \<open>What a trace says of the accepted, taken and finished events.\<close>

definition accepted :: "label list \<Rightarrow> queued list" where
  "accepted tr = concat (map (\<lambda>l. case l of Accepted q \<Rightarrow> [q] | _ \<Rightarrow> []) tr)"

definition took :: "label list \<Rightarrow> queued list" where
  "took tr = concat (map (\<lambda>l. case l of Took q \<Rightarrow> [q] | _ \<Rightarrow> []) tr)"

definition finished :: "label list \<Rightarrow> queued list" where
  "finished tr = concat (map (\<lambda>l. case l of Finished q _ \<Rightarrow> [q] | _ \<Rightarrow> []) tr)"

text \<open>The reply channels that an event on its way will answer.\<close>

definition reply_ids :: "queued list \<Rightarrow> nat list" where
  "reply_ids qs = concat (map (\<lambda>q. case q_result q of None \<Rightarrow> [] | Some k \<Rightarrow> [k]) qs)"

definition in_flight :: "'s bus \<Rightarrow> nat list" where
  "in_flight b = reply_ids (b_ch b) @ reply_ids (map fst (b_busy b))"

text \<open>The invariant of a bus with \<open>n\<close> workers.\<close>

definition bus_ok :: "nat \<Rightarrow> 's bus \<Rightarrow> bool" where
  "bus_ok n b \<longleftrightarrow>
     length (b_ch b) \<le> capacity \<and>
     b_idle b + length (b_busy b) + b_exited b = n \<and>
     (b_exited b > 0 \<longrightarrow> b_closed b \<and> b_ch b = []) \<and>
     distinct (in_flight b) \<and>
     (\<forall>k \<in> set (in_flight b). k < b_next b \<and> b_results b k = None) \<and>
     (\<forall>k \<ge> b_next b. b_results b k = None)"

section \<open>Invariants of the bus\<close>

lemma reply_ids_simps [simp]:
  "reply_ids [] = []"
  "reply_ids (q # qs) = (case q_result q of None \<Rightarrow> [] | Some k \<Rightarrow> [k]) @ reply_ids qs"
  "reply_ids (xs @ ys) = reply_ids xs @ reply_ids ys"
  by (simp_all add: reply_ids_def)

lemma trace_simps [simp]:
  "accepted (tr @ [l]) = accepted tr @ (case l of Accepted q \<Rightarrow> [q] | _ \<Rightarrow> [])"
  "took (tr @ [l]) = took tr @ (case l of Took q \<Rightarrow> [q] | _ \<Rightarrow> [])"
  "finished (tr @ [l]) = finished tr @ (case l of Finished q _ \<Rightarrow> [q] | _ \<Rightarrow> [])"
  "accepted [] = []" "took [] = []" "finished [] = []"
  by (simp_all add: accepted_def took_def finished_def)

lemma trace_Cons [simp]:
  "accepted (l # tr) = (case l of Accepted q \<Rightarrow> [q] | _ \<Rightarrow> []) @ accepted tr"
  "finished (l # tr) = (case l of Finished q _ \<Rightarrow> [q] | _ \<Rightarrow> []) @ finished tr"
  by (simp_all add: accepted_def finished_def)

lemma bus_record_simps [simp]: "q_result (q\<lparr>q_event := x\<rparr>) = q_result q"
  by simp

lemma map_fst_update:
  "i < length xs \<Longrightarrow> xs ! i = (q, r) \<Longrightarrow> map fst (xs[i := (q, r')]) = map fst xs"
  by (metis fst_conv list_update_id map_update nth_map)

text \<open>What \<open>enqueue\<close> does to the bus.\<close>

lemma enqueue_cases:
  assumes "enqueue cd pd c q b = (ok, b')"
  obtains (accepted) "ok" "\<not> b_closed b" "length (b_ch b) < capacity"
      "b' = b\<lparr>b_ch := b_ch b @ [q\<lparr>q_event := stamp c (q_event q)\<rparr>]\<rparr>"
    | (dropped) "\<not> ok" "b' = b\<lparr>b_dropped := b_dropped b + 1\<rparr>" "\<not> b_closed b" "length (b_ch b) \<ge> capacity"
    | (refused) "\<not> ok" "b' = b"
proof (cases "b_closed b \<or> cd \<and> (pd \<or> \<not> length (b_ch b) < capacity)")
  case True
  then have "enqueue cd pd c q b = (False, b)"
    by (cases "b_closed b") (simp_all add: enqueue_def Let_def)
  with assms have "\<not> ok \<and> b' = b" by simp
  then show thesis using refused by simp
next
  case False
  show thesis
  proof (cases "length (b_ch b) < capacity")
    case True
    with False have "enqueue cd pd c q b = (True, b\<lparr>b_ch := b_ch b @ [q\<lparr>q_event := stamp c (q_event q)\<rparr>]\<rparr>)"
      unfolding enqueue_def Let_def by argo
    with assms False True show thesis by (intro accepted) auto
  next
    case len: False
    with False have "enqueue cd pd c q b = (False, b\<lparr>b_dropped := b_dropped b + 1\<rparr>)"
      unfolding enqueue_def Let_def by argo
    with assms False len show thesis by (intro dropped) auto
  qed
qed

lemma bus_ok_push:
  assumes ok: "bus_ok n b" and "\<not> b_closed b" "length (b_ch b) < capacity"
    and k: "\<And>k. q_result q = Some k \<Longrightarrow> k \<notin> set (in_flight b) \<and> k < b_next b \<and> b_results b k = None"
  shows "bus_ok n (b\<lparr>b_ch := b_ch b @ [q]\<rparr>)"
proof (cases "q_result q")
  case None
  then show ?thesis using assms by (simp add: bus_ok_def in_flight_def)
next
  case (Some i)
  have "set (in_flight (b\<lparr>b_ch := b_ch b @ [q]\<rparr>)) = insert i (set (in_flight b))"
    using Some by (auto simp: in_flight_def)
  moreover have "distinct (in_flight (b\<lparr>b_ch := b_ch b @ [q]\<rparr>)) = (i \<notin> set (in_flight b) \<and> distinct (in_flight b))"
    using Some by (auto simp: in_flight_def)
  ultimately show ?thesis
    using ok assms(2,3) k [OF Some] by (simp add: bus_ok_def)
qed

lemma bus_ok_enqueue:
  assumes "enqueue cd pd c q b = (ok, b')" and ok: "bus_ok n b"
    and "\<And>k. q_result q = Some k \<Longrightarrow> k \<notin> set (in_flight b) \<and> k < b_next b \<and> b_results b k = None"
  shows "bus_ok n b'"
  using assms(1)
proof (cases rule: enqueue_cases)
  case accepted
  then show ?thesis using bus_ok_push [OF ok, of "q\<lparr>q_event := stamp c (q_event q)\<rparr>"] assms(3) by simp
next
  case dropped
  then show ?thesis using ok by (simp add: bus_ok_def in_flight_def)
next
  case refused
  then show ?thesis using ok by simp
qed

lemma bus_okD:
  assumes "bus_ok n b"
  shows "k \<in> set (in_flight b) \<Longrightarrow> k < b_next b" "k \<in> set (in_flight b) \<Longrightarrow> b_results b k = None"
    "b_next b \<le> k \<Longrightarrow> b_results b k = None"
  using assms unfolding bus_ok_def by blast+

lemma bus_ok_fresh:
  assumes "bus_ok n b"
  shows "b_next b \<notin> set (in_flight b)" "b_results b (b_next b) = None"
  using bus_okD(1,3) [OF assms] by blast+

lemma bus_ok_next: "bus_ok n b \<Longrightarrow> bus_ok n (b\<lparr>b_next := Suc (b_next b)\<rparr>)"
  unfolding bus_ok_def in_flight_def by (simp add: less_SucI)

lemma bus_ok_waiting: "bus_ok n (b\<lparr>b_waiting := ws\<rparr>) = bus_ok n b"
  by (simp add: bus_ok_def in_flight_def)

lemma bus_ok_send:
  assumes send: "PublishAndWait_send cd pd c ev b = (okk, b')" and ok: "bus_ok n b"
  shows "bus_ok n b'"
proof -
  let ?b = "b\<lparr>b_next := Suc (b_next b)\<rparr>"
  obtain b1 where e: "enqueue cd pd c \<lparr>q_event = ev, q_result = Some (b_next b)\<rparr> ?b = (okk, b1)"
    and b': "b' = (if okk then b1\<lparr>b_waiting := b_waiting b1 @ [b_next b]\<rparr> else b1)"
    using send by (simp add: PublishAndWait_send_def Let_def split: prod.splits bool.splits)
  have "bus_ok n b1"
    using e bus_ok_next [OF ok]
    by (rule bus_ok_enqueue) (use bus_ok_fresh [OF ok] in \<open>simp add: in_flight_def\<close>)
  then show ?thesis by (simp add: b' bus_ok_waiting)
qed

lemma bus_ok_finish:
  assumes "b_busy b = xs @ (q, [], fe) # ys" "bus_ok n b"
    "rs = (case q_result q of None \<Rightarrow> b_results b | Some k \<Rightarrow> (b_results b)(k := Some fe))"
  shows "bus_ok n (b\<lparr>b_busy := xs @ ys, b_idle := Suc (b_idle b), b_results := rs\<rparr>)"
  using assms unfolding bus_ok_def in_flight_def by (cases "q_result q") auto

lemma bus_ok_step:
  assumes step: "bus_step m b l b'" and ok: "bus_ok n b"
  shows "bus_ok n b'"
  using step
proof (cases rule: bus_step.cases)
  case (publish cd pd c ev okk)
  then show ?thesis using ok by (auto simp: Publish_def intro: bus_ok_enqueue)
next
  case (publish_wait cd pd c ev okk)
  then show ?thesis using ok bus_ok_send by blast
next
  case (take_event k q ch)
  then show ?thesis using ok unfolding bus_ok_def in_flight_def by (auto split: option.splits)
next
  case (handle i q h hs fe fe' s')
  then show ?thesis using ok unfolding bus_ok_def in_flight_def by (simp add: map_fst_update)
next
  case (finish xs q fe ys)
  then show ?thesis using bus_ok_finish [OF _ ok, of xs q fe ys "b_results b"] by simp
next
  case (finish_reply xs q fe ys k)
  then show ?thesis using bus_ok_finish [OF _ ok, of xs q fe ys "(b_results b)(k := Some fe)"] by simp
next
  case (worker_exit k)
  then show ?thesis using ok unfolding bus_ok_def in_flight_def by simp
next
  case (receive k r)
  then show ?thesis using ok unfolding bus_ok_def in_flight_def by simp
next
  case (give_up k)
  then show ?thesis using ok unfolding bus_ok_def in_flight_def by simp
next
  case closing
  then show ?thesis using ok unfolding bus_ok_def in_flight_def Close_def by simp
qed

definition worker_count :: "int \<Rightarrow> nat" where
  "worker_count workers = (if workers \<le> 0 then 4 else nat workers)"

lemma bus_ok_NewBus: "bus_ok (worker_count workers) (NewBus workers s)"
  by (simp add: bus_ok_def NewBus_def worker_count_def in_flight_def)

lemma bus_ok_run: "bus_run m b tr b' \<Longrightarrow> bus_ok n b \<Longrightarrow> bus_ok n b'"
  by (induction rule: bus_run.induct) (auto intro: bus_ok_step)

text \<open>First in, first out; every event that was taken is with a worker or finished.\<close>

lemma bus_step_accounting:
  assumes "bus_step m b l b'" "accepted tr = took tr @ b_ch b"
    "mset (took tr) = mset (map fst (b_busy b)) + mset (finished tr)"
  shows "accepted (tr @ [l]) = took (tr @ [l]) @ b_ch b' \<and>
    mset (took (tr @ [l])) = mset (map fst (b_busy b')) + mset (finished (tr @ [l]))"
  using assms(1)
proof (cases rule: bus_step.cases)
  case (publish cd pd c ev okk)
  from publish(2) [unfolded Publish_def] show ?thesis
    by (cases rule: enqueue_cases) (use assms publish in auto)
next
  case (publish_wait cd pd c ev okk)
  obtain b1 where e: "enqueue cd pd c \<lparr>q_event = ev, q_result = Some (b_next b)\<rparr> (b\<lparr>b_next := Suc (b_next b)\<rparr>) = (okk, b1)"
    and b': "b' = (if okk then b1\<lparr>b_waiting := b_waiting b1 @ [b_next b]\<rparr> else b1)"
    using publish_wait by (auto simp: PublishAndWait_send_def Let_def split: prod.splits bool.splits)
  from e show ?thesis
    by (cases rule: enqueue_cases) (use assms publish_wait b' in auto)
next
  case (handle i q h hs fe fe' s')
  then show ?thesis using assms by (simp add: map_fst_update)
qed (use assms in \<open>auto simp: Close_def\<close>)

lemma bus_accounting:
  assumes "bus_run m (NewBus workers s) tr b"
  shows "accepted tr = took tr @ b_ch b \<and> mset (took tr) = mset (map fst (b_busy b)) + mset (finished tr)"
  using assms
proof induction
  case start
  then show ?case by (simp add: NewBus_def)
next
  case (more tr b1 l b2)
  then show ?case using bus_step_accounting by blast
qed




















section \<open>Closing drains the bus\<close>

fun by_worker :: "label \<Rightarrow> bool" where
  "by_worker (Took _) \<longleftrightarrow> True"
| "by_worker Handled \<longleftrightarrow> True"
| "by_worker (Finished _ _) \<longleftrightarrow> True"
| "by_worker Worker_exit \<longleftrightarrow> True"
| "by_worker _ \<longleftrightarrow> False"

definition drained :: "'s bus \<Rightarrow> bool" where
  "drained b \<longleftrightarrow> b_ch b = [] \<and> b_busy b = [] \<and> b_idle b = 0"

text \<open>The work left: an upper bound on the steps the workers can still make.\<close>

definition work :: "'s handlers \<Rightarrow> 's bus \<Rightarrow> nat" where
  "work m b =
     sum_list (map (\<lambda>q. length (targets m (ev_type (q_event q))) + 3) (b_ch b)) +
     sum_list (map (\<lambda>x. length (fst (snd x)) + 2) (b_busy b)) + b_idle b"

lemma worker_progress:
  assumes ok: "bus_ok n b" and n: "0 < n" and closed: "b_closed b" and left: "\<not> drained b"
  shows "\<exists>l b'. by_worker l \<and> bus_step m b l b'"
proof (cases "b_busy b")
  case (Cons x xs)
  obtain q hs fe where x: "x = (q, hs, fe)" by (cases x)
  show ?thesis
  proof (cases hs)
    case (Cons h hs')
    obtain fe' s' where "run_handler h (q_event q) fe (b_state b) = (fe', s')" by fastforce
    then have "bus_step m b Handled (b\<lparr>b_busy := (b_busy b)[0 := (q, hs', fe')], b_state := s'\<rparr>)"
      by (intro bus_step.handle) (simp_all add: \<open>b_busy b = x # xs\<close> x Cons)
    then show ?thesis using by_worker.simps(2) by blast
  next
    case Nil
    then have busy: "b_busy b = [] @ (q, [], fe) # xs" using \<open>b_busy b = x # xs\<close> x by simp
    show ?thesis
    proof (cases "q_result q")
      case None
      show ?thesis using bus_step.finish [OF busy None] by_worker.simps(3) by blast
    next
      case (Some k)
      then have "k \<in> set (in_flight b)" by (simp add: in_flight_def busy)
      then have "b_results b k = None" by (rule bus_okD(2) [OF ok])
      then show ?thesis using bus_step.finish_reply [OF busy Some] by_worker.simps(3) by blast
    qed
  qed
next
  case Nil
  have count: "b_idle b + b_exited b = n" "b_exited b > 0 \<longrightarrow> b_ch b = []"
    using ok Nil by (simp_all add: bus_ok_def)
  show ?thesis
  proof (cases "b_idle b")
    case 0
    with count n Nil left show ?thesis by (simp add: drained_def)
  next
    case (Suc k)
    show ?thesis
    proof (cases "b_ch b")
      case Nil
      show ?thesis using bus_step.worker_exit [OF closed Nil Suc] by_worker.simps(4) by blast
    next
      case (Cons q ch)
      show ?thesis using bus_step.take_event [OF Suc Cons] by_worker.simps(1) by blast
    qed
  qed
qed

lemma worker_step_work:
  assumes "bus_step m b l b'" "by_worker l"
  shows "work m b' < work m b \<and> b_closed b' = b_closed b"
  using assms(1)
proof (cases rule: bus_step.cases)
  case (handle i q h hs fe fe' s')
  then have "b_busy b = take i (b_busy b) @ (q, h # hs, fe) # drop (Suc i) (b_busy b)"
    using id_take_nth_drop [of i "b_busy b"] by simp
  then obtain xs ys where "b_busy b = xs @ (q, h # hs, fe) # ys" "length xs = i"
    using handle by (metis length_take min.absorb4)
  with handle show ?thesis by (auto simp: work_def)
qed (use assms(2) in \<open>auto simp: work_def split: if_splits\<close>)

text \<open>Steps of the workers alone.\<close>

inductive worker_run :: "'s handlers \<Rightarrow> 's bus \<Rightarrow> label list \<Rightarrow> 's bus \<Rightarrow> bool" for m b where
  idle: "worker_run m b [] b"
| work: "worker_run m b tr b1 \<Longrightarrow> bus_step m b1 l b2 \<Longrightarrow> by_worker l \<Longrightarrow> worker_run m b (tr @ [l]) b2"

lemma worker_run_bounded:
  "worker_run m b tr b' \<Longrightarrow> length tr + work m b' \<le> work m b \<and> b_closed b' = b_closed b"
proof (induction rule: worker_run.induct)
  case (work tr b1 l b2)
  then show ?case using worker_step_work [of m b1 l b2] by auto
qed simp

lemma worker_run_append: "bus_run m b0 tr b \<Longrightarrow> worker_run m b tr' b' \<Longrightarrow> bus_run m b0 (tr @ tr') b'"
proof (rotate_tac, induction rule: worker_run.induct)
  case (work tr' b1 l b2)
  then show ?case using bus_run.more [of m b0 "tr @ tr'" b1 l b2] by simp
qed simp

lemma worker_run_to_end:
  assumes "bus_ok n b" "0 < n" "b_closed b"
  shows "\<exists>tr b'. worker_run m b tr b' \<and> drained b'"
proof -
  define reach where "reach k \<longleftrightarrow> (\<exists>tr b'. worker_run m b tr b' \<and> work m b' = k)" for k
  have "reach (work m b)" unfolding reach_def using worker_run.idle by blast
  then obtain k where "reach k" and least: "\<And>j. reach j \<Longrightarrow> k \<le> j"
    by (metis LeastI Least_le)
  then obtain tr b' where run: "worker_run m b tr b'" "work m b' = k"
    unfolding reach_def by blast
  have "drained b'"
  proof (rule ccontr)
    assume "\<not> drained b'"
    have "bus_run m b tr b'" using worker_run_append [OF bus_run.start run(1)] by simp
    then have "bus_ok n b'" using assms(1) by (rule bus_ok_run)
    moreover have "b_closed b'" using worker_run_bounded [OF run(1)] assms(3) by simp
    ultimately obtain l b2 where "by_worker l" "bus_step m b' l b2"
      using worker_progress [OF _ assms(2)] \<open>\<not> drained b'\<close> by blast
    then have "worker_run m b (tr @ [l]) b2" "work m b2 < k"
      using worker_run.work [OF run(1)] worker_step_work run(2) by blast+
    then show False using least unfolding reach_def by (metis leD)
  qed
  with run show ?thesis by blast
qed

section \<open>Properties\<close>

text \<open>
  C18 (event_reaches_matching_handlers). An event is given to the handlers of the patterns that match its type (the type
  itself, \<open>*\<close>, and \<open>p.*\<close> for every prefix \<open>p.\<close> of it), pattern by pattern and, within a pattern, in
  the order of the \<open>Subscribe\<close> calls, and to no others; no pattern is consulted twice when the type
  is not itself a pattern.
\<close>

theorem event_reaches_matching_handlers:
  assumes "plain_type ty"
  shows "targets m ty = concat (map m (patterns ty)) \<and> set (patterns ty) = {p. matches p ty} \<and> distinct (patterns ty) \<and>
    targets (subscribed subs) ty = concat (map (\<lambda>p. map snd (filter (\<lambda>s. fst s = p) subs)) (patterns ty))"
  using targets_patterns set_patterns distinct_patterns [OF assms] by (simp add: targets_patterns subscribed_order)

theorem event_reaches_matching_handlers_witness:
  "distinct (patterns ''task.created'') \<and> ''task.*'' \<in> set (patterns ''task.created'')"
proof -
  have "plain_type ''task.created''" by (simp add: plain_type_def has_prefix_def)
  from event_reaches_matching_handlers [OF this] have
    "distinct (patterns ''task.created'')" "set (patterns ''task.created'') = {p. matches p ''task.created''}"
    by blast+
  moreover have "matches ''task.*'' ''task.created''"
    unfolding matches_def has_prefix_def by (intro disjI2 exI [of _ "''task''"]) simp
  ultimately show ?thesis by simp
qed

text \<open>
  The worker runs every handler of the event, each in the state the ones before it
  left, whatever they return and even if they panic; the error it reports is that of the first
  handler that failed or panicked.
\<close>

theorem handlers_all_run_first_error_kept:
  "snd (run_targets hs ev None s) = fold (\<lambda>h s. snd (h (handler_ctx ev) ev s)) hs s \<and>
   fst (run_targets hs ev None s) =
     (case filter (\<lambda>out. handler_err out \<noteq> None) (outcomes hs ev s) of [] \<Rightarrow> None | out # _ \<Rightarrow> handler_err out)"
  by (simp add: run_targets_state run_targets_error)

text \<open>
  In every state a new bus can reach, whatever publishers, workers, waiting callers and \<open>Close\<close> do:
  the channel holds at most 1024 events, no worker is lost (idle, busy and exited ones add up to
  the configured number), workers have exited only from a closed, empty bus, and no reply channel
  is answered by two events.
\<close>

theorem bus_invariant:
  assumes "bus_run m (NewBus workers s) tr b"
  shows "bus_ok (worker_count workers) b"
  by (rule bus_ok_run [OF assms bus_ok_NewBus])

definition sample_event :: event where
  "sample_event = \<lparr>ev_type = ''task.created'', ev_cid = ''c-1'', ev_user = 1, ev_payload = ''{}''\<rparr>"

definition sample_queued :: queued where
  "sample_queued = \<lparr>q_event = sample_event, q_result = None\<rparr>"

lemma sample_publish:
  "bus_run m (NewBus 2 s) [Accepted sample_queued] ((NewBus 2 s)\<lparr>b_ch := [sample_queued]\<rparr>)"
proof -
  have "Publish False False background sample_event (NewBus 2 s) = (True, (NewBus 2 s)\<lparr>b_ch := [sample_queued]\<rparr>)"
    by (simp add: Publish_def enqueue_def stamp_def sample_event_def sample_queued_def NewBus_def capacity_def Let_def)
  from bus_step.publish [OF this, of m] bus_run.more [OF bus_run.start] show ?thesis by fastforce
qed

theorem bus_invariant_witness: "bus_ok 2 ((NewBus 2 ())\<lparr>b_ch := [sample_queued]\<rparr>)"
  using bus_invariant [OF sample_publish [of "\<lambda>_. []" "()"]] by (simp add: worker_count_def)

text \<open>
  C4 (bus_first_in_first_out). Events leave the channel in the order in which they were accepted, none is lost or
  invented: the accepted events are those taken, in order, followed by those still in the channel;
  those taken are with a worker or finished.
\<close>

theorem bus_first_in_first_out:
  assumes "bus_run m (NewBus workers s) tr b"
  shows "accepted tr = took tr @ b_ch b \<and> mset (took tr) = mset (map fst (b_busy b)) + mset (finished tr)"
  by (rule bus_accounting [OF assms])

theorem bus_first_in_first_out_witness: "accepted [Accepted sample_queued] = took [Accepted sample_queued] @ [sample_queued]"
  using bus_first_in_first_out [OF sample_publish [of "\<lambda>_. []" "()"]] by simp







text \<open>
  C15 (close_drains_the_bus). Closing a bus lets its workers finish: from the closed bus they can always go on until every
  accepted event is finished and every worker has exited, and any run of theirs ends after at most
  \<open>work\<close> steps, stuck only when that is reached.
\<close>

theorem close_drains_the_bus:
  assumes "bus_run m (NewBus workers s) tr b"
  shows "(\<exists>tr' b'. worker_run m (Close b) tr' b' \<and> drained b') \<and>
    (\<forall>tr' b'. worker_run m (Close b) tr' b' \<longrightarrow>
       length tr' \<le> work m b \<and>
       (if drained b' then mset (accepted (tr @ [Closing] @ tr')) = mset (finished (tr @ [Closing] @ tr'))
        else \<exists>l b''. by_worker l \<and> bus_step m b' l b''))"
proof -
  let ?n = "worker_count workers"
  have close: "bus_run m (NewBus workers s) (tr @ [Closing]) (Close b)"
    using bus_run.more [OF assms bus_step.closing] .
  have n: "0 < ?n" by (simp add: worker_count_def)
  have ok: "bus_ok ?n (Close b)" by (rule bus_ok_run [OF close bus_ok_NewBus])
  have closed: "b_closed (Close b)" and same: "work m (Close b) = work m b" by (simp_all add: Close_def work_def)
  have "length tr' \<le> work m b \<and>
       (if drained b' then mset (accepted (tr @ [Closing] @ tr')) = mset (finished (tr @ [Closing] @ tr'))
        else \<exists>l b''. by_worker l \<and> bus_step m b' l b'')" if run: "worker_run m (Close b) tr' b'" for tr' b'
  proof -
    have b: "length tr' + work m b' \<le> work m b" "b_closed b'" using worker_run_bounded [OF run] same closed by simp_all
    have r: "bus_run m (NewBus workers s) ((tr @ [Closing]) @ tr') b'" using close run by (rule worker_run_append)
    then have "bus_ok ?n b'" using bus_ok_NewBus by (rule bus_ok_run)
    with worker_progress [OF _ n b(2), of m] bus_accounting [OF r] b(1) show ?thesis by (auto simp: drained_def)
  qed
  with worker_run_to_end [OF ok n closed, of m] show ?thesis by blast
qed

theorem close_drains_the_bus_witness:
  "\<exists>tr' b'. worker_run (\<lambda>_. []) (Close ((NewBus 2 ())\<lparr>b_ch := [sample_queued]\<rparr>)) tr' b' \<and> drained b' \<and>
     finished tr' = [sample_queued]"
proof -
  let ?b = "(NewBus 2 ())\<lparr>b_ch := [sample_queued]\<rparr>"
  note c = close_drains_the_bus [OF sample_publish [of "\<lambda>_. []" "()"]]
  from c [THEN conjunct1] obtain tr' b' where r: "worker_run (\<lambda>_. []) (Close ?b) tr' b'" "drained b'" by blast
  with c [THEN conjunct2, rule_format, OF r(1)] have "mset (accepted ([Accepted sample_queued] @ [Closing] @ tr')) = mset (finished ([Accepted sample_queued] @ [Closing] @ tr'))"
    by (simp only: if_True)
  moreover have "accepted tr' = []"
  proof -
    have "\<forall>l \<in> set tr'. by_worker l" using r(1) by (induction rule: worker_run.induct) auto
    then show ?thesis by (induction tr') (auto split: label.splits)
  qed
  ultimately have "mset (finished tr') = {#sample_queued#}" by simp
  with r show ?thesis by (metis mset_single_iff_right)
qed

end
