(* ===== verification/Redact.thy ===== *)
theory Redact
  imports Json
begin

text \<open>
  Redaction of JSON documents (\<open>pkg/slogx/redact.go\<close>): the values under sensitive keys become
  the mask, at any depth. It guards the audit log and the outbox. \<open>lower\<close> is
  \<open>strings.ToLower\<close>; a Go map is an association list (its order is not observable: the
  document that is written back has its keys sorted).
\<close>

definition DefaultMask :: string where
  "DefaultMask = ''[REDACTED]''"

definition DefaultSensitiveKeys :: "string list" where
  "DefaultSensitiveKeys =
     [''password'', ''passwd'', ''pass'', ''password_confirmation'', ''confirm_password'', ''password_hash'',
      ''token'', ''token_hash'', ''access_token'', ''refresh_token'', ''auth_token'',
      ''api_key'', ''apikey'', ''secret'', ''api_secret'', ''client_secret'',
      ''jwt'', ''jwt_secret'', ''authorization'', ''bearer'', ''cookie'',
      ''session_id'', ''session_token'', ''private_key'', ''public_key'',
      ''otp'', ''verification_code'', ''passphrase'',
      ''ssn'', ''credit_card'', ''card_number'', ''cvv'',
      ''connection_string'', ''database_url'', ''db_url'',
      ''aws_access_key_id'', ''aws_secret_access_key'', ''aws_session_token'']"

definition keySet :: "(string \<Rightarrow> string) \<Rightarrow> string list \<Rightarrow> string list \<Rightarrow> string set" where
  "keySet lower keys extra = set (map lower (keys @ extra))"

definition defaultSensitiveSet :: "(string \<Rightarrow> string) \<Rightarrow> string set" where
  "defaultSensitiveSet lower = keySet lower DefaultSensitiveKeys []"

text \<open>
  \<open>redactMap\<close>, \<open>redactSlice\<close> and \<open>redactValue\<close>. The last returns \<open>(nil, false)\<close> on anything but
  a map or a slice, and the callers then keep the value.
\<close>

fun redactValue :: "(string \<Rightarrow> string) \<Rightarrow> string set \<Rightarrow> json \<Rightarrow> json option" where
  "redactValue lower ks (JObj kvs) =
     Some (JObj (map (\<lambda>kv. (fst kv,
       if lower (fst kv) \<in> ks then JStr DefaultMask
       else (case redactValue lower ks (snd kv) of Some v \<Rightarrow> v | None \<Rightarrow> snd kv))) kvs))"
| "redactValue lower ks (JArr js) =
     Some (JArr (map (\<lambda>j. case redactValue lower ks j of Some v \<Rightarrow> v | None \<Rightarrow> j) js))"
| "redactValue lower ks _ = None"

definition redactMap :: "(string \<Rightarrow> string) \<Rightarrow> string set \<Rightarrow> (string \<times> json) list \<Rightarrow> (string \<times> json) list" where
  "redactMap lower ks m =
     map (\<lambda>kv. (fst kv,
       if lower (fst kv) \<in> ks then JStr DefaultMask
       else (case redactValue lower ks (snd kv) of Some v \<Rightarrow> v | None \<Rightarrow> snd kv))) m"

definition redactSlice :: "(string \<Rightarrow> string) \<Rightarrow> string set \<Rightarrow> json list \<Rightarrow> json list" where
  "redactSlice lower ks js = map (\<lambda>j. case redactValue lower ks j of Some v \<Rightarrow> v | None \<Rightarrow> j) js"

definition RedactMap :: "(string \<Rightarrow> string) \<Rightarrow> (string \<times> json) list \<Rightarrow> (string \<times> json) list" where
  "RedactMap lower m = redactMap lower (defaultSensitiveSet lower) m"

text \<open>
  The input of \<open>RedactJSON\<close>: no bytes, the text of a document, or text that is not JSON. An
  object or array is read into maps and slices, redacted and written back; other documents come
  back as they are. Broken text and a document that \<open>json.Unmarshal\<close> cannot store in an \<open>any\<close> come
  back as they are too, with an error.
\<close>

datatype json_bytes = No_bytes | Json_text json | Broken_text bytes

definition bytes_of :: "json_bytes \<Rightarrow> bytes" where
  "bytes_of b = (case b of No_bytes \<Rightarrow> [] | Json_text j \<Rightarrow> render j | Broken_text t \<Rightarrow> t)"

definition RedactJSON :: "(string \<Rightarrow> string) \<Rightarrow> json_bytes \<Rightarrow> json_bytes \<times> bool" where
  "RedactJSON lower b =
     (case b of
        No_bytes \<Rightarrow> (b, True)
      | Broken_text t \<Rightarrow> (b, False)
      | Json_text j \<Rightarrow>
          if \<not> readable max_nesting j then (b, False)
          else (case redactValue lower (defaultSensitiveSet lower) (any_of j) of
             None \<Rightarrow> (b, True)
           | Some r \<Rightarrow> (Json_text r, True)))"

section \<open>Correctness\<close>

text \<open>The value a caller goes on with.\<close>

definition redacted :: "(string \<Rightarrow> string) \<Rightarrow> string set \<Rightarrow> json \<Rightarrow> json" where
  "redacted lower ks j = (case redactValue lower ks j of Some v \<Rightarrow> v | None \<Rightarrow> j)"

lemma redacted_simps [simp]:
  "redacted lower ks (JObj kvs) = JObj (redactMap lower ks kvs)"
  "redacted lower ks (JArr js) = JArr (redactSlice lower ks js)"
  "redacted lower ks JNull = JNull" "redacted lower ks (JBool b) = JBool b"
  "redacted lower ks (JNum n) = JNum n" "redacted lower ks (JStr s) = JStr s"
  by (simp_all add: redacted_def redactMap_def redactSlice_def)

lemma redactMap_eq:
  "redactMap lower ks m =
    map (\<lambda>kv. (fst kv, if lower (fst kv) \<in> ks then JStr DefaultMask else redacted lower ks (snd kv))) m"
  by (simp add: redactMap_def redacted_def)

lemma redactSlice_eq: "redactSlice lower ks js = map (redacted lower ks) js"
  by (simp add: redactSlice_def redacted_def)

text \<open>The specification: no sensitive key of the document holds anything but the mask; the
  document keeps its shape, its keys and everything that is not under a sensitive key.\<close>

fun clean :: "(string \<Rightarrow> string) \<Rightarrow> string set \<Rightarrow> json \<Rightarrow> bool" where
  "clean lower ks (JObj kvs) \<longleftrightarrow>
     list_all (\<lambda>kv. if lower (fst kv) \<in> ks then snd kv = JStr DefaultMask else clean lower ks (snd kv)) kvs"
| "clean lower ks (JArr js) \<longleftrightarrow> list_all (clean lower ks) js"
| "clean lower ks _ \<longleftrightarrow> True"

inductive same_but_masked :: "(string \<Rightarrow> string) \<Rightarrow> string set \<Rightarrow> json \<Rightarrow> json \<Rightarrow> bool"
  for lower ks where
  same: "same_but_masked lower ks j j"
| arr: "list_all2 (same_but_masked lower ks) js js' \<Longrightarrow> same_but_masked lower ks (JArr js) (JArr js')"
| obj: "list_all2 (\<lambda>kv kv'. fst kv = fst kv' \<and>
          (if lower (fst kv) \<in> ks then snd kv' = JStr DefaultMask
           else same_but_masked lower ks (snd kv) (snd kv'))) kvs kvs' \<Longrightarrow>
        same_but_masked lower ks (JObj kvs) (JObj kvs')"

lemma clean_redacted: "clean lower ks (redacted lower ks j)"
proof (induction j)
  case (JArr js)
  then show ?case by (simp add: redactSlice_eq list_all_iff)
next
  case (JObj kvs)
  then show ?case by (auto simp: redactMap_eq list_all_iff)
qed simp_all

lemma clean_fixed: "clean lower ks j \<Longrightarrow> redacted lower ks j = j"
proof (induction j)
  case (JArr js)
  then show ?case by (auto simp: redactSlice_eq list_all_iff intro: map_idI)
next
  case (JObj kvs)
  then show ?case
    by (auto simp: redactMap_eq list_all_iff snds.simps intro!: map_idI split: if_splits)
qed simp_all

lemma redacted_idem: "redacted lower ks (redacted lower ks j) = redacted lower ks j"
  by (rule clean_fixed) (rule clean_redacted)

lemma redacted_shape: "same_but_masked lower ks j (redacted lower ks j)"
proof (induction j)
  case (JArr js)
  then show ?case
    by (auto simp: redactSlice_eq list_all2_conv_all_nth intro!: same_but_masked.arr)
next
  case (JObj kvs)
  then show ?case
    by (auto simp: redactMap_eq list_all2_conv_all_nth intro!: same_but_masked.obj)
      (metis nth_mem prod.exhaust_sel snds.intros)
qed (auto intro: same_but_masked.same)

lemma RedactJSON_text:
  "readable max_nesting j \<Longrightarrow> RedactJSON lower (Json_text j) =
    (Json_text (case any_of j of
       JObj kvs \<Rightarrow> JObj (RedactMap lower kvs)
     | JArr js \<Rightarrow> JArr (redactSlice lower (defaultSensitiveSet lower) js)
     | _ \<Rightarrow> j), True)"
  by (simp add: RedactJSON_def RedactMap_def redactMap_def redactSlice_def split: json.split)

text \<open>
  On a document it can read \<open>RedactJSON\<close> succeeds and the document it returns holds
  nothing but the mask under every key that is sensitive in any letter case, at any depth.
\<close>

lemma RedactJSON_clean:
  assumes "readable max_nesting j"
  shows "\<exists>r. RedactJSON lower (Json_text j) = (Json_text r, True) \<and> clean lower (defaultSensitiveSet lower) r"
proof -
  let ?ks = "defaultSensitiveSet lower"
  have c: "clean lower ?ks (redacted lower ?ks (any_of j))" by (rule clean_redacted)
  show ?thesis
  proof (cases "any_of j")
    case (JArr js)
    with c assms show ?thesis by (auto simp: RedactJSON_text)
  next
    case (JObj kvs)
    with c assms show ?thesis by (auto simp: RedactJSON_text RedactMap_def)
  qed (cases j; use assms in \<open>simp add: RedactJSON_text\<close>)+
qed

lemma RedactJSON_shape:
  assumes "readable max_nesting j"
  shows "\<exists>r. RedactJSON lower (Json_text j) = (Json_text r, True) \<and>
     (r = j \<or> same_but_masked lower (defaultSensitiveSet lower) (any_of j) r)"
proof (cases "any_of j")
  case (JArr js)
  with assms redacted_shape [of lower "defaultSensitiveSet lower" "any_of j"] show ?thesis by (auto simp: RedactJSON_text)
next
  case (JObj kvs)
  with assms redacted_shape [of lower "defaultSensitiveSet lower" "any_of j"] show ?thesis
    by (auto simp: RedactJSON_text RedactMap_def)
qed (use assms in \<open>auto simp: RedactJSON_text\<close>)

lemma RedactJSON_unreadable: "\<not> readable max_nesting j \<Longrightarrow> RedactJSON lower (Json_text j) = (Json_text j, False)"
  by (simp add: RedactJSON_def)

text \<open>
  C21 (redaction_complete). On a JSON document that can be read into an \<open>any\<close> (no integer beyond \<open>float64\<close>, at most 10000
  levels of nesting) \<open>RedactJSON\<close> succeeds; in what it returns every value under a sensitive key (in
  any letter case, at any depth) is the mask, and apart from these values the document is the one that
  went in as \<open>encoding/json\<close> reads it: keys sorted, the last of equal keys, integers rounded to
  \<open>float64\<close>, bytes that are not UTF-8 replaced. On any other document it returns the bytes as they
  came, with an error.
\<close>

theorem redaction_complete:
  "if readable max_nesting j
   then \<exists>r. RedactJSON lower (Json_text j) = (Json_text r, True) \<and> clean lower (defaultSensitiveSet lower) r \<and>
     (r = j \<or> same_but_masked lower (defaultSensitiveSet lower) (any_of j) r)
   else RedactJSON lower (Json_text j) = (Json_text j, False)"
  using RedactJSON_clean [of j lower] RedactJSON_shape [of j lower] RedactJSON_unreadable [of j lower] by auto

end
