(* ===== verification/Outbox.thy ===== *)
theory Outbox
  imports Event_Bus Redact
begin

text \<open>
  The transactional outbox (\<open>internal/platform/event/outbox.go\<close>): \<open>Add\<close> writes an event in the
  caller's transaction, the relay claims due events in a transaction of its own, hands each to
  the bus and records what came of it. The bus is an interface here, the locale
  \<open>event_sink\<close>.
\<close>

definition maxOutboxAttempts :: nat where "maxOutboxAttempts = 10"

section \<open>Writing events\<close>

definition new_outbox_row :: "string \<Rightarrow> bytes \<Rightarrow> string \<Rightarrow> int option \<Rightarrow> time \<Rightarrow> outbox_row" where
  "new_outbox_row ty payload cid user now =
     \<lparr>ob_id = 0, ob_user = user, ob_type = ty, ob_payload = payload, ob_cid = Some cid,
      ob_status = ''pending'', ob_attempts = 0, ob_next = Some now, ob_published = None, ob_created = now\<rparr>"

text \<open>The insert, with the constraints of \<open>outbox_events\<close>.\<close>

definition insert_outbox :: "outbox_row \<Rightarrow> env \<Rightarrow> db \<Rightarrow> go_error + unit \<times> db" where
  "insert_outbox r e d =
     (let payload = (if driver_of e = DriverPostgres then pg_jsonb e (ob_payload r) else Some (ob_payload r))
      in if driver_of e = DriverPostgres \<and> \<not> (varchar 100 (ob_type r) \<and> varchar 36 (the (ob_cid r)))
           then Inl varchar_error
         else (case payload of
           None \<Rightarrow> Inl (Opaque ''invalid input syntax for type json'')
         | Some b \<Rightarrow>
             if \<not> user_ref d (ob_user r) then Inl fk_error
             else Inr ((), d\<lparr>outbox := outbox d @ [r\<lparr>ob_id := seq_outbox d + 1, ob_payload := b\<rparr>],
                             seq_outbox := seq_outbox d + 1\<rparr>)))"

text \<open>\<open>Add\<close>; the payload is what \<open>json.Marshal\<close> makes of its argument.\<close>

definition Add :: "ctx \<Rightarrow> string \<Rightarrow> go_error + json \<Rightarrow> unit act" where
  "Add c eventType payload =
     (case payload of
        Inl err \<Rightarrow> throw (Errorf ''marshal outbox payload'' err)
      | Inr j \<Rightarrow> \<lambda>e.
          (let b = (case RedactJSON (to_lower e) (Json_text j) of
                      (clean_b, True) \<Rightarrow> bytes_of clean_b | (_, False) \<Rightarrow> render j);
               user = (if GetUserID c \<noteq> 0 then Some (GetUserID c) else None)
           in bind_act (if GetCorrelationID c = [] then uuid_new else ret (GetCorrelationID c)) (\<lambda>cid.
              bind_act (if driver_of e = DriverSQLite then time_now else db_now) (\<lambda>now.
              map_error (Errorf ''insert outbox event'')
                (stmt (insert_outbox (new_outbox_row eventType b cid user now))))) e))"

section \<open>The relay\<close>

record relay =
  rl_interval :: duration
  rl_batchSize :: nat

definition NewOutboxRelay :: "duration \<Rightarrow> relay" where
  "NewOutboxRelay interval =
     \<lparr>rl_interval = (if interval \<le> 0 then 500 * millisecond else interval), rl_batchSize = 50\<rparr>"

text \<open>\<open>outboxBackoff\<close>: the loop, then the cap.\<close>

function backoff_loop :: "int \<Rightarrow> int \<Rightarrow> duration \<Rightarrow> duration" where
  "backoff_loop i attempts backoff =
     (if i < attempts \<and> backoff < 15 * minute then backoff_loop (i + 1) attempts (backoff * 2) else backoff)"
  by pat_completeness auto
termination by (relation "measure (\<lambda>(i, attempts, _). nat (attempts - i))") auto

declare backoff_loop.simps [simp del]

definition outboxBackoff :: "int \<Rightarrow> duration" where
  "outboxBackoff attempts =
     (let backoff = backoff_loop 1 attempts (5 * second)
      in if backoff > 15 * minute then 15 * minute else backoff)"

record outbox_item =
  it_id :: int
  it_typ :: string
  it_payload :: bytes
  it_attempts :: nat
  it_cid :: "string option"
  it_user :: "int option"

definition item_of :: "outbox_row \<Rightarrow> outbox_item" where
  "item_of r = \<lparr>it_id = ob_id r, it_typ = ob_type r, it_payload = ob_payload r,
     it_attempts = ob_attempts r, it_cid = ob_cid r, it_user = ob_user r\<rparr>"

lemma it_id_item_of [simp]: "it_id (item_of r) = ob_id r"
  by (simp add: item_of_def)

text \<open>The rows of \<open>status IN (...) AND next_attempt_at <= now\<close>; NULL compares to nothing.\<close>

definition due :: "time \<Rightarrow> outbox_row \<Rightarrow> bool" where
  "due now r \<longleftrightarrow> ob_status r \<in> {''pending'', ''failed'', ''processing''} \<and>
     (case ob_next r of None \<Rightarrow> False | Some t \<Rightarrow> t \<le> now)"

definition due_rows :: "nat \<Rightarrow> time \<Rightarrow> env \<Rightarrow> db \<Rightarrow> outbox_row list" where
  "due_rows limit now e d =
     take limit (sort_key ob_created (sort_key (\<lambda>r. scan_order e (ob_id r)) (filter (due now) (outbox d))))"

definition select_due :: "nat \<Rightarrow> time \<Rightarrow> outbox_item list act" where
  "select_due limit now = stmt (\<lambda>e d. Inr (map item_of (due_rows limit now e d), d))"

definition set_outbox :: "int \<Rightarrow> (outbox_row \<Rightarrow> outbox_row) \<Rightarrow> unit act" where
  "set_outbox i f =
     stmt (\<lambda>e d. Inr ((), d\<lparr>outbox := update_where (\<lambda>r. ob_id r = i) f (outbox d)\<rparr>))"

definition claimed_row :: "time \<Rightarrow> outbox_row \<Rightarrow> outbox_row" where
  "claimed_row nextAttempt r =
     r\<lparr>ob_status := ''processing'', ob_attempts := ob_attempts r + 1, ob_next := Some nextAttempt\<rparr>"

lemma ob_id_claimed_row [simp]: "ob_id (claimed_row t r) = ob_id r"
  by (simp add: claimed_row_def)

fun mark_all :: "string \<Rightarrow> time \<Rightarrow> outbox_item list \<Rightarrow> unit act" where
  "mark_all what nextAttempt [] = ret ()"
| "mark_all what nextAttempt (it # its) =
     bind_act (map_error (Errorf what) (set_outbox (it_id it) (claimed_row nextAttempt)))
       (\<lambda>_. mark_all what nextAttempt its)"

definition claim_sqlite :: "relay \<Rightarrow> outbox_item list act" where
  "claim_sqlite r =
     ExecTx (bind_act time_now (\<lambda>now.
       bind_act (map_error (Errorf ''query pending sqlite outbox'') (select_due (rl_batchSize r) now)) (\<lambda>items.
       bind_act time_now (\<lambda>t.
       bind_act (mark_all ''mark sqlite outbox processing'' (t + 5 * minute) items) (\<lambda>_. ret items)))))"

text \<open>PostgreSQL: its own clock, and the errors of begin and of the commit of an empty batch as
  they are.\<close>

definition claim_postgres :: "relay \<Rightarrow> outbox_item list act" where
  "claim_postgres r =
     run_tx (\<lambda>err. err) (\<lambda>items err. if items = [] then err else Errorf ''commit outbox batch'' err)
       (bind_act db_now (\<lambda>now.
        bind_act (map_error (Errorf ''query pending outbox'') (select_due (rl_batchSize r) now)) (\<lambda>items.
        bind_act (mark_all ''mark outbox processing'' (now + 5 * minute) items) (\<lambda>_. ret items))))"

definition event_of :: "outbox_item \<Rightarrow> event" where
  "event_of it =
     \<lparr>ev_type = it_typ it, ev_cid = (case it_cid it of Some c \<Rightarrow> c | None \<Rightarrow> []),
      ev_user = (case it_user it of Some u \<Rightarrow> u | None \<Rightarrow> 0), ev_payload = it_payload it\<rparr>"

definition publish_ctx :: "ctx \<Rightarrow> event \<Rightarrow> ctx" where
  "publish_ctx c ev =
     (let c1 = (if ev_cid ev \<noteq> [] then WithCorrelationID c (ev_cid ev) else c)
      in if ev_user ev \<noteq> 0 then WithUserID c1 (ev_user ev) else c1)"

text \<open>The error of a status update is logged and dropped.\<close>

definition logged :: "unit act \<Rightarrow> unit act" where
  "logged m = catch m (\<lambda>_. ret ())"

type_synonym publisher = "ctx \<Rightarrow> event \<Rightarrow> unit act"

definition settle :: "outbox_item \<Rightarrow> go_error + unit \<Rightarrow> unit act" where
  "settle it res e =
     (case res of
        Inl deliveryErr \<Rightarrow>
          if maxOutboxAttempts \<le> it_attempts it + 1
          then logged (set_outbox (it_id it) (\<lambda>r. r\<lparr>ob_status := ''dead'', ob_next := None\<rparr>)) e
          else bind_act time_now (\<lambda>t. logged (set_outbox (it_id it)
            (\<lambda>r. r\<lparr>ob_status := ''failed'',
                   ob_next := Some (stored_time e (t + outboxBackoff (int (it_attempts it) + 1)))\<rparr>))) e
      | Inr _ \<Rightarrow>
          bind_act (if driver_of e = DriverSQLite then time_now else db_now) (\<lambda>t.
            logged (set_outbox (it_id it) (\<lambda>r. r\<lparr>ob_status := ''done'', ob_published := Some t\<rparr>))) e)"

definition deliver :: "publisher \<Rightarrow> ctx \<Rightarrow> outbox_item \<Rightarrow> unit act" where
  "deliver pub c it =
     (let ev = event_of it in catch (pub (publish_ctx c ev) ev) (settle it))"

fun deliver_all :: "publisher \<Rightarrow> ctx \<Rightarrow> outbox_item list \<Rightarrow> unit act" where
  "deliver_all pub c [] = ret ()"
| "deliver_all pub c (it # its) = bind_act (deliver pub c it) (\<lambda>_. deliver_all pub c its)"

definition processBatchSQLite :: "publisher \<Rightarrow> relay \<Rightarrow> ctx \<Rightarrow> unit act" where
  "processBatchSQLite pub r c = bind_act (claim_sqlite r) (deliver_all pub c)"

definition processBatchPostgres :: "publisher \<Rightarrow> relay \<Rightarrow> ctx \<Rightarrow> unit act" where
  "processBatchPostgres pub r c = bind_act (claim_postgres r) (deliver_all pub c)"

definition processBatch :: "publisher \<Rightarrow> relay \<Rightarrow> ctx \<Rightarrow> unit act" where
  "processBatch pub r c e =
     (if driver_of e = DriverSQLite then processBatchSQLite pub r c e else processBatchPostgres pub r c e)"

text \<open>\<open>Run\<close>, for as many ticks of its ticker as are given: the error of a batch is logged.\<close>

fun Run_ticks :: "nat \<Rightarrow> publisher \<Rightarrow> relay \<Rightarrow> ctx \<Rightarrow> unit act" where
  "Run_ticks 0 pub r c = ret ()"
| "Run_ticks (Suc n) pub r c = bind_act (logged (processBatch pub r c)) (\<lambda>_. Run_ticks n pub r c)"

section \<open>The delay between attempts\<close>

lemma backoff_loop_min:
  "0 < b \<Longrightarrow> min (15 * minute) (backoff_loop i n b) = min (15 * minute) (b * 2 ^ nat (n - i))"
proof (induction i n b rule: backoff_loop.induct)
  case (1 i n b)
  show ?case
  proof (cases "i < n \<and> b < 15 * minute")
    case True
    then have p: "nat (n - i) = Suc (nat (n - (i + 1)))" by arith
    have "min (15 * minute) (backoff_loop i n b) = min (15 * minute) (backoff_loop (i + 1) n (b * 2))"
      using True by (simp add: backoff_loop.simps [of i n b])
    also have "\<dots> = min (15 * minute) (b * 2 * 2 ^ nat (n - (i + 1)))"
      using "1.IH" [OF True] "1.prems" by simp
    also have "b * 2 * 2 ^ nat (n - (i + 1)) = b * 2 ^ nat (n - i)"
      unfolding p by (simp only: power_Suc mult.assoc)
    finally show ?thesis .
  next
    case False
    then have e: "backoff_loop i n b = b" by (subst backoff_loop.simps) (rule if_not_P)
    show ?thesis
    proof (cases "i < n")
      case True
      with False have "15 * minute \<le> b" by simp
      moreover have "b \<le> b * 2 ^ nat (n - i)"
        using "1.prems" by simp
      ultimately have "15 * minute \<le> b * 2 ^ nat (n - i)" by (rule order_trans)
      with \<open>15 * minute \<le> b\<close> show ?thesis unfolding e by (simp only: min_absorb1)
    qed (simp add: e)
  qed
qed

lemma outboxBackoff_eq: "outboxBackoff n = min (15 * minute) (5 * second * 2 ^ nat (n - 1))"
proof -
  have "outboxBackoff n = min (15 * minute) (backoff_loop 1 n (5 * second))"
    by (simp add: outboxBackoff_def Let_def min_def)
  then show ?thesis using backoff_loop_min [of "5 * second" 1 n] by simp
qed

lemma outboxBackoff_bounds: "5 * second \<le> outboxBackoff n \<and> outboxBackoff n \<le> 15 * minute"
proof -
  have "5 * second * 1 \<le> 5 * second * 2 ^ nat (n - 1)"
    by (intro mult_left_mono) simp_all
  then show ?thesis unfolding outboxBackoff_eq by (simp add: min_def)
qed

lemma outboxBackoff_mono: "m \<le> n \<Longrightarrow> outboxBackoff m \<le> outboxBackoff n"
proof -
  assume "m \<le> n"
  then have "nat (m - 1) \<le> nat (n - 1)" by arith
  then show ?thesis
    unfolding outboxBackoff_eq by (intro min.mono order_refl mult_left_mono power_increasing) simp_all
qed

section \<open>Rows by id\<close>

definition row_at :: "int \<Rightarrow> db \<Rightarrow> outbox_row option" where
  "row_at i d = first_row (\<lambda>r. ob_id r = i) (outbox d)"

text \<open>What the outbox promises of its ids: ascending, none above the sequence.\<close>

definition outbox_ids :: "db \<Rightarrow> bool" where
  "outbox_ids d \<longleftrightarrow>
     sorted_wrt (<) (map ob_id (outbox d)) \<and> list_all (\<lambda>i. i \<le> seq_outbox d) (map ob_id (outbox d))"

text \<open>Rows that are there stay as they are, and the ids stay in order.\<close>

definition keeps_rows :: "db \<Rightarrow> db \<Rightarrow> bool" where
  "keeps_rows d d' \<longleftrightarrow> (\<forall>i r. row_at i d = Some r \<longrightarrow> row_at i d' = Some r) \<and> (outbox_ids d \<longrightarrow> outbox_ids d')"

lemma keeps_rows_refl [simp]: "keeps_rows d d"
  by (simp add: keeps_rows_def)

lemma keeps_rows_trans: "keeps_rows d1 d2 \<Longrightarrow> keeps_rows d2 d3 \<Longrightarrow> keeps_rows d1 d3"
  by (simp add: keeps_rows_def)

lemma keeps_rows_same: "outbox d' = outbox d \<Longrightarrow> seq_outbox d' = seq_outbox d \<Longrightarrow> keeps_rows d d'"
  by (simp add: keeps_rows_def row_at_def outbox_ids_def)

lemma row_at_update:
  assumes "\<And>r. ob_id (f r) = ob_id r" "outbox d' = update_where (\<lambda>r. ob_id r = j) f (outbox d)"
  shows "row_at i d' = map_option (\<lambda>r. if i = j then f r else r) (row_at i d)"
proof -
  have "row_at i d' = map_option (\<lambda>r. if ob_id r = j then f r else r) (row_at i d)"
    unfolding row_at_def assms(2) by (rule first_row_update_where) (simp add: assms(1))
  moreover have "ob_id r = i" if "row_at i d = Some r" for r
    using that by (auto simp: row_at_def dest: first_row_SomeD)
  ultimately show ?thesis by (cases "row_at i d") auto
qed

lemma row_at_in: "row_at i d = Some r \<Longrightarrow> r \<in> set (outbox d) \<and> ob_id r = i"
  by (auto simp: row_at_def dest: first_row_SomeD)

lemma distinct_outbox_ids: "outbox_ids d \<Longrightarrow> distinct (map ob_id (outbox d))"
  unfolding outbox_ids_def by (metis strict_sorted_iff)

lemma row_at_member: "outbox_ids d \<Longrightarrow> r \<in> set (outbox d) \<Longrightarrow> row_at (ob_id r) d = Some r"
  unfolding row_at_def by (rule first_row_key) (auto dest: distinct_outbox_ids)

lemma outbox_ids_update:
  assumes "\<And>r. ob_id (f r) = ob_id r" "outbox d' = update_where p f (outbox d)" "seq_outbox d' = seq_outbox d"
  shows "outbox_ids d' = outbox_ids d"
proof -
  have "map ob_id (outbox d') = map ob_id (outbox d)"
    unfolding assms(2) by (rule map_update_where) (rule assms(1))
  then show ?thesis unfolding outbox_ids_def assms(3) by simp
qed

lemma outbox_ids_append:
  assumes "outbox_ids d" "outbox d' = outbox d @ [r\<lparr>ob_id := seq_outbox d + 1, ob_payload := b\<rparr>]"
    "seq_outbox d' = seq_outbox d + 1"
  shows "outbox_ids d'"
  using assms by (force simp: outbox_ids_def sorted_wrt_append list_all_iff)

lemma insert_outbox_InrD:
  assumes "insert_outbox r e d = Inr (u, d')"
  shows "\<exists>b. d' = d\<lparr>outbox := outbox d @ [r\<lparr>ob_id := seq_outbox d + 1, ob_payload := b\<rparr>],
                  seq_outbox := seq_outbox d + 1\<rparr> \<and> user_ref d (ob_user r) \<and>
    (if driver_of e = DriverPostgres then pg_jsonb e (ob_payload r) = Some b \<and> varchar 36 (the (ob_cid r))
     else b = ob_payload r)"
  using assms by (auto simp: insert_outbox_def Let_def split: if_splits option.splits)

lemma keeps_rows_insert:
  assumes "insert_outbox r e d = Inr (u, d')"
  shows "keeps_rows d d'"
proof -
  from insert_outbox_InrD [OF assms] obtain b where
    d': "d' = d\<lparr>outbox := outbox d @ [r\<lparr>ob_id := seq_outbox d + 1, ob_payload := b\<rparr>],
                  seq_outbox := seq_outbox d + 1\<rparr>" by blast
  then have "outbox_ids d \<Longrightarrow> outbox_ids d'" using outbox_ids_append by simp
  moreover have "row_at i d' = Some x" if "row_at i d = Some x" for i x
    using that by (simp add: row_at_def d' first_row_append)
  ultimately show ?thesis by (simp add: keeps_rows_def)
qed

lemma keeps_rows_pre: "reflp keeps_rows" "transp keeps_rows"
  using keeps_rows_trans by (auto simp: reflp_def transp_def)

text \<open>The events of a transaction are the rows \<open>Add\<close> appends.\<close>

lemma Add_bytes:
  "(case RedactJSON lower (Json_text j) of (b, True) \<Rightarrow> bytes_of b | (_, False) \<Rightarrow> render j) =
    bytes_of (fst (RedactJSON lower (Json_text j)))"
  by (cases "readable max_nesting j") (auto simp: RedactJSON_text RedactJSON_unreadable bytes_of_def)

lemma Add_DoneD:
  assumes "Add c ty payload e w = (Done u, w')"
  shows "\<exists>j cid now. payload = Inr j \<and>
    (GetCorrelationID c \<noteq> [] \<longrightarrow> cid = GetCorrelationID c) \<and>
    insert_outbox (new_outbox_row ty (bytes_of (fst (RedactJSON (to_lower e) (Json_text j)))) cid
      (if GetUserID c \<noteq> 0 then Some (GetUserID c) else None) now) e (dbase w) = Inr ((), dbase w')"
proof -
  from assms obtain j where j: "payload = Inr j" by (cases payload) (auto simp: Add_def act_simps)
  define x where "x = fst (RedactJSON (to_lower e) (Json_text j))"
  have x: "bytes_of x = (case RedactJSON (to_lower e) (Json_text j) of (b, True) \<Rightarrow> bytes_of b | (_, False) \<Rightarrow> render j)"
    by (simp add: x_def Add_bytes)
  from assms j x obtain cid w1 now w2 where
    c: "(if GetCorrelationID c = [] then uuid_new else ret (GetCorrelationID c)) e w = (Done cid, w1)"
    and n: "(if driver_of e = DriverSQLite then time_now else db_now) e w1 = (Done now, w2)"
    and s: "stmt (insert_outbox (new_outbox_row ty (bytes_of x) cid
        (if GetUserID c \<noteq> 0 then Some (GetUserID c) else None) now)) e w2 = (Done u, w')"
    by (auto simp: Add_def Let_def elim!: bind_act_DoneD)
  have "dbase w1 = dbase w \<and> (GetCorrelationID c \<noteq> [] \<longrightarrow> cid = GetCorrelationID c)"
    using c by (auto simp: act_simps split: if_splits)
  moreover have "dbase w2 = dbase w1"
    using n by (auto simp: act_simps split: if_splits dest: db_now_DoneD)
  ultimately show ?thesis
    using stmt_DoneD [OF s] j x [unfolded Add_bytes]
    by (intro exI [of _ j] exI [of _ cid] exI [of _ now]) simp
qed

lemma Add_keeps_rows: "preserves keeps_rows e (Add c ty payload)"
proof (cases payload)
  case (Inl err)
  then show ?thesis using keeps_rows_pre by (simp add: Add_def keep_intros)
next
  case (Inr j)
  show ?thesis
    unfolding Inr Add_def sum.case Let_def
    by (subst preserves_env [where m' = "bind_act _ _"], rule refl)
      (auto intro!: keep_intros keeps_rows_pre dest: keeps_rows_insert)
qed

section \<open>What one attempt does to a row\<close>

text \<open>
  The contract of the bus towards the relay: \<open>PublishAndWait\<close> returns, and whatever the
  handlers do meanwhile, the outbox rows that are there stay as they are.
\<close>

locale event_sink =
  fixes pub :: publisher
  assumes returns: "pub c ev e w \<noteq> (Panics p, w')"
    and keeps: "preserves keeps_rows e (pub c ev)"

text \<open>How the bus answered for a row.\<close>

definition delivered :: "publisher \<Rightarrow> env \<Rightarrow> ctx \<Rightarrow> outbox_item \<Rightarrow> bool" where
  "delivered pub e c it \<longleftrightarrow> (\<exists>w w'. pub (publish_ctx c (event_of it)) (event_of it) e w = (Done (), w'))"

definition undelivered :: "publisher \<Rightarrow> env \<Rightarrow> ctx \<Rightarrow> outbox_item \<Rightarrow> bool" where
  "undelivered pub e c it \<longleftrightarrow>
     (\<exists>w err w'. pub (publish_ctx c (event_of it)) (event_of it) e w = (Fail_with err, w'))"

text \<open>The rows a batch can turn a due row into. In the first case the row is delivered or not,
  but the update that should have said so failed.\<close>

inductive attempt :: "publisher \<Rightarrow> env \<Rightarrow> ctx \<Rightarrow> outbox_row \<Rightarrow> outbox_row \<Rightarrow> bool"
  for pub e c r where
  left_claimed: "failure e k = Some msg \<Longrightarrow>
    delivered pub e c (item_of r) \<or> undelivered pub e c (item_of r) \<Longrightarrow>
    attempt pub e c r (claimed_row n r)"
| confirmed: "delivered pub e c (item_of r) \<Longrightarrow>
    attempt pub e c r ((claimed_row n r)\<lparr>ob_status := ''done'', ob_published := Some t\<rparr>)"
| retry: "undelivered pub e c (item_of r) \<Longrightarrow> ob_attempts r + 1 < maxOutboxAttempts \<Longrightarrow>
    attempt pub e c r ((claimed_row n r)\<lparr>ob_status := ''failed'',
      ob_next := Some (stored_time e (t + outboxBackoff (int (ob_attempts r) + 1)))\<rparr>)"
| dead_letter: "undelivered pub e c (item_of r) \<Longrightarrow> maxOutboxAttempts \<le> ob_attempts r + 1 \<Longrightarrow>
    attempt pub e c r ((claimed_row n r)\<lparr>ob_status := ''dead'', ob_next := None\<rparr>)"

lemma attempt_keeps:
  "attempt pub e c r r' \<Longrightarrow> ob_id r' = ob_id r \<and> ob_type r' = ob_type r \<and> ob_payload r' = ob_payload r \<and>
    ob_cid r' = ob_cid r \<and> ob_user r' = ob_user r \<and> ob_created r' = ob_created r \<and>
    ob_attempts r' = ob_attempts r + 1"
  by (cases rule: attempt.cases) (auto simp: claimed_row_def)

lemma set_outbox_logged:
  assumes "logged (set_outbox i f) e w = (res, w')" "\<And>r. ob_id (f r) = ob_id r"
  shows "res = Done () \<and> (outbox_ids (dbase w') = outbox_ids (dbase w)) \<and>
    ((\<forall>j. row_at j (dbase w') = map_option (\<lambda>r. if j = i then f r else r) (row_at j (dbase w))) \<or>
     dbase w' = dbase w \<and> (\<exists>k msg. failure e k = Some msg))"
proof -
  let ?d = "(dbase w)\<lparr>outbox := update_where (\<lambda>r. ob_id r = i) f (outbox (dbase w))\<rparr>"
  have "res = Done () \<and> (dbase w' = ?d \<or> dbase w' = dbase w \<and> (\<exists>k msg. failure e k = Some msg))"
    using assms(1) by (auto simp: logged_def set_outbox_def catch_def stmt_def act_simps split: option.splits)
  moreover have "outbox_ids ?d = outbox_ids (dbase w)"
    by (rule outbox_ids_update [OF assms(2)]) simp_all
  moreover have "row_at j ?d = map_option (\<lambda>r. if j = i then f r else r) (row_at j (dbase w))" for j
    by (rule row_at_update [OF assms(2)]) simp
  ultimately show ?thesis by auto
qed

text \<open>The rows an action leaves alone, apart from one.\<close>

definition only_row :: "int \<Rightarrow> db \<Rightarrow> db \<Rightarrow> bool" where
  "only_row i d d' \<longleftrightarrow> (\<forall>j r. j \<noteq> i \<longrightarrow> row_at j d = Some r \<longrightarrow> row_at j d' = Some r) \<and>
     (outbox_ids d \<longrightarrow> outbox_ids d')"

lemma keeps_only_row: "keeps_rows d d' \<Longrightarrow> only_row i d d'"
  by (simp add: keeps_rows_def only_row_def)

lemma only_row_trans: "only_row i d1 d2 \<Longrightarrow> only_row i d2 d3 \<Longrightarrow> only_row i d1 d3"
  by (simp add: only_row_def)

lemma settle_row:
  assumes run: "settle (item_of r) res e w = (out, w')"
    and row: "row_at (ob_id r) (dbase w) = Some (claimed_row n r)"
    and res: "(\<exists>err. res = Inl err \<and> undelivered pub e c (item_of r)) \<or> res = Inr () \<and> delivered pub e c (item_of r)"
  shows "out = Done () \<and> only_row (ob_id r) (dbase w) (dbase w') \<and>
    (\<exists>r'. row_at (ob_id r) (dbase w') = Some r' \<and> attempt pub e c r r')"
proof -
  obtain f w1 where f: "logged (set_outbox (ob_id r) f) e w1 = (out, w')" "dbase w1 = dbase w"
    "\<And>x. ob_id (f x) = ob_id x" "attempt pub e c r (f (claimed_row n r))"
  proof (cases res)
    case (Inl err)
    with res have u: "undelivered pub e c (item_of r)" by auto
    show thesis
    proof (cases "maxOutboxAttempts \<le> ob_attempts r + 1")
      case True
      with Inl run show thesis
        by (intro that [of "\<lambda>r. r\<lparr>ob_status := ''dead'', ob_next := None\<rparr>" w])
          (auto simp: settle_def item_of_def intro: attempt.dead_letter [OF u])
    next
      case False
      with Inl run show thesis
        by (intro that [of "\<lambda>x. x\<lparr>ob_status := ''failed'', ob_next := Some (stored_time e
              (clock e (ticks w) + outboxBackoff (int (ob_attempts r) + 1)))\<rparr>" "tick w"])
          (auto simp: settle_def item_of_def bind_act_def act_simps intro: attempt.retry [OF u])
    qed
  next
    case (Inr x)
    with res have u: "delivered pub e c (item_of r)" by auto
    from Inr run obtain t w1 where
      "(if driver_of e = DriverSQLite then time_now else db_now) e w = (Done t, w1)"
      "logged (set_outbox (ob_id r) (\<lambda>r. r\<lparr>ob_status := ''done'', ob_published := Some t\<rparr>)) e w1 = (out, w')"
      using db_now_eval [of e w]
      by (auto simp: settle_def item_of_def bind_act_def act_simps split: if_splits)
    then show thesis
      by (intro that [of "\<lambda>r. r\<lparr>ob_status := ''done'', ob_published := Some t\<rparr>" w1])
        (auto simp: act_simps intro: attempt.confirmed [OF u] dest: db_now_DoneD split: if_splits)
  qed
  from set_outbox_logged [OF f(1,3)] f(2) have l: "out = Done ()"
    "outbox_ids (dbase w') = outbox_ids (dbase w)"
    "(\<forall>j. row_at j (dbase w') = map_option (\<lambda>x. if j = ob_id r then f x else x) (row_at j (dbase w))) \<or>
     dbase w' = dbase w \<and> (\<exists>k msg. failure e k = Some msg)" by auto
  from l(3) show ?thesis
  proof
    assume "\<forall>j. row_at j (dbase w') = map_option (\<lambda>x. if j = ob_id r then f x else x) (row_at j (dbase w))"
    then show ?thesis using l(1,2) row f(4) by (auto simp: only_row_def)
  next
    assume d: "dbase w' = dbase w \<and> (\<exists>k msg. failure e k = Some msg)"
    then have "attempt pub e c r (claimed_row n r)"
      using res attempt.left_claimed by blast
    then show ?thesis using l(1) d row by (auto simp: only_row_def)
  qed
qed

section \<open>A batch\<close>

context event_sink begin

lemma deliver_row:
  assumes run: "deliver pub c (item_of r) e w = (out, w')"
    and row: "row_at (ob_id r) (dbase w) = Some (claimed_row n r)"
  shows "out = Done () \<and> only_row (ob_id r) (dbase w) (dbase w') \<and>
    (\<exists>r'. row_at (ob_id r) (dbase w') = Some r' \<and> attempt pub e c r r')"
proof -
  let ?ev = "event_of (item_of r)"
  obtain ans w1 where p: "pub (publish_ctx c ?ev) ?ev e w = (ans, w1)" by fastforce
  with returns have np: "\<And>q. ans \<noteq> Panics q" by auto
  obtain res where res: "(\<exists>err. res = Inl err \<and> undelivered pub e c (item_of r)) \<or>
      res = Inr () \<and> delivered pub e c (item_of r)"
    and s: "settle (item_of r) res e w1 = (out, w')"
  proof (cases ans)
    case (Done u)
    with p run that [of "Inr ()"] show thesis by (auto simp: deliver_def Let_def catch_def delivered_def)
  next
    case (Fail_with err)
    with p run that [of "Inl err"] show thesis by (auto simp: deliver_def Let_def catch_def undelivered_def)
  qed (use np in blast)
  have k: "keeps_rows (dbase w) (dbase w1)" using keeps p by (rule preservesD)
  with row have "row_at (ob_id r) (dbase w1) = Some (claimed_row n r)" by (simp add: keeps_rows_def)
  from settle_row [OF s this res] k keeps_only_row only_row_trans show ?thesis by blast
qed

lemma deliver_all_rows:
  assumes "deliver_all pub c (map item_of rs) e w = (out, w')" "distinct (map ob_id rs)"
    "\<And>r. r \<in> set rs \<Longrightarrow> row_at (ob_id r) (dbase w) = Some (claimed_row n r)"
  shows "out = Done () \<and> (outbox_ids (dbase w) \<longrightarrow> outbox_ids (dbase w')) \<and>
    (\<forall>j r. j \<notin> ob_id ` set rs \<longrightarrow> row_at j (dbase w) = Some r \<longrightarrow> row_at j (dbase w') = Some r) \<and>
    (\<forall>r \<in> set rs. \<exists>r'. row_at (ob_id r) (dbase w') = Some r' \<and> attempt pub e c r r')"
  using assms
proof (induction rs arbitrary: w)
  case Nil
  then show ?case by (simp add: act_simps)
next
  case (Cons r rs)
  obtain o1 w1 where d: "deliver pub c (item_of r) e w = (o1, w1)" by fastforce
  have "row_at (ob_id r) (dbase w) = Some (claimed_row n r)" using Cons.prems(3) by simp
  from deliver_row [OF d this] obtain r' where
    1: "o1 = Done ()" "only_row (ob_id r) (dbase w) (dbase w1)" "row_at (ob_id r) (dbase w1) = Some r'"
      "attempt pub e c r r'" by blast
  from Cons.prems(1) d 1(1) have rest: "deliver_all pub c (map item_of rs) e w1 = (out, w')"
    by (simp add: bind_act_def)
  have notin: "ob_id r \<notin> ob_id ` set rs" using Cons.prems(2) by simp
  have other: "row_at j (dbase w1) = Some x" if "j \<noteq> ob_id r" "row_at j (dbase w) = Some x" for j x
    using 1(2) that unfolding only_row_def by blast
  have "row_at (ob_id x) (dbase w1) = Some (claimed_row n x)" if "x \<in> set rs" for x
  proof (rule other)
    show "ob_id x \<noteq> ob_id r" using notin that by (metis image_eqI)
    show "row_at (ob_id x) (dbase w) = Some (claimed_row n x)" using Cons.prems(3) that by simp
  qed
  moreover have "distinct (map ob_id rs)" using Cons.prems(2) by simp
  ultimately have
    2: "out = Done ()" "outbox_ids (dbase w1) \<longrightarrow> outbox_ids (dbase w')"
      "\<forall>j r. j \<notin> ob_id ` set rs \<longrightarrow> row_at j (dbase w1) = Some r \<longrightarrow> row_at j (dbase w') = Some r"
      "\<forall>r \<in> set rs. \<exists>r'. row_at (ob_id r) (dbase w') = Some r' \<and> attempt pub e c r r'"
    using Cons.IH [OF rest] by blast+
  from notin 2(3) 1(3) have "row_at (ob_id r) (dbase w') = Some r'" by blast
  then have "\<forall>x \<in> set (r # rs). \<exists>r'. row_at (ob_id x) (dbase w') = Some r' \<and> attempt pub e c x r'"
    using 1(4) 2(4) by simp
  moreover have "row_at j (dbase w') = Some x" if "j \<notin> ob_id ` set (r # rs)" "row_at j (dbase w) = Some x" for j x
    using that other [of j x] 2(3) by simp
  moreover have "outbox_ids (dbase w) \<longrightarrow> outbox_ids (dbase w')"
    using 1(2) 2(2) unfolding only_row_def by blast
  ultimately show ?case using 2(1) by blast
qed

end

lemma mark_all_rows:
  assumes "mark_all what n (map item_of rs) e w = (Done u, w')" "distinct (map ob_id rs)"
  shows "row_at j (dbase w') =
      map_option (\<lambda>r. if j \<in> ob_id ` set rs then claimed_row n r else r) (row_at j (dbase w)) \<and>
    outbox_ids (dbase w') = outbox_ids (dbase w)"
  using assms
proof (induction rs arbitrary: w)
  case Nil
  then show ?case by (simp add: act_simps map_option.identity [unfolded id_def])
next
  case (Cons r rs)
  from Cons.prems(1) obtain w1 where
    s: "set_outbox (ob_id r) (claimed_row n) e w = (Done (), w1)"
    and rest: "mark_all what n (map item_of rs) e w1 = (Done u, w')"
    by (auto elim!: bind_act_DoneD)
  from s have d: "dbase w1 = (dbase w)\<lparr>outbox := update_where (\<lambda>x. ob_id x = ob_id r) (claimed_row n) (outbox (dbase w))\<rparr>"
    unfolding set_outbox_def by (auto dest: stmt_DoneD)
  have "row_at j (dbase w1) = map_option (\<lambda>x. if j = ob_id r then claimed_row n x else x) (row_at j (dbase w))"
    by (rule row_at_update) (simp_all add: d)
  moreover have "outbox_ids (dbase w1) = outbox_ids (dbase w)"
    by (rule outbox_ids_update [of "claimed_row n"]) (simp_all add: d)
  ultimately show ?case
    using Cons.IH [OF rest] Cons.prems(2) by (cases "row_at j (dbase w)") auto
qed

lemma due_rows_in: "r \<in> set (due_rows limit now e d) \<Longrightarrow> r \<in> set (outbox d) \<and> due now r"
  by (auto simp: due_rows_def dest: in_set_takeD)

lemma distinct_due_rows: "outbox_ids d \<Longrightarrow> distinct (map ob_id (due_rows limit now e d))"
proof -
  assume "outbox_ids d"
  then have "distinct (map ob_id (outbox d))" by (rule distinct_outbox_ids)
  then have "distinct (map ob_id (filter (due now) (outbox d)))" by (rule distinct_map_filter)
  then have inj: "inj_on ob_id (set (filter (due now) (outbox d)))" "distinct (filter (due now) (outbox d))"
    by (auto simp: distinct_map)
  have "set (due_rows limit now e d) \<subseteq> set (filter (due now) (outbox d))"
    by (auto dest: due_rows_in)
  with inj have "inj_on ob_id (set (due_rows limit now e d))" by (blast intro: inj_on_subset)
  moreover have "distinct (due_rows limit now e d)" using inj(2) by (simp add: due_rows_def)
  ultimately show ?thesis by (simp add: distinct_map)
qed

text \<open>Claiming: the due rows of the batch, oldest first, are marked; no other row is touched.\<close>

definition claims :: "nat \<Rightarrow> env \<Rightarrow> time \<Rightarrow> db \<Rightarrow> outbox_item list \<Rightarrow> db \<Rightarrow> bool" where
  "claims limit e now d items d' \<longleftrightarrow>
     (\<exists>n. items = map item_of (due_rows limit now e d) \<and> (outbox_ids d' = outbox_ids d) \<and>
       (\<forall>j. row_at j d' = map_option (\<lambda>r. if j \<in> ob_id ` set (due_rows limit now e d)
                                        then claimed_row n r else r) (row_at j d)))"

lemma claim_body:
  assumes ids: "outbox_ids (dbase w)" and sel: "select_due limit now e w = (Done items, w1)"
    and same: "dbase w2 = dbase w1" and mark: "mark_all what n items e w2 = (Done u, w')"
  shows "claims limit e now (dbase w) items (dbase w')"
proof -
  let ?rs = "due_rows limit now e (dbase w)"
  from sel have i: "items = map item_of ?rs" "dbase w1 = dbase w"
    by (auto simp: select_due_def dest: stmt_DoneD)
  have "distinct (map ob_id ?rs)" using ids by (rule distinct_due_rows)
  from mark_all_rows [OF mark [unfolded i(1)] this] same i show ?thesis
    unfolding claims_def by (intro exI [of _ n]) auto
qed

text \<open>The time a batch works with: SQLite's relay reads its clock once the transaction is open,
  PostgreSQL's \<open>now()\<close> is the start of the transaction.\<close>

definition batch_time :: "env \<Rightarrow> world \<Rightarrow> time" where
  "batch_time e w =
     (if driver_of e = DriverSQLite then clock e (Suc (ticks w)) else truncate_micro (clock e (ticks w)))"

lemma claim_sqlite_DoneD:
  assumes ids: "outbox_ids (dbase w)" and run: "claim_sqlite rl e w = (Done items, w')"
    and drv: "driver_of e = DriverSQLite"
  shows "claims (rl_batchSize rl) e (batch_time e w) (dbase w) items (dbase w')"
proof -
  from run_tx_DoneD [OF run [unfolded claim_sqlite_def ExecTx_def]] obtain w2 where
    d: "dbase w' = dbase w2"
    and body: "bind_act time_now (\<lambda>now.
       bind_act (map_error (Errorf ''query pending sqlite outbox'') (select_due (rl_batchSize rl) now)) (\<lambda>items.
       bind_act time_now (\<lambda>t.
       bind_act (mark_all ''mark sqlite outbox processing'' (t + 5 * minute) items) (\<lambda>_. ret items)))) e
         ((tick w)\<lparr>tx_now := Some (clock e (ticks w))\<rparr>) = (Done items, w2)" by blast
  let ?w1 = "(tick w)\<lparr>tx_now := Some (clock e (ticks w))\<rparr>"
  from body obtain w4 t w5 u where
    s: "select_due (rl_batchSize rl) (batch_time e w) e (tick ?w1) = (Done items, w4)"
      "time_now e w4 = (Done t, w5)"
      "mark_all ''mark sqlite outbox processing'' (t + 5 * minute) items e w5 = (Done u, w2)"
    by (auto simp: act_simps batch_time_def drv elim!: bind_act_DoneD)
  have "dbase w5 = dbase w4" "dbase (tick ?w1) = dbase w" using s(2) by (auto simp: act_simps)
  with claim_body [OF _ s(1) _ s(3)] ids d show ?thesis by simp
qed

lemma claim_postgres_DoneD:
  assumes ids: "outbox_ids (dbase w)" and run: "claim_postgres rl e w = (Done items, w')"
    and drv: "driver_of e \<noteq> DriverSQLite"
  shows "claims (rl_batchSize rl) e (batch_time e w) (dbase w) items (dbase w')"
proof -
  from run_tx_DoneD [OF run [unfolded claim_postgres_def]] obtain w2 where
    d: "dbase w' = dbase w2"
    and body: "bind_act db_now (\<lambda>now.
       bind_act (map_error (Errorf ''query pending outbox'') (select_due (rl_batchSize rl) now)) (\<lambda>items.
       bind_act (mark_all ''mark outbox processing'' (now + 5 * minute) items) (\<lambda>_. ret items))) e
         ((tick w)\<lparr>tx_now := Some (clock e (ticks w))\<rparr>) = (Done items, w2)" by blast
  let ?w1 = "(tick w)\<lparr>tx_now := Some (clock e (ticks w))\<rparr>"
  from body obtain w4 u where
    s: "select_due (rl_batchSize rl) (batch_time e w) e ?w1 = (Done items, w4)"
      "mark_all ''mark outbox processing'' (batch_time e w + 5 * minute) items e w4 = (Done u, w2)"
    by (auto simp: act_simps batch_time_def drv db_now_def elim!: bind_act_DoneD)
  have "dbase ?w1 = dbase w" by simp
  with claim_body [OF _ s(1) refl s(2)] ids d show ?thesis by simp
qed

text \<open>A claim that does not succeed leaves no trace.\<close>

lemma claim_fails:
  assumes "(if driver_of e = DriverSQLite then claim_sqlite rl else claim_postgres rl) e w = (res, w')"
    "\<forall>items. res \<noteq> Done items"
  shows "dbase w' = dbase w"
proof (cases "driver_of e = DriverSQLite")
  case True
  then have "claim_sqlite rl e w = (res, w')" using assms(1) by simp
  then show ?thesis using assms(2) unfolding claim_sqlite_def by (rule tx.rolls_back)
next
  case False
  then have "claim_postgres rl e w = (res, w')" using assms(1) by simp
  then show ?thesis using assms(2) unfolding claim_postgres_def by (rule raw_tx.rolls_back)
qed

text \<open>The specification of a batch.\<close>

definition batch_of :: "publisher \<Rightarrow> nat \<Rightarrow> env \<Rightarrow> ctx \<Rightarrow> time \<Rightarrow> db \<Rightarrow> db \<Rightarrow> bool" where
  "batch_of pub limit e c now d d' \<longleftrightarrow>
     ((\<forall>r \<in> set (due_rows limit now e d). \<exists>r'. row_at (ob_id r) d' = Some r' \<and> attempt pub e c r r') \<and>
       (\<forall>j r. row_at j d = Some r \<longrightarrow> r \<notin> set (due_rows limit now e d) \<longrightarrow> row_at j d' = Some r))"

context event_sink begin

lemma batch_after_claim:
  assumes ids: "outbox_ids (dbase w)" and cl: "claims limit e now (dbase w) items (dbase w1)"
    and run: "deliver_all pub c items e w1 = (out, w')"
  shows "out = Done () \<and> outbox_ids (dbase w') \<and> batch_of pub limit e c now (dbase w) (dbase w')"
proof -
  from cl obtain n where i: "items = map item_of (due_rows limit now e (dbase w))"
    "outbox_ids (dbase w1)"
    and rows: "\<And>j. row_at j (dbase w1) = map_option (\<lambda>r. if j \<in> ob_id ` set (due_rows limit now e (dbase w))
        then claimed_row n r else r) (row_at j (dbase w))"
    using ids unfolding claims_def by blast
  let ?rs = "due_rows limit now e (dbase w)"
  have at: "row_at (ob_id r) (dbase w) = Some r" if "r \<in> set ?rs" for r
    using ids due_rows_in [OF that] by (simp add: row_at_member)
  have "row_at (ob_id r) (dbase w1) = Some (claimed_row n r)" if "r \<in> set ?rs" for r
    using at [OF that] that by (simp add: rows)
  from deliver_all_rows [OF run [unfolded i(1)] distinct_due_rows [OF ids] this] i(2) have
    a: "out = Done ()" "outbox_ids (dbase w')"
      "\<forall>j r. j \<notin> ob_id ` set ?rs \<longrightarrow> row_at j (dbase w1) = Some r \<longrightarrow> row_at j (dbase w') = Some r"
      "\<forall>r \<in> set ?rs. \<exists>r'. row_at (ob_id r) (dbase w') = Some r' \<and> attempt pub e c r r'" by blast+
  have "row_at j (dbase w') = Some r" if r: "row_at j (dbase w) = Some r" "r \<notin> set ?rs" for j r
  proof -
    have "j \<notin> ob_id ` set ?rs" using at r by auto
    then show ?thesis using a(3) rows [of j] r(1) by simp
  qed
  with a show ?thesis unfolding batch_of_def by blast
qed

text \<open>A batch fails before it has claimed anything, or it attempts each due row of the batch
  once and leaves every other row alone.\<close>

lemma processBatch_rows:
  assumes ids: "outbox_ids (dbase w)" and run: "processBatch pub rl c e w = (out, w')"
  shows "outbox_ids (dbase w') \<and>
    (out \<noteq> Done () \<and> dbase w' = dbase w \<or>
     out = Done () \<and> batch_of pub (rl_batchSize rl) e c (batch_time e w) (dbase w) (dbase w'))"
proof -
  define claim where "claim = (if driver_of e = DriverSQLite then claim_sqlite rl else claim_postgres rl)"
  have b: "processBatch pub rl c e w = bind_act claim (deliver_all pub c) e w"
    by (simp add: processBatch_def processBatchSQLite_def processBatchPostgres_def claim_def)
  obtain res w1 where c: "claim e w = (res, w1)" by fastforce
  show ?thesis
  proof (cases "\<exists>items. res = Done items")
    case True
    then obtain items where d: "res = Done items" by blast
    have "claims (rl_batchSize rl) e (batch_time e w) (dbase w) items (dbase w1)"
    proof (cases "driver_of e = DriverSQLite")
      case True
      with c d show ?thesis using claim_sqlite_DoneD [OF ids _ True] by (simp add: claim_def)
    next
      case False
      with c d show ?thesis using claim_postgres_DoneD [OF ids _ False] by (simp add: claim_def)
    qed
    moreover have "deliver_all pub c items e w1 = (out, w')" using run b c d by (simp add: bind_act_def)
    ultimately show ?thesis using batch_after_claim [OF ids] by blast
  next
    case False
    then have "dbase w1 = dbase w" using c claim_fails unfolding claim_def by blast
    moreover have "out \<noteq> Done () \<and> w' = w1" using run b c False
      by (cases res) (auto simp: bind_act_def)
    ultimately show ?thesis using ids by simp
  qed
qed

end

section \<open>A run of the relay\<close>

definition terminal :: "outbox_row \<Rightarrow> bool" where
  "terminal r \<longleftrightarrow> ob_status r \<in> {''done'', ''dead''}"

text \<open>What a row promises in each of its states.\<close>

definition row_ok :: "outbox_row \<Rightarrow> bool" where
  "row_ok r \<longleftrightarrow>
     (if ob_status r = ''pending'' then ob_attempts r = 0 \<and> ob_next r \<noteq> None
      else if ob_status r = ''processing'' then 0 < ob_attempts r \<and> ob_next r \<noteq> None
      else if ob_status r = ''failed'' then 0 < ob_attempts r \<and> ob_attempts r < maxOutboxAttempts \<and> ob_next r \<noteq> None
      else if ob_status r = ''dead'' then maxOutboxAttempts \<le> ob_attempts r \<and> ob_next r = None
      else ob_status r = ''done'' \<and> 0 < ob_attempts r \<and> ob_published r \<noteq> None)"

lemma attempt_row_ok: "attempt pub e c r r' \<Longrightarrow> row_ok r'"
  by (cases rule: attempt.cases) (auto simp: row_ok_def claimed_row_def)

lemma due_not_terminal: "due now r \<Longrightarrow> \<not> terminal r"
  by (auto simp: due_def terminal_def)

lemma new_outbox_row_ok: "row_ok (new_outbox_row ty b cid u now)"
  by (simp add: row_ok_def new_outbox_row_def)

text \<open>One row through a batch.\<close>

lemma batch_of_row:
  assumes "batch_of pub limit e c now d d'" "row_at i d = Some r"
  obtains "row_at i d' = Some r"
    | r' where "due now r" "row_at i d' = Some r'" "attempt pub e c r r'"
proof -
  from assms(1) have
    att: "\<forall>r \<in> set (due_rows limit now e d). \<exists>r'. row_at (ob_id r) d' = Some r' \<and> attempt pub e c r r'"
    and rest: "\<forall>j r. row_at j d = Some r \<longrightarrow> r \<notin> set (due_rows limit now e d) \<longrightarrow> row_at j d' = Some r"
    unfolding batch_of_def by blast+
  show thesis
  proof (cases "r \<in> set (due_rows limit now e d)")
    case True
    moreover have "ob_id r = i" using assms(2) by (auto dest: row_at_in)
    ultimately show thesis using att due_rows_in that(2) by blast
  next
    case False
    with rest assms(2) that(1) show thesis by blast
  qed
qed

text \<open>\<open>follows k r r'\<close>: the row \<open>r\<close> after at most \<open>k\<close> attempts.\<close>

definition follows :: "nat \<Rightarrow> outbox_row \<Rightarrow> outbox_row \<Rightarrow> bool" where
  "follows k r r' \<longleftrightarrow> ob_attempts r \<le> ob_attempts r' \<and> ob_attempts r' \<le> ob_attempts r + k \<and>
     (terminal r \<longrightarrow> r' = r) \<and> (row_ok r \<longrightarrow> row_ok r') \<and>
     ob_type r' = ob_type r \<and> ob_payload r' = ob_payload r \<and> ob_cid r' = ob_cid r \<and> ob_user r' = ob_user r"

lemma follows_trans: "follows k r r' \<Longrightarrow> follows l r' r'' \<Longrightarrow> follows (k + l) r r''"
  by (auto simp: follows_def)

lemma follows_attempt: "attempt pub e c r r' \<Longrightarrow> \<not> terminal r \<Longrightarrow> follows 1 r r'"
  using attempt_keeps attempt_row_ok by (fastforce simp: follows_def)

context event_sink begin

lemma batch_follows:
  assumes ids: "outbox_ids (dbase w)" and run: "processBatch pub rl c e w = (out, w')"
    and row: "row_at i (dbase w) = Some r"
  shows "outbox_ids (dbase w') \<and> (\<exists>r'. row_at i (dbase w') = Some r' \<and> follows 1 r r')"
proof -
  have refl: "follows 1 r r" by (simp add: follows_def)
  from processBatch_rows [OF ids run] consider "dbase w' = dbase w"
    | "batch_of pub (rl_batchSize rl) e c (batch_time e w) (dbase w) (dbase w')" by blast
  then have "\<exists>r'. row_at i (dbase w') = Some r' \<and> follows 1 r r'"
  proof cases
    case 1
    with row refl show ?thesis by simp
  next
    case 2
    then show ?thesis using row
      by (rule batch_of_row) (use refl follows_attempt due_not_terminal in blast)+
  qed
  with processBatch_rows [OF ids run] show ?thesis by blast
qed

lemma run_follows:
  assumes "outbox_ids (dbase w)" "Run_ticks n pub rl c e w = (out, w')" "row_at i (dbase w) = Some r"
  shows "out = Done () \<or> (\<exists>p. out = Panics p)" "\<exists>r'. row_at i (dbase w') = Some r' \<and> follows n r r'"
proof -
  have "(out = Done () \<or> (\<exists>p. out = Panics p)) \<and> (\<exists>r'. row_at i (dbase w') = Some r' \<and> follows n r r')"
    using assms
  proof (induction n arbitrary: w r)
    case 0
    then show ?case by (simp add: act_simps follows_def)
  next
    case (Suc n)
    obtain o1 w1 where b: "processBatch pub rl c e w = (o1, w1)" by fastforce
    from batch_follows [OF Suc.prems(1) b Suc.prems(3)] obtain r1 where
      r1: "outbox_ids (dbase w1)" "row_at i (dbase w1) = Some r1" "follows 1 r r1" by blast
    show ?case
    proof (cases "\<exists>p. o1 = Panics p")
      case True
      with b Suc.prems(2) r1 show ?thesis
        by (auto simp: logged_def catch_def bind_act_def follows_def)
    next
      case False
      with b Suc.prems(2) have "Run_ticks n pub rl c e w1 = (out, w')"
        by (cases o1) (auto simp: logged_def catch_def bind_act_def act_simps)
      from Suc.IH [OF r1(1) this r1(2)] follows_trans [OF r1(3)] show ?thesis by auto
    qed
  qed
  then show "out = Done () \<or> (\<exists>p. out = Panics p)"
    "\<exists>r'. row_at i (dbase w') = Some r' \<and> follows n r r'" by blast+
qed

end

section \<open>The bus as the relay's sink\<close>

text \<open>
  A handler that looks at the world and the event, adds events to the outbox and ends somehow.
\<close>

type_synonym reaction = "env \<Rightarrow> world \<Rightarrow> ctx \<Rightarrow> event \<Rightarrow> (string \<times> json) list \<times> outcome"

fun add_events :: "ctx \<Rightarrow> (string \<times> json) list \<Rightarrow> env \<Rightarrow> world \<Rightarrow> world" where
  "add_events c [] e w = w"
| "add_events c ((ty, j) # evs) e w = add_events c evs e (snd (Add c ty (Inr j) e w))"

definition subscriber_of :: "env \<Rightarrow> reaction \<Rightarrow> world subscriber" where
  "subscriber_of e rct c ev w = (case rct e w c ev of (evs, out) \<Rightarrow> (out, add_events c evs e w))"

text \<open>
  \<open>PublishAndWait\<close> seen from its caller. The bus takes the event and a worker runs its handlers,
  whose first error comes back (\<open>Served\<close>); or the bus refuses it, being closed or full
  (\<open>Turned_away\<close>); or the caller's context ends while it waits for the reply (\<open>Abandoned\<close>, the
  handlers having run). What happens may depend on everything there is.
\<close>

datatype fate = Served | Turned_away go_error | Abandoned go_error

definition PublishAndWait :: "(string \<Rightarrow> reaction list) \<Rightarrow> (ctx \<Rightarrow> event \<Rightarrow> world \<Rightarrow> fate) \<Rightarrow> publisher" where
  "PublishAndWait m fate c ev e w =
     (let served = run_targets (targets (\<lambda>p. map (subscriber_of e) (m p)) (ev_type ev)) (stamp c ev) None w
      in case fate c ev w of
           Served \<Rightarrow> (case served of (None, w') \<Rightarrow> (Done (), w') | (Some err, w') \<Rightarrow> (Fail_with err, w'))
         | Turned_away err \<Rightarrow> (Fail_with err, w)
         | Abandoned err \<Rightarrow> (Fail_with err, snd served))"

lemma add_events_keeps: "keeps_rows (dbase w) (dbase (add_events c evs e w))"
proof (induction c evs e w rule: add_events.induct)
  case (2 c ty j evs e w)
  have "keeps_rows (dbase w) (dbase (snd (Add c ty (Inr j) e w)))"
    using Add_keeps_rows preservesD surjective_pairing by metis
  with 2 show ?case by (auto intro: keeps_rows_trans)
qed simp

lemma run_handler_state: "snd (run_handler h ev fe s) = snd (h (handler_ctx ev) ev s)"
  by (simp add: run_handler_def split: prod.splits)

lemma run_targets_keeps_rows:
  assumes "\<forall>h \<in> set hs. \<exists>rct. h = subscriber_of e rct"
  shows "keeps_rows (dbase w) (dbase (snd (run_targets hs ev fe w)))"
  using assms
proof (induction hs arbitrary: fe w)
  case (Cons h hs)
  obtain fe' w1 where h: "run_handler h ev fe w = (fe', w1)" by fastforce
  from Cons.prems obtain rct where "h = subscriber_of e rct" by auto
  then have "keeps_rows (dbase w) (dbase w1)"
    using run_handler_state [of h ev fe w] h add_events_keeps
    by (auto simp: subscriber_of_def split: prod.splits)
  moreover have "keeps_rows (dbase w1) (dbase (snd (run_targets hs ev fe' w1)))"
    using Cons by simp
  ultimately show ?case using h keeps_rows_trans by simp
qed simp

interpretation bus_sink: event_sink "PublishAndWait m fate" for m fate
proof
  fix c ev e w p w'
  show "PublishAndWait m fate c ev e w \<noteq> (Panics p, w')"
    by (auto simp: PublishAndWait_def Let_def split: prod.splits option.splits fate.splits)
next
  fix c and ev :: event and e
  let ?hs = "targets (\<lambda>p. map (subscriber_of e) (m p)) (ev_type ev)"
  have "\<forall>h \<in> set ?hs. \<exists>rct. h = subscriber_of e rct"
    by (auto simp: targets_patterns)
  then have k: "keeps_rows (dbase w) (dbase (snd (run_targets ?hs (stamp c ev) None w)))" for w
    by (rule run_targets_keeps_rows)
  show "preserves keeps_rows e (PublishAndWait m fate c ev)"
    unfolding preserves_def
  proof (intro allI impI)
    fix w r w'
    assume "PublishAndWait m fate c ev e w = (r, w')"
    then have "w' = w \<or> w' = snd (run_targets ?hs (stamp c ev) None w)"
      by (auto simp: PublishAndWait_def Let_def split: prod.splits option.splits fate.splits)
    with k show "keeps_rows (dbase w) (dbase w')" by auto
  qed
qed

section \<open>Properties\<close>

text \<open>
  C9 (batch_attempts_each_due_row). One batch of the relay, over the event bus, whatever handlers are subscribed and
  whether or not the bus takes the events: either it fails before it has claimed anything and changes nothing, or each row due at the time of
  the batch (at most \<open>batchSize\<close> of them, oldest first) goes through exactly one attempt (delivered and done, to be
  retried after the back-off, dead after the tenth failure, or left claimed when the database fails)
  and every other row stays as it was.
\<close>

theorem batch_attempts_each_due_row:
  assumes "outbox_ids (dbase w)" "processBatch (PublishAndWait m fate) rl c e w = (out, w')"
  shows "outbox_ids (dbase w') \<and>
    (out \<noteq> Done () \<and> dbase w' = dbase w \<or>
     out = Done () \<and> batch_of (PublishAndWait m fate) (rl_batchSize rl) e c (batch_time e w) (dbase w) (dbase w'))"
  by (rule bus_sink.processBatch_rows [OF assms])

definition sample_event_row :: outbox_row where
  "sample_event_row = (new_outbox_row ''task.created'' ''{}'' ''c-1'' (Some 1) 0)\<lparr>ob_id := 1\<rparr>"

definition event_world :: world where
  "event_world = sample_world\<lparr>dbase := sample_db\<lparr>outbox := [sample_event_row], seq_outbox := 1\<rparr>\<rparr>"

lemma event_world_simps [simp]:
  "outbox (dbase event_world) = [sample_event_row]" "ticks event_world = 0" "outbox_ids (dbase event_world)"
  "ob_id sample_event_row = 1" "ob_status sample_event_row = ''pending''" "ob_next sample_event_row = Some 0"
  "ob_attempts sample_event_row = 0" "row_ok sample_event_row" "row_at 1 (dbase event_world) = Some sample_event_row"
  by (simp_all add: event_world_def sample_event_row_def new_outbox_row_def outbox_ids_def row_ok_def row_at_def)

lemma event_world_claim:
  "\<exists>w1. claim_sqlite (NewOutboxRelay 0) (calm DriverSQLite) event_world = (Done [item_of sample_event_row], w1)"
  by (simp add: claim_sqlite_def ExecTx_def run_tx_def bind_act_def act_simps select_due_def stmt_def map_error_def due_rows_def
      due_def NewOutboxRelay_def set_outbox_def)

lemma event_world_due: "set (due_rows 50 (batch_time (calm DriverSQLite) event_world) (calm DriverSQLite) (dbase event_world)) = {sample_event_row}"
  by (simp add: due_rows_def due_def batch_time_def)

theorem batch_attempts_each_due_row_witness:
  "\<exists>r'. row_at 1 (dbase (snd (processBatch (PublishAndWait (\<lambda>_. []) (\<lambda>_ _ _. Served)) (NewOutboxRelay 0) background (calm DriverSQLite) event_world)))
      = Some r' \<and> ob_attempts r' = 1"
proof -
  let ?e = "calm DriverSQLite" and ?r = "NewOutboxRelay 0" and ?pub = "PublishAndWait (\<lambda>_. []) (\<lambda>_ _ _. Served)"
  obtain out w' where s: "processBatch ?pub ?r background ?e event_world = (out, w')" by fastforce
  obtain w1 where cl: "claim_sqlite ?r ?e event_world = (Done [item_of sample_event_row], w1)" using event_world_claim by blast
  then have "deliver_all ?pub background [item_of sample_event_row] ?e w1 = (out, w')"
    using s by (simp add: processBatch_def processBatchSQLite_def bind_act_def)
  from bus_sink.batch_after_claim [OF event_world_simps(3) claim_sqlite_DoneD [OF event_world_simps(3) cl] this]
  have "out = Done ()" by simp
  with batch_attempts_each_due_row [OF event_world_simps(3) s] have
    "batch_of ?pub 50 ?e background (batch_time ?e event_world) (dbase event_world) (dbase w')"
    by (simp add: NewOutboxRelay_def)
  then obtain r' where "row_at 1 (dbase w') = Some r'" "attempt ?pub ?e background sample_event_row r'"
    by (auto simp: batch_of_def event_world_due)
  with s show ?thesis using attempt_keeps by fastforce
qed

text \<open>
  C19 (relay_life_of_a_row). Through any number of ticks of the relay a row keeps its type, payload, correlation id and
  user; each tick attempts it at most once; done and dead rows are never touched again; and the
  relations between status, attempts and times hold throughout (a failed row has had fewer than
  ten attempts and has a next one, a dead one has had ten).
\<close>

theorem relay_life_of_a_row:
  assumes "outbox_ids (dbase w)" "row_at i (dbase w) = Some r"
    and "Run_ticks n (PublishAndWait m fate) rl c e w = (out, w')"
  shows "\<exists>r'. row_at i (dbase w') = Some r' \<and> follows n r r'"
  by (rule bus_sink.run_follows(2) [OF assms(1,3,2)])

theorem relay_life_of_a_row_witness:
  "\<exists>r'. row_at 1 (dbase (snd (Run_ticks 3 (PublishAndWait (\<lambda>_. []) (\<lambda>_ _ _. Served)) (NewOutboxRelay 0) background (calm DriverSQLite) event_world)))
      = Some r' \<and> row_ok r' \<and> ob_attempts r' \<le> 3"
proof -
  obtain out w' where s: "Run_ticks 3 (PublishAndWait (\<lambda>_. []) (\<lambda>_ _ _. Served)) (NewOutboxRelay 0) background (calm DriverSQLite) event_world = (out, w')"
    by fastforce
  from relay_life_of_a_row [OF event_world_simps(3,9) s] s show ?thesis by (auto simp: follows_def)
qed

text \<open>
  The back-off loop computes five seconds doubled for each attempt after the first, capped at
  fifteen minutes.
\<close>

theorem backoff_formula:
  "outboxBackoff n = min (15 * minute) (5 * second * 2 ^ nat (n - 1)) \<and>
   5 * second \<le> outboxBackoff n \<and> outboxBackoff n \<le> 15 * minute"
  using outboxBackoff_eq outboxBackoff_bounds by simp

end
