(* ===== verification/Audit_Log.thy ===== *)
theory Audit_Log
  imports World Redact Json_Decode
begin

text \<open>
  The audit log (\<open>internal/platform/audit/writer.go\<close>): \<open>LogTx\<close> appends one row whose hash covers
  the row's contents and the hash of the row before it.
\<close>

section \<open>The writer\<close>

definition GenesisHash :: string where
  "GenesisHash = replicate 64 CHR ''0''"

record audit_entry =
  ae_user :: "int option"
  ae_action :: string
  ae_entity_type :: string
  ae_entity_id :: int
  ae_entity_public :: uuid
  ae_old :: json_bytes
  ae_new :: json_bytes

text \<open>The bytes \<open>ComputeHash\<close> feeds to SHA-256, and the digest.\<close>

definition hash_text :: "string \<Rightarrow> string \<Rightarrow> string \<Rightarrow> string \<Rightarrow> bytes \<Rightarrow> bytes \<Rightarrow> string \<Rightarrow> bytes" where
  "hash_text prev action entity_type entity_public old new ts =
     concat (map (\<lambda>part. part @ ''|'') [prev, action, entity_type, entity_public, ts]) @
     old @ ''|'' @ new"

definition ComputeHash ::
  "(bytes \<Rightarrow> string) \<Rightarrow> string \<Rightarrow> string \<Rightarrow> string \<Rightarrow> string \<Rightarrow> bytes \<Rightarrow> bytes \<Rightarrow> string \<Rightarrow> string" where
  "ComputeHash h prev action entity_type entity_public old new ts =
     h (hash_text prev action entity_type entity_public old new ts)"

definition latest_audit_hash :: "env \<Rightarrow> db \<Rightarrow> string option" where
  "latest_audit_hash e d =
     (if audit_logs d = [] then None else Some (au_curr (last (sort_key au_id (audit_logs d)))))"

definition insert_audit :: "audit_row \<Rightarrow> env \<Rightarrow> db \<Rightarrow> go_error + unit \<times> db" where
  "insert_audit r e d =
     (if driver_of e = DriverSQLite \<and> list_ex (\<lambda>x. au_public x = au_public r) (audit_logs d) then Inl unique_error
      else if driver_of e = DriverPostgres \<and>
        \<not> (varchar 50 (au_action r) \<and> varchar 50 (au_entity_type r) \<and> varchar 64 (au_prev r) \<and> varchar 64 (au_curr r) \<and>
           pg_text (au_old r) \<and> pg_text (au_new r))
        then Inl varchar_error
      else if \<not> user_ref d (au_user r) then Inl fk_error
      else Inr ((), d\<lparr>audit_logs := audit_logs d @ [r\<lparr>au_id := seq_audit d + 1\<rparr>], seq_audit := seq_audit d + 1\<rparr>))"

text \<open>The hash to chain to; \<open>err == sql.ErrNoRows\<close> is the empty log.\<close>

definition previous_hash :: "string act" where
  "previous_hash =
     catch (query_row latest_audit_hash)
       (\<lambda>res. case res of
          Inr prev \<Rightarrow> ret prev
        | Inl err \<Rightarrow> if err = ErrNoRows then ret GenesisHash
                     else throw (Errorf ''fetch prev audit hash'' err))"

definition redact_or_throw :: "string \<Rightarrow> json_bytes \<Rightarrow> json_bytes act" where
  "redact_or_throw what b e =
     (case RedactJSON (to_lower e) b of
        (r, True) \<Rightarrow> ret r e
      | (_, False) \<Rightarrow> throw (Errorf what (Opaque ''invalid JSON'')) e)"

text \<open>The row of an entry; the insert gives it its id.\<close>

definition audit_row_of ::
  "(bytes \<Rightarrow> string) \<Rightarrow> audit_entry \<Rightarrow> string \<Rightarrow> json_bytes \<Rightarrow> json_bytes \<Rightarrow> time \<Rightarrow> uuid \<Rightarrow> audit_row" where
  "audit_row_of h entry prevHash redactedOld redactedNew now pid =
     \<lparr>au_id = 0, au_public = pid, au_user = ae_user entry, au_action = ae_action entry,
      au_entity_type = ae_entity_type entry, au_entity_id = ae_entity_id entry,
      au_entity_public = ae_entity_public entry,
      au_old = bytes_of redactedOld, au_new = bytes_of redactedNew, au_prev = prevHash,
      au_curr = ComputeHash h prevHash (ae_action entry) (ae_entity_type entry) (ae_entity_public entry)
        (bytes_of redactedOld) (bytes_of redactedNew) (sqlite_time now),
      au_created = now\<rparr>"

text \<open>\<open>(*Writer).LogTx\<close>.\<close>

definition LogTx :: "audit_entry \<Rightarrow> unit act" where
  "LogTx entry =
     bind_act previous_hash (\<lambda>prevHash.
     bind_act (redact_or_throw ''redact old values'' (ae_old entry)) (\<lambda>redactedOld.
     bind_act (redact_or_throw ''redact new values'' (ae_new entry)) (\<lambda>redactedNew.
     bind_act time_now (\<lambda>t.
     bind_act uuid_new (\<lambda>pid e.
       map_error (Errorf ''insert audit log'')
         (stmt (insert_audit
           (audit_row_of (sha256_hex e) entry prevHash redactedOld redactedNew (truncate_micro t) pid))) e)))))"

section \<open>The chain\<close>

text \<open>The specification: each row carries the hash of the one before it, the first the genesis
  hash, and its own hash is that of its contents.\<close>

definition row_hash :: "(bytes \<Rightarrow> string) \<Rightarrow> audit_row \<Rightarrow> string" where
  "row_hash h r =
     ComputeHash h (au_prev r) (au_action r) (au_entity_type r) (au_entity_public r) (au_old r)
       (au_new r) (sqlite_time (au_created r))"

definition row_text :: "audit_row \<Rightarrow> bytes" where
  "row_text r =
     hash_text (au_prev r) (au_action r) (au_entity_type r) (au_entity_public r) (au_old r)
       (au_new r) (sqlite_time (au_created r))"

fun chained :: "(bytes \<Rightarrow> string) \<Rightarrow> string \<Rightarrow> audit_row list \<Rightarrow> bool" where
  "chained h prev [] \<longleftrightarrow> True"
| "chained h prev (r # rs) \<longleftrightarrow> au_prev r = prev \<and> au_curr r = row_hash h r \<and> chained h (au_curr r) rs"

definition last_hash :: "string \<Rightarrow> audit_row list \<Rightarrow> string" where
  "last_hash prev rs = (if rs = [] then prev else au_curr (last rs))"

definition audit_ok :: "env \<Rightarrow> db \<Rightarrow> bool" where
  "audit_ok e d \<longleftrightarrow>
     chained (sha256_hex e) GenesisHash (audit_logs d) \<and>
     sorted_wrt (<) (map au_id (audit_logs d)) \<and> list_all (\<lambda>r. au_id r \<le> seq_audit d) (audit_logs d)"

lemma chained_append:
  "chained h prev (rs @ [r]) \<longleftrightarrow>
    chained h prev rs \<and> au_prev r = last_hash prev rs \<and> au_curr r = row_hash h r"
  by (induction rs arbitrary: prev) (auto simp: last_hash_def)

lemma row_hash_text: "row_hash h r = h (row_text r)"
  by (simp add: row_hash_def row_text_def ComputeHash_def)

lemma row_hash_id [simp]: "row_hash h (r\<lparr>au_id := i\<rparr>) = row_hash h r"
  by (simp add: row_hash_def)

lemma latest_audit_hash_sorted:
  "sorted_wrt (<) (map au_id (audit_logs d)) \<Longrightarrow>
    latest_audit_hash e d = (if audit_logs d = [] then None else Some (last_hash GenesisHash (audit_logs d)))"
proof -
  assume "sorted_wrt (<) (map au_id (audit_logs d))"
  then have "sorted (map au_id (audit_logs d))"
    by (rule strict_sorted_imp_sorted)
  then have "sort_key au_id (audit_logs d) = audit_logs d" by (rule sort_key_id_if_sorted)
  then show ?thesis by (simp add: latest_audit_hash_def last_hash_def)
qed

lemma insert_audit_InrD:
  assumes "insert_audit r e d = Inr (u, d')"
  shows "d' = d\<lparr>audit_logs := audit_logs d @ [r\<lparr>au_id := seq_audit d + 1\<rparr>], seq_audit := seq_audit d + 1\<rparr>"
  using assms by (simp add: insert_audit_def split: if_splits)


section \<open>Correctness\<close>

lemma previous_hash_DoneD:
  assumes "previous_hash e w = (Done p, w')"
  shows "dbase w' = dbase w \<and> (audit_ok e (dbase w) \<longrightarrow> p = last_hash GenesisHash (audit_logs (dbase w)))"
  using assms
  by (auto simp: previous_hash_def catch_def query_row_def stmt_def act_simps audit_ok_def
      latest_audit_hash_sorted ErrNoRows_def last_hash_def
      split: option.splits result.splits prod.splits sum.splits if_splits)

lemma redact_or_throw_DoneD:
  "redact_or_throw what b e w = (Done r, w') \<Longrightarrow> RedactJSON (to_lower e) b = (r, True) \<and> w' = w"
  by (auto simp: redact_or_throw_def act_simps split: prod.splits bool.splits)

text \<open>A successful \<open>LogTx\<close> appends exactly the entry's row, redacted and chained.\<close>

lemma LogTx_DoneD:
  assumes run: "LogTx entry e w = (Done u, w')"
  shows "\<exists>prev old new t pid.
    dbase w' = (dbase w)
      \<lparr>audit_logs := audit_logs (dbase w) @
        [(audit_row_of (sha256_hex e) entry prev old new t pid)\<lparr>au_id := seq_audit (dbase w) + 1\<rparr>],
       seq_audit := seq_audit (dbase w) + 1\<rparr> \<and>
    RedactJSON (to_lower e) (ae_old entry) = (old, True) \<and>
    RedactJSON (to_lower e) (ae_new entry) = (new, True) \<and>
    (audit_ok e (dbase w) \<longrightarrow> prev = last_hash GenesisHash (audit_logs (dbase w)))"
proof -
  from run obtain prev w1 old w2 new w3 t w4 pid w5 where
    steps: "previous_hash e w = (Done prev, w1)"
      "redact_or_throw ''redact old values'' (ae_old entry) e w1 = (Done old, w2)"
      "redact_or_throw ''redact new values'' (ae_new entry) e w2 = (Done new, w3)"
      "time_now e w3 = (Done t, w4)" "uuid_new e w4 = (Done pid, w5)"
    and ins: "stmt (insert_audit (audit_row_of (sha256_hex e) entry prev old new (truncate_micro t) pid)) e w5
      = (Done u, w')"
    unfolding LogTx_def by (elim bind_act_DoneD) auto
  from steps have db: "dbase w5 = dbase w"
    by (auto simp: act_simps dest!: previous_hash_DoneD redact_or_throw_DoneD)
  show ?thesis
    using insert_audit_InrD [OF stmt_DoneD [OF ins, THEN conjunct1]]
      redact_or_throw_DoneD [OF steps(2)] redact_or_throw_DoneD [OF steps(3)] previous_hash_DoneD [OF steps(1)]
    unfolding db by blast
qed

lemma row_hash_audit_row_of [simp]:
  "au_curr (audit_row_of h entry prev old new t pid) = row_hash h (audit_row_of h entry prev old new t pid)"
  by (simp add: row_hash_def audit_row_of_def)

lemma audit_row_of_prev [simp]: "au_prev (audit_row_of h entry prev old new t pid) = prev"
  by (simp add: audit_row_of_def)

lemma LogTx_audit_ok [keep_intros]:
  assumes ok: "audit_ok e (dbase w)" and run: "LogTx entry e w = (Done u, w')"
  shows "audit_ok e (dbase w')"
  using LogTx_DoneD [OF run] ok
  by (auto simp: audit_ok_def chained_append sorted_wrt_append list_all_iff; fastforce)

text \<open>However it ends, \<open>LogTx\<close> keeps the chain.\<close>

definition keeps_chain :: "env \<Rightarrow> db \<Rightarrow> db \<Rightarrow> bool" where
  "keeps_chain e d d' \<longleftrightarrow> (audit_ok e d \<longrightarrow> audit_ok e d')"

lemma keeps_chain_pre: "reflp (keeps_chain e)" "transp (keeps_chain e)"
  by (auto simp: keeps_chain_def reflp_def transp_def)

lemma keeps_chain_same: "audit_logs d' = audit_logs d \<Longrightarrow> seq_audit d' = seq_audit d \<Longrightarrow> keeps_chain e d d'"
  by (simp add: keeps_chain_def audit_ok_def)

lemma previous_hash_same: "preserves (=) e previous_hash"
  unfolding previous_hash_def
  by (intro preserves_catch preserves_query_row) (auto simp: reflp_def transp_def intro: preserves_simple split: sum.splits)

lemma LogTx_fails:
  assumes "LogTx entry e w = (r, w')" "\<forall>u. r \<noteq> Done u"
  shows "dbase w' = dbase w"
proof -
  obtain p w1 where ph: "previous_hash e w = (p, w1)" by fastforce
  with previous_hash_same have "dbase w1 = dbase w" by (metis preservesD)
  with ph assms show ?thesis
    by (auto simp: LogTx_def bind_act_def redact_or_throw_def act_simps map_error_def stmt_def
        split: result.splits prod.splits bool.splits option.splits sum.splits)
qed

lemma LogTx_keeps_chain: "preserves (keeps_chain e) e (LogTx entry)"
  unfolding preserves_def
proof (intro allI impI)
  fix w r w' assume run: "LogTx entry e w = (r, w')"
  show "keeps_chain e (dbase w) (dbase w')"
  proof (cases "\<exists>u. r = Done u")
    case True
    then show ?thesis using run LogTx_audit_ok by (auto simp: keeps_chain_def)
  next
    case False
    then show ?thesis using LogTx_fails [OF run] by (simp add: keeps_chain_def)
  qed
qed

section \<open>Tamper evidence\<close>

text \<open>The hashes have a fixed length, so the hashed text determines the previous hash in it; with
  no bar in the three names it determines the names and the time too.\<close>

lemma hash_text_prev:
  "length p = length q \<Longrightarrow> hash_text p a t u b c s = hash_text q a' t' u' b' c' s' \<Longrightarrow> p = q"
  by (simp add: hash_text_def)

lemma bar_append_eq:
  "c \<notin> set x \<Longrightarrow> c \<notin> set y \<Longrightarrow> x @ c # r = y @ c # s \<longleftrightarrow> x = y \<and> r = s"
proof (induction x arbitrary: y)
  case Nil
  then show ?case by (cases y) auto
next
  case (Cons d x)
  then show ?case by (cases y) auto
qed

definition no_bar :: "string \<Rightarrow> bool" where
  "no_bar s \<longleftrightarrow> CHR ''|'' \<notin> set s"

lemma hash_text_fields:
  assumes "length p = length q" "no_bar a" "no_bar a'" "no_bar t" "no_bar t'" "no_bar u" "no_bar u'"
    "length s = length s'" "hash_text p a t u b c s = hash_text q a' t' u' b' c' s'"
  shows "p = q \<and> a = a' \<and> t = t' \<and> u = u' \<and> s = s' \<and> b @ ''|'' @ c = b' @ ''|'' @ c'"
  using assms by (simp add: hash_text_def no_bar_def bar_append_eq)

lemma length_last_hash:
  "\<forall>t. length (h t) = 64 \<Longrightarrow> length p = 64 \<Longrightarrow> chained h p l \<Longrightarrow> length (last_hash p l) = 64"
  by (induction l rule: rev_induct) (auto simp: last_hash_def chained_append row_hash_text)

lemma chained_same_end:
  assumes h: "\<forall>t. length (h t) = 64" "length p = 64"
    and c: "chained h p l1" "chained h p l2" "length l1 = length l2" "last_hash p l1 = last_hash p l2"
    and inj: "inj_on h (row_text ` (set l1 \<union> set l2))"
  shows "map row_text l1 = map row_text l2"
  using c inj
proof (induction l1 arbitrary: l2 rule: rev_induct)
  case Nil
  then show ?case by simp
next
  case (snoc r1 l1)
  then have "l2 \<noteq> []" by auto
  then obtain l2' r2 where l2: "l2 = l2' @ [r2]" by (meson rev_exhaust)
  have c1: "chained h p l1" "au_prev r1 = last_hash p l1" "au_curr r1 = h (row_text r1)"
    using snoc.prems(1) by (simp_all add: chained_append row_hash_text)
  have c2: "chained h p l2'" "au_prev r2 = last_hash p l2'" "au_curr r2 = h (row_text r2)"
    using snoc.prems(2) l2 by (simp_all add: chained_append row_hash_text)
  have "h (row_text r1) = h (row_text r2)"
    using snoc.prems(4) l2 c1 c2 by (simp add: last_hash_def)
  from snoc.prems(5) this have t: "row_text r1 = row_text r2"
    by (rule inj_onD) (simp_all add: l2)
  have "length (au_prev r1) = length (au_prev r2)"
    using length_last_hash [OF h c1(1)] length_last_hash [OF h c2(1)] c1(2) c2(2) by simp
  then have "au_prev r1 = au_prev r2"
    using t [unfolded row_text_def] by (rule hash_text_prev)
  moreover have "inj_on h (row_text ` (set l1 \<union> set l2'))"
    using snoc.prems(5) by (rule inj_on_subset) (auto simp: l2)
  moreover have "length l1 = length l2'" using snoc.prems(3) l2 by simp
  ultimately have "map row_text l1 = map row_text l2'"
    using snoc.IH [of l2'] c1 c2 by simp
  then show ?case using l2 t by simp
qed

text \<open>
  The values are written with a bar between them, so the text tells them apart only where they cannot
  hold one outside a JSON document: a column is empty, or one document that the decoder reads up to a
  bar and no further.
\<close>

definition whole_value :: "bytes \<Rightarrow> bool" where
  "whole_value t \<longleftrightarrow> t = [] \<or> (\<exists>d. \<forall>r. read_value (t @ CHR ''|'' # r) = Got d (CHR ''|'' # r))"

definition plain_row :: "audit_row \<Rightarrow> bool" where
  "plain_row r \<longleftrightarrow> no_bar (au_action r) \<and> no_bar (au_entity_type r) \<and> no_bar (au_entity_public r) \<and>
     whole_value (au_old r) \<and> whole_value (au_new r)"

definition hashed_fields :: "audit_row \<Rightarrow> string \<times> string \<times> string \<times> uuid \<times> bytes \<times> bytes \<times> string" where
  "hashed_fields r =
     (au_prev r, au_action r, au_entity_type r, au_entity_public r, au_old r, au_new r, sqlite_time (au_created r))"

lemma whole_value_render: "writable max_nesting j \<Longrightarrow> whole_value (render j)"
  unfolding whole_value_def using read_value_render [of j] by (metis ends_number_bar)

lemma read_value_bar: "read_value (CHR ''|'' # r) \<noteq> Got d s"
  by (simp add: read_value_def scan_from_Cons scan_step_def begin_value_def is_space_def is_digit_def)

lemma whole_value_split:
  assumes "whole_value b" "whole_value b'" "b @ CHR ''|'' # c = b' @ CHR ''|'' # c'"
  shows "b = b' \<and> c = c'"
proof (cases "b = [] \<or> b' = []")
  case True
  then show ?thesis
    using assms read_value_bar unfolding whole_value_def by (metis append_Nil list.inject)
next
  case False
  with assms(1,2) obtain d d' where
    "read_value (b @ CHR ''|'' # c) = Got d (CHR ''|'' # c)" "read_value (b' @ CHR ''|'' # c') = Got d' (CHR ''|'' # c')"
    unfolding whole_value_def by blast
  with assms(3) show ?thesis by (metis append_same_eq list.inject scan.inject(1))
qed

lemma row_text_fields:
  assumes "row_text r = row_text s" "length (au_prev r) = length (au_prev s)" "plain_row r" "plain_row s"
  shows "hashed_fields r = hashed_fields s"
proof -
  have "au_prev r = au_prev s \<and> au_action r = au_action s \<and> au_entity_type r = au_entity_type s \<and>
      au_entity_public r = au_entity_public s \<and> sqlite_time (au_created r) = sqlite_time (au_created s) \<and>
      au_old r @ ''|'' @ au_new r = au_old s @ ''|'' @ au_new s"
    using assms unfolding row_text_def plain_row_def by (intro hash_text_fields) simp_all
  moreover from this have "au_old r = au_old s \<and> au_new r = au_new s"
    using assms(3,4) by (intro whole_value_split) (simp_all add: plain_row_def)
  ultimately show ?thesis by (simp add: hashed_fields_def)
qed

lemma length_chained_prev:
  "chained h p l \<Longrightarrow> \<forall>t. length (h t) = 64 \<Longrightarrow> length p = 64 \<Longrightarrow> r \<in> set l \<Longrightarrow> length (au_prev r) = 64"
proof (induction l arbitrary: p)
  case (Cons a l)
  from Cons.prems(1) have c: "au_prev a = p" "au_curr a = h (row_text a)" "chained h (au_curr a) l"
    unfolding chained.simps row_hash_text by blast+
  from c(2) Cons.prems(2) have "length (au_curr a) = 64" by simp
  with Cons.IH [OF c(3)] Cons.prems(2-4) c(1) show ?case by auto
qed simp

lemma rows_fields:
  assumes "map row_text l1 = map row_text l2" "\<forall>r \<in> set l1 \<union> set l2. length (au_prev r) = 64 \<and> plain_row r"
  shows "map hashed_fields l1 = map hashed_fields l2"
proof -
  have "list_all2 (\<lambda>r s. row_text r = row_text s) l1 l2"
    using assms(1) by (simp add: list_all2_map1 list_all2_map2 flip: list.rel_eq)
  then have "list_all2 (\<lambda>r s. hashed_fields r = hashed_fields s) l1 l2"
  proof (rule list.rel_mono_strong)
    fix r s assume "r \<in> set l1" "s \<in> set l2" "row_text r = row_text s"
    with assms(2) show "hashed_fields r = hashed_fields s" by (intro row_text_fields) simp_all
  qed
  then show ?thesis by (simp add: list_all2_map1 list_all2_map2 flip: list.rel_eq)
qed

section \<open>Properties\<close>

text \<open>
  A successful \<open>LogTx\<close> on an intact log appends one row with the entry's actor, action and
  entity and its redacted values, chained to the last row, and leaves the log intact.
\<close>

theorem audit_entry_chained:
  assumes "audit_ok e (dbase w)" "LogTx entry e w = (Done u, w')"
  shows "audit_ok e (dbase w') \<and>
    (\<exists>r. audit_logs (dbase w') = audit_logs (dbase w) @ [r] \<and> au_user r = ae_user entry \<and> au_action r = ae_action entry \<and>
      au_entity_type r = ae_entity_type entry \<and> au_entity_id r = ae_entity_id entry \<and>
      au_entity_public r = ae_entity_public entry \<and>
      au_old r = bytes_of (fst (RedactJSON (to_lower e) (ae_old entry))) \<and>
      au_new r = bytes_of (fst (RedactJSON (to_lower e) (ae_new entry))) \<and>
      au_prev r = last_hash GenesisHash (audit_logs (dbase w)) \<and> au_curr r = row_hash (sha256_hex e) r)"
proof -
  from LogTx_DoneD [OF assms(2)] obtain prev old new t pid where d: "dbase w' = (dbase w)
      \<lparr>audit_logs := audit_logs (dbase w) @
        [(audit_row_of (sha256_hex e) entry prev old new t pid)\<lparr>au_id := seq_audit (dbase w) + 1\<rparr>],
       seq_audit := seq_audit (dbase w) + 1\<rparr>"
    and r: "RedactJSON (to_lower e) (ae_old entry) = (old, True)" "RedactJSON (to_lower e) (ae_new entry) = (new, True)"
    and p: "prev = last_hash GenesisHash (audit_logs (dbase w))"
    using assms(1) by blast
  let ?r = "(audit_row_of (sha256_hex e) entry prev old new t pid)\<lparr>au_id := seq_audit (dbase w) + 1\<rparr>"
  have f: "au_user ?r = ae_user entry" "au_action ?r = ae_action entry" "au_entity_type ?r = ae_entity_type entry"
    "au_entity_id ?r = ae_entity_id entry" "au_entity_public ?r = ae_entity_public entry"
    "au_old ?r = bytes_of old" "au_new ?r = bytes_of new" "au_prev ?r = prev" "au_curr ?r = row_hash (sha256_hex e) ?r"
    by (simp_all add: row_hash_def) (simp_all add: audit_row_of_def)
  have "audit_logs (dbase w') = audit_logs (dbase w) @ [?r]" by (simp add: d)
  with f r p LogTx_audit_ok [OF assms] show ?thesis by (intro conjI exI [of _ ?r]) simp_all
qed

definition sample_entry :: audit_entry where
  "sample_entry =
     \<lparr>ae_user = Some 1, ae_action = ''CREATE'', ae_entity_type = ''task'', ae_entity_id = 7, ae_entity_public = ''t-7'',
      ae_old = Json_text JNull, ae_new = Json_text (JStr ''x'')\<rparr>"

theorem audit_entry_chained_witness:
  "\<exists>w' r. LogTx sample_entry (calm DriverSQLite) sample_world = (Done (), w') \<and> audit_logs (dbase w') = [r] \<and>
     au_prev r = GenesisHash"
proof -
  obtain w' where s: "LogTx sample_entry (calm DriverSQLite) sample_world = (Done (), w')"
    by (simp add: LogTx_def previous_hash_def catch_def query_row_def latest_audit_hash_def stmt_def bind_act_def act_simps
        redact_or_throw_def RedactJSON_def sample_entry_def map_error_def insert_audit_def audit_row_of_def user_ref_def
        user_exists_def)
  have "audit_ok (calm DriverSQLite) (dbase sample_world)" by (simp add: audit_ok_def)
  from audit_entry_chained [OF this s] s show ?thesis by (auto simp: last_hash_def)
qed

text \<open>
  C14 (tampering_shows). Two intact logs of the same length with the same last hash were hashed from the same texts, row by
  row, unless the digest collides on two of their rows; and where in both logs no action, entity type
  or entity id holds a bar and each value column is empty or one JSON document, they agree in every
  hashed field: previous hash, action, entity type and id, old and new values, and time.
\<close>

theorem tampering_shows:
  assumes "\<forall>t. length (h t) = 64"
    and "chained h GenesisHash l1" "chained h GenesisHash l2" "length l1 = length l2"
    and "last_hash GenesisHash l1 = last_hash GenesisHash l2"
    and "inj_on h (row_text ` (set l1 \<union> set l2))"
  shows "map row_text l1 = map row_text l2 \<and>
    (list_all plain_row (l1 @ l2) \<longrightarrow> map hashed_fields l1 = map hashed_fields l2)"
proof -
  have g: "length GenesisHash = 64" by (simp add: GenesisHash_def)
  have "map row_text l1 = map row_text l2" by (rule chained_same_end [OF assms(1) g assms(2-6)])
  with rows_fields [of l1 l2] length_chained_prev [OF assms(2) assms(1) g] length_chained_prev [OF assms(3) assms(1) g] show ?thesis
    by (simp add: list_all_iff ball_Un)
qed

definition sample_audit_row :: audit_row where
  "sample_audit_row = audit_row_of (\<lambda>_. GenesisHash) sample_entry GenesisHash (Json_text JNull) (Json_text (JStr ''x'')) 0 ''a-1''"

lemma sample_row_plain: "plain_row sample_audit_row"
proof -
  have "whole_value (render JNull)" "whole_value (render (JStr ''x''))"
    by (intro whole_value_render; simp add: valid_utf8_ascii ascii_def)+
  then show ?thesis by (simp add: plain_row_def sample_audit_row_def audit_row_of_def sample_entry_def no_bar_def bytes_of_def)
qed

theorem tampering_shows_witness:
  "map hashed_fields [sample_audit_row] = map hashed_fields [sample_audit_row\<lparr>au_entity_id := 8\<rparr>]"
proof -
  have "plain_row (sample_audit_row\<lparr>au_entity_id := 8\<rparr>)" using sample_row_plain by (simp add: plain_row_def)
  with sample_row_plain tampering_shows [of "\<lambda>_. GenesisHash" "[sample_audit_row]" "[sample_audit_row\<lparr>au_entity_id := 8\<rparr>]"]
  show ?thesis
    by (simp add: GenesisHash_def sample_audit_row_def audit_row_of_def row_hash_def ComputeHash_def last_hash_def row_text_def)
qed

end
