(* ===== verification/Task_Service.thy ===== *)
theory Task_Service
  imports Task_Store Outbox Audit_Log
begin

text \<open>
  The task service (\<open>internal/modules/tasks/service.go\<close>): each change runs in one transaction
  that also writes the outbox event and the audit entry. Its properties are proved over any
  store that keeps \<open>task_contract\<close> and hold of both stores.
\<close>

section \<open>The service\<close>

record task_service =
  sv_store :: task_store
  sv_audit :: bool

definition NewService :: "env \<Rightarrow> task_service" where
  "NewService e = \<lparr>sv_store = NewStore e, sv_audit = True\<rparr>"

definition tasksLayer :: string where "tasksLayer = ''tasks.service''"

definition taskWrap :: "string \<Rightarrow> go_error \<Rightarrow> go_error" where
  "taskWrap message err = wrap tasksLayer message err"

text \<open>\<open>json.Marshal\<close> of a \<open>*Task\<close>: the JSON names, \<open>omitempty\<close>, \<open>null\<close> for the nil pointer. Ids are
  unbounded in the tables of the model; what is written is the \<open>int64\<close>.\<close>

definition task_json :: "task \<Rightarrow> json" where
  "task_json t =
     JObj ([(''id'', JStr (ta_public t)), (''title'', JStr (ta_title t))] @
           (if ta_description t = [] then [] else [(''description'', JStr (ta_description t))]) @
           [(''status'', JStr (ta_status t))] @
           (case ta_assignee t of None \<Rightarrow> [] | Some a \<Rightarrow> [(''assignee_id'', JNum (wrapped 64 a))]) @
           [(''created_at'', JStr (rfc3339_nano (ta_created t))), (''updated_at'', JStr (rfc3339_nano (ta_updated t)))])"

definition marshal_task :: "task option \<Rightarrow> json" where
  "marshal_task t = (case t of None \<Rightarrow> JNull | Some x \<Rightarrow> task_json x)"

lemma task_json_readable: "readable max_nesting (marshal_task t)"
proof -
  have "readable d (JNum (wrapped 64 a))" for d a
    using wrapped_range [of 64 a] by (intro readable_int64) simp_all
  then show ?thesis
    by (auto simp: marshal_task_def task_json_def max_nesting_def simp del: readable.simps(1) split: option.split)
qed

definition actor_of :: "int \<Rightarrow> int option" where
  "actor_of uid = (if uid \<noteq> 0 then Some uid else None)"

definition audit_entry_of :: "int \<Rightarrow> string \<Rightarrow> task \<Rightarrow> task option \<Rightarrow> task option \<Rightarrow> audit_entry" where
  "audit_entry_of uid action t old new =
     \<lparr>ae_user = actor_of uid, ae_action = action, ae_entity_type = ''task'', ae_entity_id = ta_id t,
      ae_entity_public = ta_public t, ae_old = Json_text (marshal_task old), ae_new = Json_text (marshal_task new)\<rparr>"

definition logAudit :: "task_service \<Rightarrow> int \<Rightarrow> string \<Rightarrow> task \<Rightarrow> task option \<Rightarrow> task option \<Rightarrow> unit act" where
  "logAudit s uid action t old new =
     (if \<not> sv_audit s then ret () else LogTx (audit_entry_of uid action t old new))"

definition validation_error :: "task_input \<Rightarrow> go_error" where
  "validation_error i =
     NewAppError ''tasks.service'' ''VALIDATION_ERROR'' ''Invalid task data''
       (Some (Opaque (''validation: '' @ hd (Validate i))))"

definition Service_List :: "task_service \<Rightarrow> int \<Rightarrow> list_filter \<Rightarrow> task list act" where
  "Service_List s uid f = map_error (taskWrap ''Failed to list tasks'') (st_List (sv_store s) uid f)"

definition Service_Get :: "task_service \<Rightarrow> int \<Rightarrow> uuid \<Rightarrow> task act" where
  "Service_Get s uid pid = map_error (taskWrap ''Failed to find task'') (st_Find (sv_store s) uid pid)"

definition create_tx :: "task_service \<Rightarrow> ctx \<Rightarrow> int \<Rightarrow> task_input \<Rightarrow> task act" where
  "create_tx s c uid i =
     bind_act (st_Create (sv_store s) uid i) (\<lambda>t.
     bind_act (Add c ''task.created'' (Inr (task_json t))) (\<lambda>_.
     bind_act (logAudit s uid ''CREATE'' t None (Some t)) (\<lambda>_. ret t)))"

definition Service_Create :: "task_service \<Rightarrow> ctx \<Rightarrow> int \<Rightarrow> task_input \<Rightarrow> task act" where
  "Service_Create s c uid input =
     (let i = Normalize input in
      if Validate i \<noteq> [] then throw (validation_error i)
      else map_error (taskWrap ''Failed to create task'') (ExecTx (create_tx s c uid i)))"

definition update_tx :: "task_service \<Rightarrow> ctx \<Rightarrow> int \<Rightarrow> uuid \<Rightarrow> task_input \<Rightarrow> task act" where
  "update_tx s c uid pid i =
     bind_act (st_FindTx (sv_store s) uid pid) (\<lambda>old.
     bind_act (st_Update (sv_store s) uid pid i) (\<lambda>t.
     bind_act (Add c ''task.updated'' (Inr (task_json t))) (\<lambda>_.
     bind_act (logAudit s uid ''UPDATE'' t (Some old) (Some t)) (\<lambda>_. ret t))))"

definition Service_Update :: "task_service \<Rightarrow> ctx \<Rightarrow> int \<Rightarrow> uuid \<Rightarrow> task_input \<Rightarrow> task act" where
  "Service_Update s c uid pid input =
     (let i = Normalize input in
      if Validate i \<noteq> [] then throw (validation_error i)
      else map_error (taskWrap ''Failed to update task'') (ExecTx (update_tx s c uid pid i)))"

definition assign_error :: "go_error \<Rightarrow> go_error" where
  "assign_error err =
     (if errors_is err ''task not found''
      then NewAppError ''tasks.service'' ''VALIDATION_ERROR'' ''Assignee must be an active registered user'' (Some err)
      else err)"

definition assign_tx :: "task_service \<Rightarrow> ctx \<Rightarrow> int \<Rightarrow> uuid \<Rightarrow> int \<Rightarrow> task act" where
  "assign_tx s c actorUserID pid assigneeID =
     bind_act (st_FindTx (sv_store s) actorUserID pid) (\<lambda>t.
     bind_act (map_error assign_error (st_AssertActiveUser (sv_store s) assigneeID)) (\<lambda>_.
     bind_act (st_Assign (sv_store s) actorUserID pid assigneeID) (\<lambda>updated.
     bind_act (st_InsertLog (sv_store s) (ta_id updated) (ta_user updated) ''assign'' (ta_assignee t)
       (ta_assignee updated) (actor_of actorUserID)) (\<lambda>_.
     bind_act (Add c ''task.assigned''
       (Inr (JObj [(''assignee_id'', JNum assigneeID), (''task_id'', JStr pid)]))) (\<lambda>_.
     bind_act (logAudit s actorUserID ''ASSIGN'' updated (Some t) (Some updated)) (\<lambda>_. ret updated))))))"

definition Service_Assign :: "task_service \<Rightarrow> ctx \<Rightarrow> int \<Rightarrow> uuid \<Rightarrow> int \<Rightarrow> task act" where
  "Service_Assign s c actorUserID pid assigneeID =
     (if assigneeID = 0
      then throw (NewAppError ''tasks.service'' ''VALIDATION_ERROR'' ''Assignee ID is required'' None)
      else map_error (taskWrap ''Failed to assign task'') (ExecTx (assign_tx s c actorUserID pid assigneeID)))"

definition delete_tx :: "task_service \<Rightarrow> ctx \<Rightarrow> int \<Rightarrow> uuid \<Rightarrow> unit act" where
  "delete_tx s c uid pid =
     bind_act (st_FindTx (sv_store s) uid pid) (\<lambda>old.
     bind_act (st_Delete (sv_store s) uid pid) (\<lambda>_.
     bind_act (Add c ''task.deleted'' (Inr (JObj [(''id'', JStr pid)]))) (\<lambda>_.
       logAudit s uid ''DELETE'' old (Some old) None)))"

definition Service_Delete :: "task_service \<Rightarrow> ctx \<Rightarrow> int \<Rightarrow> uuid \<Rightarrow> unit act" where
  "Service_Delete s c uid pid =
     map_error (taskWrap ''Failed to delete task'') (ExecTx (delete_tx s c uid pid))"

section \<open>What a change records\<close>

text \<open>The one event a change adds to the outbox, and the one audit row.\<close>

definition recorded_event :: "string \<Rightarrow> json \<Rightarrow> ctx \<Rightarrow> env \<Rightarrow> outbox_row \<Rightarrow> bool" where
  "recorded_event ty payload c e r \<longleftrightarrow>
     ob_type r = ty \<and> ob_status r = ''pending'' \<and> ob_attempts r = 0 \<and>
     ob_user r = (if GetUserID c \<noteq> 0 then Some (GetUserID c) else None) \<and>
     (GetCorrelationID c \<noteq> [] \<longrightarrow> ob_cid r = Some (GetCorrelationID c)) \<and>
     (let b = bytes_of (fst (RedactJSON (to_lower e) (Json_text payload)))
      in if driver_of e = DriverPostgres then pg_jsonb e b = Some (ob_payload r) else ob_payload r = b)"

definition recorded_audit :: "audit_entry \<Rightarrow> env \<Rightarrow> audit_row \<Rightarrow> bool" where
  "recorded_audit entry e r \<longleftrightarrow>
     au_user r = ae_user entry \<and> au_action r = ae_action entry \<and> au_entity_type r = ae_entity_type entry \<and>
     au_entity_id r = ae_entity_id entry \<and> au_entity_public r = ae_entity_public entry \<and>
     au_old r = bytes_of (fst (RedactJSON (to_lower e) (ae_old entry))) \<and>
     au_new r = bytes_of (fst (RedactJSON (to_lower e) (ae_new entry)))"

text \<open>The tables a change records in, with everything else as the change left it.\<close>

definition records :: "string \<Rightarrow> json \<Rightarrow> audit_entry \<Rightarrow> ctx \<Rightarrow> env \<Rightarrow> db \<Rightarrow> db \<Rightarrow> db \<Rightarrow> bool" where
  "records ty payload entry c e d d1 d' \<longleftrightarrow>
     (\<exists>ob au. outbox d' = outbox d @ [ob] \<and> recorded_event ty payload c e ob \<and>
        audit_logs d' = audit_logs d @ [au] \<and> recorded_audit entry e au \<and>
        d' = d1\<lparr>outbox := outbox d', seq_outbox := seq_outbox d', audit_logs := audit_logs d', seq_audit := seq_audit d'\<rparr>)"

lemma Add_records:
  assumes "Add c ty (Inr payload) e w = (Done u, w')"
  shows "\<exists>ob. dbase w' = (dbase w)\<lparr>outbox := outbox (dbase w) @ [ob], seq_outbox := seq_outbox (dbase w) + 1\<rparr> \<and>
    recorded_event ty payload c e ob"
proof -
  from Add_DoneD [OF assms] obtain cid now where
    c: "GetCorrelationID c \<noteq> [] \<longrightarrow> cid = GetCorrelationID c" and
    i: "insert_outbox (new_outbox_row ty (bytes_of (fst (RedactJSON (to_lower e) (Json_text payload)))) cid
      (if GetUserID c \<noteq> 0 then Some (GetUserID c) else None) now) e (dbase w) = Inr ((), dbase w')"
    by auto
  from insert_outbox_InrD [OF i] obtain b where
    "dbase w' = (dbase w)\<lparr>outbox := outbox (dbase w) @ [(new_outbox_row ty (bytes_of (fst (RedactJSON (to_lower e) (Json_text payload)))) cid
      (if GetUserID c \<noteq> 0 then Some (GetUserID c) else None) now)\<lparr>ob_id := seq_outbox (dbase w) + 1, ob_payload := b\<rparr>],
      seq_outbox := seq_outbox (dbase w) + 1\<rparr>"
    "if driver_of e = DriverPostgres then pg_jsonb e (bytes_of (fst (RedactJSON (to_lower e) (Json_text payload)))) = Some b
     else b = bytes_of (fst (RedactJSON (to_lower e) (Json_text payload)))"
    by (auto simp: new_outbox_row_def split: if_splits)
  with c show ?thesis by (auto simp: recorded_event_def new_outbox_row_def Let_def split: if_splits)
qed

lemma LogTx_records:
  assumes "LogTx entry e w = (Done u, w')"
  shows "\<exists>au. dbase w' = (dbase w)\<lparr>audit_logs := audit_logs (dbase w) @ [au], seq_audit := seq_audit (dbase w) + 1\<rparr> \<and>
    recorded_audit entry e au"
  using LogTx_DoneD [OF assms] by (auto simp: recorded_audit_def audit_row_of_def)

lemma records_both:
  assumes a: "Add c ty (Inr payload) e w1 = (Done u, w2)"
    and l: "logAudit s uid action t old new e w2 = (Done v, w')"
    and s: "sv_audit s"
    and same: "outbox (dbase w1) = outbox d" "audit_logs (dbase w1) = audit_logs d"
  shows "records ty payload (audit_entry_of uid action t old new) c e d (dbase w1) (dbase w')"
proof -
  from Add_records [OF a] obtain ob where
    ob: "dbase w2 = (dbase w1)\<lparr>outbox := outbox (dbase w1) @ [ob], seq_outbox := seq_outbox (dbase w1) + 1\<rparr>"
    "recorded_event ty payload c e ob" by blast
  from l s have "LogTx (audit_entry_of uid action t old new) e w2 = (Done v, w')" by (simp add: logAudit_def)
  from LogTx_records [OF this] obtain au where
    "dbase w' = (dbase w2)\<lparr>audit_logs := audit_logs (dbase w2) @ [au], seq_audit := seq_audit (dbase w2) + 1\<rparr>"
    "recorded_audit (audit_entry_of uid action t old new) e au" by blast
  with ob same show ?thesis unfolding records_def by (intro exI [of _ ob] exI [of _ au]) simp
qed

section \<open>Changes are all or nothing\<close>

text \<open>\<open>effect R d res d'\<close>: the call succeeded and the tables moved along \<open>R\<close>, or it did not
  succeed and left them alone.\<close>

definition effect :: "('a \<Rightarrow> db \<Rightarrow> db \<Rightarrow> bool) \<Rightarrow> db \<Rightarrow> 'a result \<Rightarrow> db \<Rightarrow> bool" where
  "effect R d res d' \<longleftrightarrow> (\<exists>a. res = Done a \<and> R a d d') \<or> (\<forall>a. res \<noteq> Done a) \<and> d' = d"

lemma service_tx:
  assumes run: "map_error f (ExecTx fn) e w = (res, w')"
    and body: "\<And>w1 w2 a. fn e w1 = (Done a, w2) \<Longrightarrow> R a (dbase w1) (dbase w2)"
  shows "effect R (dbase w) res (dbase w')"
proof -
  obtain res1 w1 where x: "ExecTx fn e w = (res1, w1)" by fastforce
  have "(\<exists>a. res1 = Done a \<and> R a (dbase w) (dbase w1)) \<or> (\<forall>a. res1 \<noteq> Done a) \<and> dbase w1 = dbase w"
    by (rule tx.all_or_nothing [OF _ x]) (rule body)
  moreover have "w' = w1" "\<And>a. res = Done a \<longleftrightarrow> res1 = Done a"
    using run x by (auto simp: map_error_def split: result.splits)
  ultimately show ?thesis unfolding effect_def by auto
qed

text \<open>The changes, as relations on the tables.\<close>

definition created :: "ctx \<Rightarrow> env \<Rightarrow> int \<Rightarrow> task_input \<Rightarrow> task \<Rightarrow> db \<Rightarrow> db \<Rightarrow> bool" where
  "created c e uid i t d d' \<longleftrightarrow>
     (\<exists>pid now r. r = (new_task_row pid uid i now)\<lparr>tk_id := seq_tasks d + 1\<rparr> \<and> reads e r t \<and>
       records ''task.created'' (task_json t) (audit_entry_of uid ''CREATE'' t None (Some t)) c e d
         (d\<lparr>tasks := tasks d @ [r], seq_tasks := seq_tasks d + 1\<rparr>) d')"

definition updated :: "ctx \<Rightarrow> env \<Rightarrow> int \<Rightarrow> uuid \<Rightarrow> task_input \<Rightarrow> task \<Rightarrow> db \<Rightarrow> db \<Rightarrow> bool" where
  "updated c e uid pid i t d d' \<longleftrightarrow>
     (\<exists>r old now. owned d uid pid = Some r \<and> reads e r old \<and> reads e (edited i now r) t \<and>
       records ''task.updated'' (task_json t) (audit_entry_of uid ''UPDATE'' t (Some old) (Some t)) c e d
         (d\<lparr>tasks := update_where (owns uid pid) (edited i now) (tasks d)\<rparr>) d')"

definition assigned :: "ctx \<Rightarrow> env \<Rightarrow> int \<Rightarrow> uuid \<Rightarrow> int \<Rightarrow> task \<Rightarrow> db \<Rightarrow> db \<Rightarrow> bool" where
  "assigned c e uid pid a t d d' \<longleftrightarrow>
     active_user d a \<and>
     (\<exists>r old now now2. owned d uid pid = Some r \<and> reads e r old \<and> reads e (assigned_to a now r) t \<and>
       records ''task.assigned'' (JObj [(''assignee_id'', JNum a), (''task_id'', JStr pid)])
         (audit_entry_of uid ''ASSIGN'' t (Some old) (Some t)) c e d
         (d\<lparr>tasks := update_where (owns uid pid) (assigned_to a now) (tasks d),
            task_logs := task_logs d @ [(new_log_row (tk_id r) uid ''assign'' (tk_assignee r) (Some a) (actor_of uid) now2)
              \<lparr>tl_id := seq_task_logs d + 1\<rparr>],
            seq_task_logs := seq_task_logs d + 1\<rparr>) d')"

definition deleted :: "ctx \<Rightarrow> env \<Rightarrow> int \<Rightarrow> uuid \<Rightarrow> db \<Rightarrow> db \<Rightarrow> bool" where
  "deleted c e uid pid d d' \<longleftrightarrow>
     (\<exists>r old. owned d uid pid = Some r \<and> reads e r old \<and>
       records ''task.deleted'' (JObj [(''id'', JStr pid)]) (audit_entry_of uid ''DELETE'' old (Some old) None) c e d
         (d\<lparr>tasks := delete_where (owns uid pid) (tasks d),
            task_logs := delete_where (\<lambda>l. tl_task l \<in> set (map tk_id (filter (owns uid pid) (tasks d)))) (task_logs d)\<rparr>) d')"

context task_contract begin

lemma create_tx_effect:
  assumes s: "sv_store s = store" "sv_audit s" and run: "create_tx s c uid i e w = (Done t, w')"
  shows "created c e uid i t (dbase w) (dbase w')"
proof -
  from run obtain w1 u w2 v where
    st: "st_Create store uid i e w = (Done t, w1)" and
    a: "Add c ''task.created'' (Inr (task_json t)) e w1 = (Done u, w2)" and
    l: "logAudit s uid ''CREATE'' t None (Some t) e w2 = (Done v, w')"
    unfolding create_tx_def s(1) by (auto simp: act_simps elim!: bind_act_DoneD)
  from create [OF st] obtain pid now r where
    r: "r = (new_task_row pid uid i now)\<lparr>tk_id := seq_tasks (dbase w) + 1\<rparr>" "reads e r t"
    "dbase w1 = (dbase w)\<lparr>tasks := tasks (dbase w) @ [r], seq_tasks := seq_tasks (dbase w) + 1\<rparr>"
    by blast
  from records_both [OF a l s(2), of "dbase w"] r show ?thesis
    unfolding created_def by (intro exI [of _ pid] exI [of _ now] exI [of _ r]) simp
qed

lemma update_tx_effect:
  assumes s: "sv_store s = store" "sv_audit s" and run: "update_tx s c uid pid i e w = (Done t, w')"
  shows "updated c e uid pid i t (dbase w) (dbase w')"
proof -
  from run obtain old w0 w1 u w2 v where
    f: "st_FindTx store uid pid e w = (Done old, w0)" and
    st: "st_Update store uid pid i e w0 = (Done t, w1)" and
    a: "Add c ''task.updated'' (Inr (task_json t)) e w1 = (Done u, w2)" and
    l: "logAudit s uid ''UPDATE'' t (Some old) (Some t) e w2 = (Done v, w')"
    unfolding update_tx_def s(1) by (auto simp: act_simps elim!: bind_act_DoneD)
  from find [OF f] update [OF st] obtain r now where
    r: "owned (dbase w) uid pid = Some r" "reads e r old" "reads e (edited i now r) t"
    "dbase w1 = (dbase w)\<lparr>tasks := update_where (owns uid pid) (edited i now) (tasks (dbase w))\<rparr>"
    by auto
  from records_both [OF a l s(2), of "dbase w"] r show ?thesis
    unfolding updated_def by (intro exI [of _ r] exI [of _ old] exI [of _ now]) simp
qed

lemma assign_tx_effect:
  assumes s: "sv_store s = store" "sv_audit s" and run: "assign_tx s c uid pid a e w = (Done t, w')"
  shows "assigned c e uid pid a t (dbase w) (dbase w')"
proof -
  from run obtain old w0 x wa w1 y w2 u w3 v where
    f: "st_FindTx store uid pid e w = (Done old, w0)" and
    ac: "st_AssertActiveUser store a e w0 = (Done x, wa)" and
    st: "st_Assign store uid pid a e wa = (Done t, w1)" and
    lg: "st_InsertLog store (ta_id t) (ta_user t) ''assign'' (ta_assignee old) (ta_assignee t) (actor_of uid) e w1 = (Done y, w2)" and
    ad: "Add c ''task.assigned'' (Inr (JObj [(''assignee_id'', JNum a), (''task_id'', JStr pid)])) e w2 = (Done u, w3)" and
    l: "logAudit s uid ''ASSIGN'' t (Some old) (Some t) e w3 = (Done v, w')"
    unfolding assign_tx_def s(1) by (auto simp: act_simps elim!: bind_act_DoneD)
  from find [OF f] active [OF ac] assign [OF st] obtain r now where
    r: "owned (dbase w) uid pid = Some r" "reads e r old" "reads e (assigned_to a now r) t" "active_user (dbase w) a"
    "dbase w1 = (dbase w)\<lparr>tasks := update_where (owns uid pid) (assigned_to a now) (tasks (dbase w))\<rparr>"
    by auto
  have "tk_user r = uid" using r(1) by (auto simp: owned_def owns_def dest!: first_row_SomeD)
  with r have fields: "ta_id t = tk_id r" "ta_user t = uid" "ta_assignee old = tk_assignee r" "ta_assignee t = Some a"
    by (auto dest!: reads_fields simp: assigned_to_def)
  from log [OF lg] obtain now2 where w2: "dbase w2 = (dbase w1)
      \<lparr>task_logs := task_logs (dbase w1) @ [(new_log_row (tk_id r) uid ''assign'' (tk_assignee r) (Some a) (actor_of uid) now2)
         \<lparr>tl_id := seq_task_logs (dbase w1) + 1\<rparr>],
       seq_task_logs := seq_task_logs (dbase w1) + 1\<rparr>"
    unfolding fields by blast
  from records_both [OF ad l s(2), of "dbase w"] r w2 show ?thesis
    unfolding assigned_def
    by (intro conjI exI [of _ r] exI [of _ old] exI [of _ now] exI [of _ now2]) simp_all
qed

lemma delete_tx_effect:
  assumes s: "sv_store s = store" "sv_audit s" and run: "delete_tx s c uid pid e w = (Done u, w')"
  shows "deleted c e uid pid (dbase w) (dbase w')"
proof -
  from run obtain old w0 x w1 y w2 v where
    f: "st_FindTx store uid pid e w = (Done old, w0)" and
    st: "st_Delete store uid pid e w0 = (Done x, w1)" and
    a: "Add c ''task.deleted'' (Inr (JObj [(''id'', JStr pid)])) e w1 = (Done y, w2)" and
    l: "logAudit s uid ''DELETE'' old (Some old) None e w2 = (Done v, w')"
    unfolding delete_tx_def s(1) by (auto simp: act_simps elim!: bind_act_DoneD)
  from find [OF f] obtain r where r: "owned (dbase w) uid pid = Some r" "reads e r old" "dbase w0 = dbase w" by auto
  from delete [OF st] r(3) have w1: "dbase w1 = (dbase w)\<lparr>tasks := delete_where (owns uid pid) (tasks (dbase w)),
      task_logs := delete_where (\<lambda>l. tl_task l \<in> set (map tk_id (filter (owns uid pid) (tasks (dbase w))))) (task_logs (dbase w))\<rparr>"
    by simp
  from records_both [OF a l s(2), of "dbase w"] r(1,2) w1 show ?thesis
    unfolding deleted_def by (intro exI [of _ r] exI [of _ old]) simp
qed

text \<open>A task that is not there, or not the caller's, is \<open>NOT_FOUND\<close> and nothing happens.\<close>

lemma update_missing:
  assumes "sv_store s = store" "owned (dbase w) uid pid = None" "update_tx s c uid pid i e w = (res, w')"
  shows "missing e res"
proof -
  obtain r1 w1 where f: "st_FindTx store uid pid e w = (r1, w1)" by fastforce
  from find_missing [OF assms(2) f] obtain err where "r1 = Fail_with err" "missing e r1" by (auto simp: missing_def)
  with assms f show ?thesis by (auto simp: update_tx_def bind_act_def missing_def)
qed

lemma assign_missing:
  assumes "sv_store s = store" "owned (dbase w) uid pid = None" "assign_tx s c uid pid a e w = (res, w')"
  shows "missing e res"
proof -
  obtain r1 w1 where f: "st_FindTx store uid pid e w = (r1, w1)" by fastforce
  from find_missing [OF assms(2) f] obtain err where "r1 = Fail_with err" "missing e r1" by (auto simp: missing_def)
  with assms f show ?thesis by (auto simp: assign_tx_def bind_act_def missing_def)
qed

lemma delete_missing:
  assumes "sv_store s = store" "owned (dbase w) uid pid = None" "delete_tx s c uid pid e w = (res, w')"
  shows "missing e res"
proof -
  obtain r1 w1 where f: "st_FindTx store uid pid e w = (r1, w1)" by fastforce
  from find_missing [OF assms(2) f] obtain err where "r1 = Fail_with err" "missing e r1" by (auto simp: missing_def)
  with assms f show ?thesis by (auto simp: delete_tx_def bind_act_def missing_def)
qed

lemma Service_Create_effect:
  assumes "sv_store s = store" "sv_audit s" "Service_Create s c uid input e w = (res, w')"
  shows "effect (\<lambda>t d d'. Validate (Normalize input) = [] \<and> created c e uid (Normalize input) t d d') (dbase w) res (dbase w')"
proof (cases "Validate (Normalize input) = []")
  case True
  with assms(3) have "map_error (taskWrap ''Failed to create task'') (ExecTx (create_tx s c uid (Normalize input))) e w = (res, w')"
    by (simp add: Service_Create_def Let_def)
  then show ?thesis
    by (rule service_tx) (use True create_tx_effect [OF assms(1,2)] in blast)
next
  case False
  with assms(3) show ?thesis by (auto simp: Service_Create_def Let_def act_simps effect_def)
qed

lemma Service_Update_effect:
  assumes "sv_store s = store" "sv_audit s" "Service_Update s c uid pid input e w = (res, w')"
  shows "effect (\<lambda>t d d'. Validate (Normalize input) = [] \<and> updated c e uid pid (Normalize input) t d d') (dbase w) res (dbase w')"
proof (cases "Validate (Normalize input) = []")
  case True
  with assms(3) have "map_error (taskWrap ''Failed to update task'') (ExecTx (update_tx s c uid pid (Normalize input))) e w = (res, w')"
    by (simp add: Service_Update_def Let_def)
  then show ?thesis
    by (rule service_tx) (use True update_tx_effect [OF assms(1,2)] in blast)
next
  case False
  with assms(3) show ?thesis by (auto simp: Service_Update_def Let_def act_simps effect_def)
qed

lemma Service_Assign_effect:
  assumes "sv_store s = store" "sv_audit s" "Service_Assign s c uid pid a e w = (res, w')"
  shows "effect (assigned c e uid pid a) (dbase w) res (dbase w')"
proof (cases "a = 0")
  case False
  with assms(3) have "map_error (taskWrap ''Failed to assign task'') (ExecTx (assign_tx s c uid pid a)) e w = (res, w')"
    by (simp add: Service_Assign_def)
  then show ?thesis by (rule service_tx) (rule assign_tx_effect [OF assms(1,2)])
next
  case True
  with assms(3) show ?thesis by (auto simp: Service_Assign_def act_simps effect_def)
qed

lemma Service_Delete_effect:
  assumes "sv_store s = store" "sv_audit s" "Service_Delete s c uid pid e w = (res, w')"
  shows "effect (\<lambda>_. deleted c e uid pid) (dbase w) res (dbase w')"
  using assms(3) unfolding Service_Delete_def
  by (rule service_tx) (rule delete_tx_effect [OF assms(1,2)])

end

text \<open>Both stores, so whatever service the program builds.\<close>

lemma NewService_store: "sv_store (NewService e) = Store \<or> sv_store (NewService e) = sqliteStore"
  by (simp add: NewService_def NewStore_def)

lemma NewService_audit [simp]: "sv_audit (NewService e)"
  by (simp add: NewService_def)

section \<open>The audit chain\<close>

text \<open>No statement of the stores and no outbox insert touches the audit log.\<close>

lemma Add_keeps_chain: "preserves (keeps_chain e) e (Add c ty payload)"
proof (cases payload)
  case (Inl err)
  then show ?thesis using keeps_chain_pre by (simp add: Add_def keep_intros)
next
  case (Inr j)
  show ?thesis
    unfolding Inr Add_def sum.case Let_def
    by (subst preserves_env [where m' = "bind_act _ _"], rule refl)
      (auto intro!: keep_intros keeps_chain_pre keeps_chain_same dest!: insert_outbox_InrD)
qed

lemma logAudit_keeps_chain: "preserves (keeps_chain e) e (logAudit s uid action t old new)"
  by (simp add: logAudit_def LogTx_keeps_chain preserves_simple keeps_chain_pre)

lemma scanned_keeps: "reflp R \<Longrightarrow> preserves R e (scanned r)"
  by (auto simp: preserves_def scanned_def act_simps reflp_def split: sum.splits)

lemma statements_keep_chain:
  "insert_task r e d = Inr (x, d') \<Longrightarrow> keeps_chain e' d d'"
  "insert_task_log l e d = Inr (y, d') \<Longrightarrow> keeps_chain e' d d'"
  "update_task u p pre post f e d = Inr (z, d') \<Longrightarrow> keeps_chain e' d d'"
  by (auto intro!: keeps_chain_same dest!: insert_task_InrD insert_task_log_InrD update_task_InrD)

lemma delete_keeps_chain: "preserves (keeps_chain e) e (delete_task u p)"
  unfolding delete_task_def by (intro preserves_stmt keeps_chain_pre) (auto simp: Let_def intro: keeps_chain_same)

lemma stores_keep_chain:
  assumes "st = Store \<or> st = sqliteStore"
  shows "preserves (keeps_chain e) e (st_FindTx st u p)" "preserves (keeps_chain e) e (st_Create st u i)"
    "preserves (keeps_chain e) e (st_Update st u p i)" "preserves (keeps_chain e) e (st_Delete st u p)"
    "preserves (keeps_chain e) e (st_AssertActiveUser st a)" "preserves (keeps_chain e) e (st_Assign st u p a)"
    "preserves (keeps_chain e) e (st_InsertLog st k u act oldA newA actor)"
  using assms
  by (auto simp: Store_def sqliteStore_def Store_find_def sqlite_find_def Store_Create_def sqlite_Create_def
      Store_Update_def sqlite_Update_def Store_Delete_def sqlite_Delete_def deleted_count_def
      Store_AssertActiveUser_def sqlite_AssertActiveUser_def Store_Assign_def sqlite_Assign_def
      Store_InsertLog_def sqlite_InsertLog_def select_task_def
      intro!: keep_intros keeps_chain_pre scanned_keeps delete_keeps_chain intro: statements_keep_chain)

text \<open>The bodies of the four transactions.\<close>

lemma changes_keep_chain:
  assumes "sv_store s = Store \<or> sv_store s = sqliteStore"
  shows "preserves (keeps_chain e) e (create_tx s c uid i)" "preserves (keeps_chain e) e (update_tx s c uid pid i)"
    "preserves (keeps_chain e) e (assign_tx s c uid pid a)" "preserves (keeps_chain e) e (delete_tx s c uid pid)"
  unfolding create_tx_def update_tx_def assign_tx_def delete_tx_def
  by (intro keep_intros keeps_chain_pre stores_keep_chain assms Add_keeps_chain logAudit_keeps_chain)+

end
