(* ===== verification/Task_Handler.thy ===== *)
theory Task_Handler
  imports Task_Service "HOL-Library.Word"
begin

text \<open>
  The HTTP handlers of the tasks (\<open>internal/modules/tasks/handler.go\<close>), with the page arithmetic
  at the width Go gives it.
\<close>

section \<open>Reading the request\<close>

definition invalid :: "string \<Rightarrow> env \<Rightarrow> world \<Rightarrow> writer_op list \<times> world" where
  "invalid message = Fail 422 ''VALIDATION_ERROR'' message"

text \<open>\<open>(v - 1) * int64(q.Limit)\<close> and the conversion to \<open>int32\<close>.\<close>

definition page_offset :: "int \<Rightarrow> int \<Rightarrow> 64 word" where
  "page_offset v limit = (word_of_int v - 1) * word_of_int limit"

definition to_int32 :: "64 word \<Rightarrow> int" where
  "to_int32 n = sint (ucast n :: 32 word)"

datatype 'a checked = Ok 'a | Refused string

definition parse_status :: "string \<Rightarrow> string checked" where
  "parse_status raw =
     (let status = trim_space raw in
      if status = [] then Ok [] else if IsValidStatus status then Ok status
      else Refused ''status must be pending, in_progress, or done'')"

definition parse_search :: "string \<Rightarrow> string checked" where
  "parse_search raw =
     (let search = trim_space raw in
      if length search > MaxSearchLength then Refused ''search must be 255 characters or fewer'' else Ok search)"

definition parse_limit :: "string \<Rightarrow> int checked" where
  "parse_limit raw =
     (if raw = [] then Ok DefaultListLimit
      else (case parse_int 32 raw of
              None \<Rightarrow> Refused ''limit must be between 1 and 100''
            | Some v \<Rightarrow> if v < 1 \<or> v > MaxListLimit then Refused ''limit must be between 1 and 100'' else Ok v))"

definition parse_page :: "string \<Rightarrow> int \<Rightarrow> int checked" where
  "parse_page raw limit =
     (case parse_int 64 raw of
        None \<Rightarrow> Refused ''page must be 1 or greater''
      | Some v \<Rightarrow>
          if v < 1 then Refused ''page must be 1 or greater''
          else let offset = page_offset v limit in
            if sint offset > MaxListOffset then Refused ''page is too deep'' else Ok (to_int32 offset))"

definition parse_offset :: "string \<Rightarrow> int checked" where
  "parse_offset raw =
     (if raw = [] then Ok 0
      else (case parse_int 32 raw of
              None \<Rightarrow> Refused ''offset must be 0 or greater''
            | Some v \<Rightarrow>
                if v < 0 then Refused ''offset must be 0 or greater''
                else if v > MaxListOffset then Refused ''offset is too large'' else Ok v))"

text \<open>\<open>parseListQuery\<close>: a page takes precedence over an offset.\<close>

definition list_query :: "request \<Rightarrow> list_filter checked" where
  "list_query r =
     (case parse_status (query_get r ''status'') of
        Refused m \<Rightarrow> Refused m
      | Ok status \<Rightarrow>
     (case parse_search (query_get r ''search'') of
        Refused m \<Rightarrow> Refused m
      | Ok search \<Rightarrow>
     (case parse_limit (query_get r ''limit'') of
        Refused m \<Rightarrow> Refused m
      | Ok limit \<Rightarrow>
     (case (if query_get r ''page'' \<noteq> [] then parse_page (query_get r ''page'') limit
            else parse_offset (query_get r ''offset'')) of
        Refused m \<Rightarrow> Refused m
      | Ok offset \<Rightarrow>
          Ok \<lparr>lf_status = status, lf_search = search, lf_limit = limit, lf_offset = offset\<rparr>))))"

definition parseListQuery :: "request \<Rightarrow> env \<Rightarrow> world \<Rightarrow> (writer_op list + list_filter) \<times> world" where
  "parseListQuery r e w =
     (case list_query r of
        Ok f \<Rightarrow> (Inr f, w)
      | Refused m \<Rightarrow> (case invalid m e w of (xs, w') \<Rightarrow> (Inl xs, w')))"

definition parseID :: "request \<Rightarrow> env \<Rightarrow> world \<Rightarrow> (writer_op list + uuid) \<times> world" where
  "parseID r e w =
     (case uuid_parse e (rq_path_value r) of
        Some i \<Rightarrow> (Inr i, w)
      | None \<Rightarrow> (case Fail 400 ''INVALID_ID'' ''Invalid ID format'' e w of (xs, w') \<Rightarrow> (Inl xs, w')))"

section \<open>The handlers\<close>

definition user_of :: "request \<Rightarrow> int" where
  "user_of r = GetUserID (rq_ctx r)"

definition Handler_List :: "task_service \<Rightarrow> handler" where
  "Handler_List s e r h w =
     guarded_by (parseListQuery r)
       (\<lambda>f. respond ''Failed to fetch tasks'' (\<lambda>ts. OK_reply (JArr (map task_json ts)))
         (Service_List s (user_of r) f)) e w"

definition status_option_json :: "string \<times> string \<Rightarrow> json" where
  "status_option_json opt = JObj [(''value'', JStr (fst opt)), (''label'', JStr (snd opt))]"

definition Handler_Statuses :: handler where
  "Handler_Statuses e r h w = (returns (OK_reply (JArr (map status_option_json StatusOptions))), w)"

definition Handler_Get :: "task_service \<Rightarrow> handler" where
  "Handler_Get s e r h w =
     guarded_by (parseID r)
       (\<lambda>i. respond ''Failed to fetch task'' (\<lambda>t. OK_reply (task_json t)) (Service_Get s (user_of r) i)) e w"

text \<open>The bodies of the requests.\<close>

definition decode_Input :: "doc \<Rightarrow> task_input option" where
  "decode_Input =
     into_struct
       [(''title'', string_field (\<lambda>s i. i\<lparr>in_title := s\<rparr>)),
        (''description'', string_field (\<lambda>s i. i\<lparr>in_description := s\<rparr>)),
        (''status'', string_field (\<lambda>s i. i\<lparr>in_status := s\<rparr>))]
       \<lparr>in_title = [], in_description = [], in_status = []\<rparr>"

definition decode_assign :: "doc \<Rightarrow> int option" where
  "decode_assign = into_struct [(''assignee_id'', int64_field (\<lambda>n _. n))] 0"

definition Handler_Create :: "task_service \<Rightarrow> handler" where
  "Handler_Create s e r h w =
     guarded_by (Decode decode_Input r)
       (\<lambda>input. respond ''Failed to create task'' (\<lambda>t. Created_reply (task_json t))
         (Service_Create s (rq_ctx r) (user_of r) input)) e w"

definition Handler_Update :: "task_service \<Rightarrow> handler" where
  "Handler_Update s e r h w =
     guarded_by (parseID r) (\<lambda>i.
     guarded_by (Decode decode_Input r) (\<lambda>input.
       respond ''Failed to update task'' (\<lambda>t. OK_reply (task_json t))
         (Service_Update s (rq_ctx r) (user_of r) i input))) e w"

definition Handler_Assign :: "task_service \<Rightarrow> handler" where
  "Handler_Assign s e r h w =
     guarded_by (parseID r) (\<lambda>i.
     guarded_by (Decode decode_assign r) (\<lambda>assignee e w.
       if assignee = 0 then answered_with (invalid ''Assignee ID is required'' e w)
       else respond ''Failed to assign task'' (\<lambda>t. OK_reply (task_json t))
         (Service_Assign s (rq_ctx r) (user_of r) i assignee) e w)) e w"

definition Handler_Delete :: "task_service \<Rightarrow> handler" where
  "Handler_Delete s e r h w =
     guarded_by (parseID r)
       (\<lambda>i. respond ''Failed to delete task'' (\<lambda>_. NoContent_reply) (Service_Delete s (rq_ctx r) (user_of r) i)) e w"

section \<open>The page arithmetic\<close>

lemma sint64: "-(2^63) \<le> k \<Longrightarrow> k < 2^63 \<Longrightarrow> sint (word_of_int k :: 64 word) = k"
  by (simp add: signed_of_int signed_take_bit_int_eq_self)

lemma sint32: "-(2^31) \<le> k \<Longrightarrow> k < 2^31 \<Longrightarrow> sint (word_of_int k :: 32 word) = k"
  by (simp add: signed_of_int signed_take_bit_int_eq_self)

lemma ucast32: "0 \<le> k \<Longrightarrow> k < 2^63 \<Longrightarrow> (ucast (word_of_int k :: 64 word) :: 32 word) = word_of_int k"
  by (simp add: unsigned_of_int take_bit_int_eq_self)

lemma page_offset_int: "page_offset v limit = word_of_int ((v - 1) * limit)"
  by (simp add: page_offset_def)

text \<open>Where the product fits in 64 bits, the page check is what it says.\<close>

lemma parse_page_exact:
  assumes "parse_page raw limit = Ok k" "parse_int 64 raw = Some v" "1 \<le> limit" "(v - 1) * limit < 2^63"
  shows "1 \<le> v \<and> k = (v - 1) * limit \<and> k \<le> MaxListOffset"
proof -
  from assms(1,2) have v: "1 \<le> v" and
    m: "sint (page_offset v limit) \<le> MaxListOffset" "k = to_int32 (page_offset v limit)"
    by (simp_all add: parse_page_def Let_def split: if_splits)
  have nn: "0 \<le> (v - 1) * limit" using v assms(3) by simp
  then have s: "sint (page_offset v limit) = (v - 1) * limit"
    unfolding page_offset_int using assms(4) by (intro sint64) simp_all
  with m(1) have le: "(v - 1) * limit \<le> 100000" by (simp add: MaxListOffset_def)
  have "k = (v - 1) * limit"
    unfolding m(2) to_int32_def page_offset_int ucast32 [OF nn assms(4)]
    using nn le by (intro sint32) simp_all
  with v le show ?thesis by (simp add: MaxListOffset_def)
qed

lemma parse_limit_Ok: "parse_limit raw = Ok k \<Longrightarrow> 1 \<le> k \<and> k \<le> MaxListLimit"
  by (auto simp: parse_limit_def DefaultListLimit_def MaxListLimit_def split: if_splits option.splits)

lemma parse_offset_Ok: "parse_offset raw = Ok k \<Longrightarrow> 0 \<le> k \<and> k \<le> MaxListOffset"
  by (auto simp: parse_offset_def MaxListOffset_def split: if_splits option.splits)

lemma parse_status_Ok: "parse_status raw = Ok s \<Longrightarrow> s = [] \<or> IsValidStatus s"
  by (auto simp: parse_status_def Let_def split: if_splits)

lemma parse_search_Ok: "parse_search raw = Ok s \<Longrightarrow> length s \<le> MaxSearchLength"
  by (auto simp: parse_search_def Let_def split: if_splits)

lemma list_query_OkD:
  assumes "list_query r = Ok f"
  shows "parse_status (query_get r ''status'') = Ok (lf_status f)"
    "parse_search (query_get r ''search'') = Ok (lf_search f)"
    "parse_limit (query_get r ''limit'') = Ok (lf_limit f)"
    "(if query_get r ''page'' \<noteq> [] then parse_page (query_get r ''page'') (lf_limit f)
      else parse_offset (query_get r ''offset'')) = Ok (lf_offset f)"
  using assms by (auto simp: list_query_def split: checked.splits)

text \<open>
  A list query that is accepted asks for a valid status or none, a search of at most 255 bytes
  and between 1 and 100 tasks. Given as an offset the start is between 0 and 100000; given as a
  page it is the first task of the page and at most 100000, as long as the product of page and
  limit is below 2^63.
\<close>

theorem list_query_bounds:
  assumes "list_query r = Ok f"
  shows "(lf_status f = [] \<or> IsValidStatus (lf_status f)) \<and> length (lf_search f) \<le> MaxSearchLength \<and>
    1 \<le> lf_limit f \<and> lf_limit f \<le> MaxListLimit \<and>
    (query_get r ''page'' = [] \<longrightarrow> 0 \<le> lf_offset f \<and> lf_offset f \<le> MaxListOffset) \<and>
    (\<forall>v. query_get r ''page'' \<noteq> [] \<longrightarrow> parse_int 64 (query_get r ''page'') = Some v \<longrightarrow> (v - 1) * lf_limit f < 2 ^ 63 \<longrightarrow>
       1 \<le> v \<and> lf_offset f = (v - 1) * lf_limit f \<and> lf_offset f \<le> MaxListOffset)"
  using list_query_OkD [OF assms] parse_status_Ok parse_search_Ok parse_limit_Ok parse_offset_Ok parse_page_exact
  by (auto split: if_splits)

definition query_request :: "(string \<times> string) list \<Rightarrow> request" where
  "query_request kvs = sample_request\<lparr>rq_query := kvs\<rparr>"

lemma query_get_request [simp]:
  "query_get (query_request kvs) k = (case map_of kvs k of None \<Rightarrow> [] | Some v \<Rightarrow> v)"
  by (simp add: query_request_def query_get_def sample_request_def)

lemma trim_space_Nil [simp]: "trim_space [] = []"
proof -
  have "space_prefix space_encodings [] = 0" "space_prefix (map rev space_encodings) [] = 0" by code_simp+
  then show ?thesis by (simp add: trim_space_def trim_left_id)
qed

lemma list_query_page:
  "list_query (query_request [(''page'', p), (''limit'', l)]) =
     (case parse_limit l of Refused m \<Rightarrow> Refused m
      | Ok limit \<Rightarrow> (case (if p \<noteq> [] then parse_page p limit else Ok 0) of Refused m \<Rightarrow> Refused m
          | Ok k \<Rightarrow> Ok \<lparr>lf_status = [], lf_search = [], lf_limit = limit, lf_offset = k\<rparr>))"
  by (simp add: list_query_def parse_status_def parse_search_def parse_offset_def MaxSearchLength_def split: checked.splits)

theorem list_query_bounds_witness:
  "list_query (query_request [(''page'', ''3''), (''limit'', ''10'')]) =
     Ok \<lparr>lf_status = [], lf_search = [], lf_limit = 10, lf_offset = 20\<rparr> \<and> (20 :: int) \<le> MaxListOffset"
proof -
  have q: "list_query (query_request [(''page'', ''3''), (''limit'', ''10'')]) =
     Ok \<lparr>lf_status = [], lf_search = [], lf_limit = 10, lf_offset = 20\<rparr>"
    by (simp add: list_query_page parse_limit_def parse_page_def digits_simps MaxListLimit_def MaxListOffset_def
        page_offset_def to_int32_def)
  have "parse_int 64 ''3'' = Some 3" by (simp add: digits_simps)
  with q list_query_bounds [OF q] show ?thesis by simp
qed

text \<open>The wrap-around written out.\<close>

lemma sint_wrapped: "sint (word_of_int x :: 64 word) = wrapped 64 x"
  by (simp add: signed_of_int signed_take_bit_eq_take_bit_shift take_bit_eq_mod wrapped_def)

lemma to_int32_wrapped: "to_int32 (word_of_int x) = wrapped 32 x"
proof -
  have "to_int32 (word_of_int x) = signed_take_bit 31 (take_bit 64 x)"
    by (simp add: to_int32_def unsigned_of_int signed_of_int)
  also have "\<dots> = signed_take_bit 31 x" by (simp add: signed_take_bit_take_bit)
  finally show ?thesis by (simp add: signed_take_bit_eq_take_bit_shift take_bit_eq_mod wrapped_def)
qed

lemma parse_page_wrapped:
  assumes "parse_int 64 raw = Some v" "1 \<le> v"
  shows "parse_page raw l =
    (if wrapped 64 ((v - 1) * l) \<le> 100000 then Ok (wrapped 32 ((v - 1) * l)) else Refused ''page is too deep'')"
proof -
  have "sint (page_offset v l) = wrapped 64 ((v - 1) * l)" "to_int32 (page_offset v l) = wrapped 32 ((v - 1) * l)"
    by (simp_all only: page_offset_int sint_wrapped to_int32_wrapped)
  with assms show ?thesis by (simp add: parse_page_def Let_def MaxListOffset_def)
qed

lemma wrapped_negative: "2 ^ 63 \<le> x \<Longrightarrow> x < 2 ^ 64 \<Longrightarrow> wrapped 64 x = x - 2 ^ 64"
  by (simp add: wrapped_def) (subst mod_pos_geq, simp_all add: mod_pos_pos_trivial)

text \<open>
  C28 (page_depth_check). A list query with an admissible status, search and limit \<open>l\<close> and a page \<open>v\<close> of at least 1 is refused
  as too deep exactly when the product \<open>(v - 1) * l\<close>, wrapped to 64 bits as Go computes it, exceeds
  100000, and otherwise starts at the product wrapped to 32 bits. Below \<open>2^63\<close> that is the check the
  code means: the query starts at the first task of the page, and is refused beyond 100000. From \<open>2^63\<close>
  to \<open>2^64\<close> the check is void: every such page, beyond any depth, is accepted.
\<close>

theorem page_depth_check:
  assumes "parse_status (query_get r ''status'') = Ok s" "parse_search (query_get r ''search'') = Ok q"
    and "parse_limit (query_get r ''limit'') = Ok l"
    and "query_get r ''page'' \<noteq> []" "parse_int 64 (query_get r ''page'') = Some v" "1 \<le> v"
  shows "list_query r =
      (if wrapped 64 ((v - 1) * l) \<le> 100000
       then Ok \<lparr>lf_status = s, lf_search = q, lf_limit = l, lf_offset = wrapped 32 ((v - 1) * l)\<rparr>
       else Refused ''page is too deep'') \<and>
    ((v - 1) * l < 2 ^ 63 \<longrightarrow> list_query r =
      (if (v - 1) * l \<le> 100000 then Ok \<lparr>lf_status = s, lf_search = q, lf_limit = l, lf_offset = (v - 1) * l\<rparr>
       else Refused ''page is too deep'')) \<and>
    (2 ^ 63 \<le> (v - 1) * l \<and> (v - 1) * l < 2 ^ 64 \<longrightarrow>
      list_query r = Ok \<lparr>lf_status = s, lf_search = q, lf_limit = l, lf_offset = wrapped 32 ((v - 1) * l)\<rparr>)"
proof -
  let ?x = "(v - 1) * l"
  have nn: "0 \<le> ?x" using assms(6) parse_limit_Ok [OF assms(3)] by simp
  have all: "list_query r =
      (if wrapped 64 ?x \<le> 100000 then Ok \<lparr>lf_status = s, lf_search = q, lf_limit = l, lf_offset = wrapped 32 ?x\<rparr>
       else Refused ''page is too deep'')"
    using assms(1-4) parse_page_wrapped [OF assms(5,6), of l] by (simp add: list_query_def)
  have exact: "wrapped 64 ?x = ?x" if "?x < 2 ^ 63" using nn that by (intro wrapped_id) simp_all
  have small: "wrapped 32 ?x = ?x" if "?x \<le> 100000" using nn that by (intro wrapped_id) simp_all
  have deep: "wrapped 64 ?x \<le> 100000" if "2 ^ 63 \<le> ?x" "?x < 2 ^ 64" using wrapped_negative [OF that] that by simp
  from all exact small deep show ?thesis by (auto simp del: power_numeral)
qed

theorem page_depth_check_witness:
  "list_query (query_request [(''page'', ''4611686018427387905''), (''limit'', ''2'')]) =
     Ok \<lparr>lf_status = [], lf_search = [], lf_limit = 2, lf_offset = 0\<rparr> \<and> (4611686018427387905 - 1) * 2 > (100000 :: int)"
proof -
  let ?r = "query_request [(''page'', ''4611686018427387905''), (''limit'', ''2'')]"
  have q: "parse_status (query_get ?r ''status'') = Ok []" "parse_search (query_get ?r ''search'') = Ok []"
    "parse_limit (query_get ?r ''limit'') = Ok 2" "query_get ?r ''page'' \<noteq> []"
    "parse_int 64 (query_get ?r ''page'') = Some 4611686018427387905"
    by (simp_all add: parse_status_def parse_search_def parse_limit_def MaxSearchLength_def MaxListLimit_def digits_simps)
  from page_depth_check [OF q] show ?thesis by (simp add: wrapped_def)
qed

end
