(* ===== verification/Task_Guarantees.thy ===== *)
theory Task_Guarantees
  imports Task_Handler
begin

text \<open>
  What the task module promises its callers: changes that are all or nothing, that keep the audit
  chain, that succeed when the database does, and that do not reach the tasks of other users.
\<close>

section \<open>Changes are all or nothing\<close>

text \<open>The contract of the store at hand, whichever it is.\<close>

lemma new_service_cases:
  obtains "sv_store (NewService e) = Store" | "sv_store (NewService e) = sqliteStore"
  using NewService_store by blast

text \<open>
  C2 (changes_all_or_nothing). Each of the four changes either succeeds, with exactly its effect, or every table is as it was.
  \<open>Create\<close> inserts the normalised task for the caller, \<open>Update\<close> changes title, description, status and
  update time of the caller's task, \<open>Assign\<close> sets its assignee, an active user, and appends one task
  log, \<open>Delete\<close> removes it with its logs; each adds one event and one audit row and nothing else.
  Input that does not validate is never stored.
\<close>

theorem changes_all_or_nothing:
  "effect (\<lambda>t d d'. Validate (Normalize input) = [] \<and> created c e uid (Normalize input) t d d') (dbase w)
     (fst (Service_Create (NewService e) c uid input e w)) (dbase (snd (Service_Create (NewService e) c uid input e w))) \<and>
   effect (\<lambda>t d d'. Validate (Normalize input) = [] \<and> updated c e uid pid (Normalize input) t d d') (dbase w)
     (fst (Service_Update (NewService e) c uid pid input e w)) (dbase (snd (Service_Update (NewService e) c uid pid input e w))) \<and>
   effect (assigned c e uid pid a) (dbase w)
     (fst (Service_Assign (NewService e) c uid pid a e w)) (dbase (snd (Service_Assign (NewService e) c uid pid a e w))) \<and>
   effect (\<lambda>_. deleted c e uid pid) (dbase w)
     (fst (Service_Delete (NewService e) c uid pid e w)) (dbase (snd (Service_Delete (NewService e) c uid pid e w)))"
  by (rule new_service_cases [of e])
    (simp_all add: pg_store.Service_Create_effect sqlite_store.Service_Create_effect pg_store.Service_Update_effect
      sqlite_store.Service_Update_effect pg_store.Service_Assign_effect sqlite_store.Service_Assign_effect
      pg_store.Service_Delete_effect sqlite_store.Service_Delete_effect)

section \<open>The audit chain\<close>

lemma service_keeps_chain:
  assumes "audit_ok e (dbase w)" "\<And>s. s = NewService e \<Longrightarrow> preserves (keeps_chain e) e (m s)"
  shows "audit_ok e (dbase (snd (m (NewService e) e w)))"
  using assms preservesD [of "keeps_chain e" e "m (NewService e)" w] surjective_pairing
  unfolding keeps_chain_def by blast

lemma services_keep_chain:
  assumes "s = NewService e"
  shows "preserves (keeps_chain e) e (Service_Create s c uid input)"
    "preserves (keeps_chain e) e (Service_Update s c uid pid input)"
    "preserves (keeps_chain e) e (Service_Assign s c uid pid a)"
    "preserves (keeps_chain e) e (Service_Delete s c uid pid)"
  using changes_keep_chain [of s e] NewService_store [of e] assms
  by (auto simp: Service_Create_def Service_Update_def Service_Assign_def Service_Delete_def Let_def
      intro!: preserves_map_error preserves_ExecTx keeps_chain_pre preserves_simple)

text \<open>
  C10 (changes_keep_audit_chain). Every change of a task, however it ends, leaves an intact audit log intact: each row
  carries the hash of the row before it and the hash of its own contents, and the ids ascend.
\<close>

theorem changes_keep_audit_chain:
  assumes "audit_ok e (dbase w)"
  shows "audit_ok e (dbase (snd (Service_Create (NewService e) c uid input e w))) \<and>
    audit_ok e (dbase (snd (Service_Update (NewService e) c uid pid input e w))) \<and>
    audit_ok e (dbase (snd (Service_Assign (NewService e) c uid pid a e w))) \<and>
    audit_ok e (dbase (snd (Service_Delete (NewService e) c uid pid e w)))"
  by (intro conjI service_keeps_chain [OF assms] services_keep_chain) simp_all

definition sample_input :: task_input where
  "sample_input = \<lparr>in_title = ''Buy milk'', in_description = [], in_status = []\<rparr>"

theorem changes_keep_audit_chain_witness:
  "audit_ok (calm DriverSQLite) (dbase (snd (Service_Create (NewService (calm DriverSQLite)) background 1 sample_input
     (calm DriverSQLite) sample_world)))"
  using changes_keep_audit_chain [of "calm DriverSQLite" sample_world]
  by (simp add: audit_ok_def)

section \<open>Tasks that are not the caller's\<close>

definition not_found_answer :: "'a result \<Rightarrow> bool" where
  "not_found_answer res \<longleftrightarrow>
     (\<exists>err. res = Fail_with err \<and> (\<forall>fb. public_view fb err = (404, ''NOT_FOUND'', ''Task not found'')))"

lemma missing_wrapped:
  assumes "missing e res" "\<forall>n. failure e n = None" "map_error (taskWrap msg) m e w = (res', w')" "m e w = (res, w')"
  shows "not_found_answer res'"
  using assms by (auto simp: missing_def not_found_answer_def map_error_def taskWrap_def not_found_def
      NewAppError_def public_view_wrap_app HTTPStatus_def)

lemma missing_tx:
  assumes calm: "\<forall>n. failure e n = None"
    and body: "\<And>w1 r w2. dbase w1 = dbase w \<Longrightarrow> fn e w1 = (r, w2) \<Longrightarrow> missing e r"
    and run: "map_error (taskWrap msg) (ExecTx fn) e w = (res, w')"
  shows "not_found_answer res \<and> dbase w' = dbase w"
proof -
  obtain r1 w1 where f: "fn e ((tick w)\<lparr>tx_now := Some (clock e (ticks w))\<rparr>) = (r1, w1)" by fastforce
  have "missing e r1" using body [OF _ f] by simp
  then obtain err where r1: "r1 = Fail_with err" by (auto simp: missing_def)
  have x: "ExecTx fn e w = (r1, w1\<lparr>dbase := dbase w, tx_now := None\<rparr>)"
    using f calm r1 by (simp add: ExecTx_def run_tx_def)
  have "w' = w1\<lparr>dbase := dbase w, tx_now := None\<rparr>"
    using run x r1 by (simp add: map_error_def)
  with missing_wrapped [OF \<open>missing e r1\<close> calm run] x show ?thesis by simp
qed

lemma bodies_missing:
  assumes "owned (dbase w) uid pid = None"
  shows "update_tx (NewService e) c uid pid i e w = (r, w') \<Longrightarrow> missing e r"
    "assign_tx (NewService e) c uid pid a e w = (r, w') \<Longrightarrow> missing e r"
    "delete_tx (NewService e) c uid pid e w = (r', w') \<Longrightarrow> missing e r'"
  using assms NewService_store [of e]
  by (blast intro: pg_store.update_missing sqlite_store.update_missing pg_store.assign_missing sqlite_store.assign_missing
      pg_store.delete_missing sqlite_store.delete_missing)+

lemma services_missing:
  assumes calm: "\<forall>n. failure e n = None" and none: "owned (dbase w) uid pid = None"
  shows "Service_Get (NewService e) uid pid e w = (r1, w1) \<Longrightarrow> not_found_answer r1 \<and> dbase w1 = dbase w"
    "Validate (Normalize input) = [] \<Longrightarrow> Service_Update (NewService e) c uid pid input e w = (r2, w2) \<Longrightarrow>
      not_found_answer r2 \<and> dbase w2 = dbase w"
    "a \<noteq> 0 \<Longrightarrow> Service_Assign (NewService e) c uid pid a e w = (r3, w3) \<Longrightarrow>
      not_found_answer r3 \<and> dbase w3 = dbase w"
    "Service_Delete (NewService e) c uid pid e w = (r4, w4) \<Longrightarrow> not_found_answer r4 \<and> dbase w4 = dbase w"
proof -
  let ?s = "NewService e"
  show "not_found_answer r1 \<and> dbase w1 = dbase w" if run: "Service_Get ?s uid pid e w = (r1, w1)"
  proof -
    obtain r v where f: "st_FindTx (sv_store ?s) uid pid e w = (r, v)" by fastforce
    have same: "st_Find (sv_store ?s) = st_FindTx (sv_store ?s)"
      by (rule new_service_cases [of e]) (simp_all add: pg_store.find_same sqlite_store.find_same)
    have m: "dbase v = dbase w \<and> missing e r"
      by (rule new_service_cases [of e]) (use none f in \<open>auto dest: pg_store.find_missing sqlite_store.find_missing\<close>)
    have "w1 = v" using run f same by (auto simp: Service_Get_def map_error_def split: result.splits)
    with m run f same missing_wrapped [OF _ calm, of r _ "st_FindTx (sv_store ?s) uid pid" w r1 v]
    show ?thesis by (simp add: Service_Get_def)
  qed
  show "not_found_answer r2 \<and> dbase w2 = dbase w"
    if "Validate (Normalize input) = []" "Service_Update ?s c uid pid input e w = (r2, w2)"
    by (rule missing_tx [OF calm bodies_missing(1)])
      (use that in \<open>auto simp: Service_Update_def Let_def none\<close>)
  show "not_found_answer r3 \<and> dbase w3 = dbase w"
    if "a \<noteq> 0" "Service_Assign ?s c uid pid a e w = (r3, w3)"
    by (rule missing_tx [OF calm bodies_missing(2)]) (use that in \<open>auto simp: Service_Assign_def none\<close>)
  show "not_found_answer r4 \<and> dbase w4 = dbase w" if "Service_Delete ?s c uid pid e w = (r4, w4)"
    by (rule missing_tx [OF calm bodies_missing(3)]) (use that in \<open>auto simp: Service_Delete_def none\<close>)
qed

lemma respond_not_found:
  assumes "m e w = (res, w1)" "not_found_answer res" "dbase w1 = dbase w" "respond fb reply m e w = (rep, w')"
  shows "rs_status (send h (ops rep)) = 404 \<and> dbase w' = dbase w \<and> panicked rep = None"
proof -
  from assms(2) obtain err where err: "res = Fail_with err" "public_view fb err = (404, ''NOT_FOUND'', ''Task not found'')"
    by (auto simp: not_found_answer_def)
  with assms(1,4) have "answered_with (Fail 404 ''NOT_FOUND'' ''Task not found'' e w1) = (rep, w')"
    by (simp add: respond_def WriteAppError_public)
  from answered_with_Fail [OF this] assms(3) show ?thesis by simp
qed

text \<open>
  C17 (foreign_tasks_not_found). Reading, updating, assigning or deleting a task that does not exist or belongs to
  another user is answered 404 and changes no table (the request being well formed and the
  database not failing).
\<close>

theorem foreign_tasks_not_found:
  assumes "\<forall>n. failure e n = None" "uuid_parse e (rq_path_value r) = Some pid"
    and "owned (dbase w) (GetUserID (rq_ctx r)) pid = None"
    and "handler = Handler_Get (NewService e) \<or> handler = Handler_Delete (NewService e) \<or>
      handler = Handler_Update (NewService e) \<and>
        (\<exists>input. Decode decode_Input r e w = (Inr input, w) \<and> Validate (Normalize input) = []) \<or>
      handler = Handler_Assign (NewService e) \<and> (\<exists>a. Decode decode_assign r e w = (Inr a, w) \<and> a \<noteq> 0)"
    and "handler e r h w = (rep, w')"
  shows "rs_status (send h (ops rep)) = 404 \<and> dbase w' = dbase w \<and> panicked rep = None"
proof -
  let ?s = "NewService e" and ?uid = "GetUserID (rq_ctx r)"
  note defs = Handler_Get_def Handler_Update_def Handler_Assign_def Handler_Delete_def guarded_by_def parseID_def
    user_of_def assms(2)
  from assms(4) consider "handler = Handler_Get ?s"
    | input where "handler = Handler_Update ?s" "Decode decode_Input r e w = (Inr input, w)" "Validate (Normalize input) = []"
    | a where "handler = Handler_Assign ?s" "Decode decode_assign r e w = (Inr a, w)" "a \<noteq> 0"
    | "handler = Handler_Delete ?s" by blast
  then show ?thesis
  proof cases
    case 1
    with assms(5) have "respond ''Failed to fetch task'' (\<lambda>t. OK_reply (task_json t)) (Service_Get ?s ?uid pid) e w = (rep, w')"
      by (simp add: defs)
    then show ?thesis
      using respond_not_found [where m = "Service_Get ?s ?uid pid", OF surjective_pairing]
        services_missing(1) [OF assms(1,3) surjective_pairing] by blast
  next
    case 2
    with assms(5) have "respond ''Failed to update task'' (\<lambda>t. OK_reply (task_json t))
        (Service_Update ?s (rq_ctx r) ?uid pid input) e w = (rep, w')"
      by (simp add: defs)
    then show ?thesis
      using respond_not_found [where m = "Service_Update ?s (rq_ctx r) ?uid pid input", OF surjective_pairing]
        services_missing(2) [OF assms(1,3) 2(3) surjective_pairing] by blast
  next
    case 3
    with assms(5) have "respond ''Failed to assign task'' (\<lambda>t. OK_reply (task_json t))
        (Service_Assign ?s (rq_ctx r) ?uid pid a) e w = (rep, w')"
      by (simp add: defs)
    then show ?thesis
      using respond_not_found [where m = "Service_Assign ?s (rq_ctx r) ?uid pid a", OF surjective_pairing]
        services_missing(3) [OF assms(1,3) 3(3) surjective_pairing] by blast
  next
    case 4
    with assms(5) have "respond ''Failed to delete task'' (\<lambda>_. NoContent_reply)
        (Service_Delete ?s (rq_ctx r) ?uid pid) e w = (rep, w')"
      by (simp add: defs)
    then show ?thesis
      using respond_not_found [where m = "Service_Delete ?s (rq_ctx r) ?uid pid", OF surjective_pairing]
        services_missing(4) [OF assms(1,3) surjective_pairing] by blast
  qed
qed

definition sample_task :: "int \<Rightarrow> task_row" where
  "sample_task uid =
     \<lparr>tk_id = 1, tk_public = ''t-1'', tk_user = uid, tk_title = ''Buy milk'', tk_description = [],
      tk_status = ''pending'', tk_assignee = None, tk_created = 0, tk_updated = 0\<rparr>"

definition task_world :: "int \<Rightarrow> world" where
  "task_world uid = sample_world\<lparr>dbase := sample_db\<lparr>tasks := [sample_task uid], seq_tasks := 1\<rparr>\<rparr>"

definition task_request :: request where
  "task_request = sample_request\<lparr>rq_path_value := ''t-1''\<rparr>"

lemma task_request_simps [simp]:
  "rq_path_value task_request = ''t-1''" "GetUserID (rq_ctx task_request) = 1"
  by (simp_all add: task_request_def sample_request_def background_def GetUserID_def)

lemma sample_input_valid: "Normalize sample_input = sample_input" "Validate sample_input = []"
proof -
  have "space_prefix space_encodings ''Buy milk'' = 0" "space_prefix (map rev space_encodings) ''klim yuB'' = 0"
    "space_prefix space_encodings [] = 0" "space_prefix (map rev space_encodings) [] = 0"
    by code_simp+
  then have "trim_space ''Buy milk'' = ''Buy milk''" "trim_space [] = []"
    by (simp_all add: trim_space_def trim_left_id)
  then show "Normalize sample_input = sample_input" by (simp add: Normalize_def sample_input_def)
  show "Validate sample_input = []" by (simp add: Validate_def sample_input_def)
qed

theorem foreign_tasks_not_found_witness:
  "rs_status (send no_headers (ops (fst (Handler_Delete (NewService (calm DriverSQLite)) (calm DriverSQLite)
     task_request no_headers (task_world 2))))) = 404"
proof -
  obtain rep w' where s: "Handler_Delete (NewService (calm DriverSQLite)) (calm DriverSQLite) task_request no_headers (task_world 2)
    = (rep, w')" by fastforce
  have "owned (dbase (task_world 2)) (GetUserID (rq_ctx task_request)) ''t-1'' = None"
    by (simp add: owned_def task_world_def sample_task_def owns_def)
  from foreign_tasks_not_found [of "calm DriverSQLite" task_request "''t-1''" "task_world 2" "Handler_Delete (NewService (calm DriverSQLite))" no_headers rep w', OF _ _ this] s
  show ?thesis by simp
qed

section \<open>Changes succeed when the database does\<close>

text \<open>A SQLite database without failures, with identifiers that are fresh and parse back.\<close>

definition cooperative :: "env \<Rightarrow> db \<Rightarrow> bool" where
  "cooperative e d \<longleftrightarrow> driver_of e = DriverSQLite \<and> (\<forall>n. failure e n = None) \<and>
     (\<forall>n. uuid_parse e (new_uuid_at e n) \<noteq> None \<and> new_uuid_at e n \<notin> tk_public ` set (tasks d) \<union> au_public ` set (audit_logs d))"

lemma Add_ok:
  assumes "driver_of e = DriverSQLite" "\<forall>n. failure e n = None"
    and "user_ref (dbase w) (if GetUserID c \<noteq> 0 then Some (GetUserID c) else None)"
  shows "\<exists>w'. Add c ty (Inr j) e w = (Done (), w')"
proof -
  show ?thesis using assms
    by (auto simp: Add_def Add_bytes bind_act_def act_simps map_error_def stmt_def insert_outbox_def new_outbox_row_def)
qed

lemma LogTx_ok:
  assumes "driver_of e = DriverSQLite" "\<forall>n. failure e n = None"
    and "user_ref (dbase w) (ae_user entry)" "\<forall>n. new_uuid_at e n \<notin> au_public ` set (audit_logs (dbase w))"
    and "ae_old entry = Json_text old" "ae_new entry = Json_text new" "readable max_nesting old" "readable max_nesting new"
  shows "\<exists>w'. LogTx entry e w = (Done (), w')"
proof -
  obtain p w1 where ph: "previous_hash e w = (Done p, w1)"
    using assms(2) by (cases "latest_audit_hash e (dbase w)")
      (auto simp: previous_hash_def catch_def query_row_def stmt_def act_simps)
  then have d: "dbase w1 = dbase w" by (auto dest: previous_hash_DoneD)
  obtain x y where "RedactJSON (to_lower e) (Json_text old) = (x, True)" "RedactJSON (to_lower e) (Json_text new) = (y, True)"
    using RedactJSON_clean assms(7,8) by blast
  moreover have "\<not> list_ex (\<lambda>x. au_public x = new_uuid_at e n) (audit_logs (dbase w))" for n
    using assms(4) by (auto simp: list_ex_iff) (metis image_eqI)
  ultimately show ?thesis
    using ph d assms
    by (auto simp: LogTx_def bind_act_def act_simps redact_or_throw_def map_error_def stmt_def insert_audit_def audit_row_of_def)
qed

lemma announce_ok:
  assumes coop: "cooperative e d" and user: "user_exists d uid" "GetUserID c = uid" "uid \<noteq> 0" and s: "sv_audit s"
    and same: "users (dbase w) = users d" "audit_logs (dbase w) = audit_logs d"
  shows "\<exists>w'. bind_act (Add c ty (Inr j)) (\<lambda>_. bind_act (logAudit s uid action t old new) (\<lambda>_. ret a)) e w = (Done a, w')"
proof -
  have e: "driver_of e = DriverSQLite" "\<forall>n. failure e n = None"
    "\<forall>n. new_uuid_at e n \<notin> au_public ` set (audit_logs d)" using coop by (simp_all add: cooperative_def)
  have u: "user_ref (dbase w) (Some uid)" using user(1) same(1) by (simp add: user_ref_def user_exists_def)
  obtain w1 where a: "Add c ty (Inr j) e w = (Done (), w1)"
    using Add_ok [OF e(1,2), of w c ty j] u user(2,3) by auto
  from Add_records [OF a] have d1: "users (dbase w1) = users d" "audit_logs (dbase w1) = audit_logs d"
    using same by auto
  have "user_ref (dbase w1) (ae_user (audit_entry_of uid action t old new))"
    using u d1 same user(3) by (simp add: audit_entry_of_def actor_of_def user_ref_def user_exists_def)
  then obtain w2 where "LogTx (audit_entry_of uid action t old new) e w1 = (Done (), w2)"
    using LogTx_ok [OF e(1,2), of w1 "audit_entry_of uid action t old new" "marshal_task old" "marshal_task new"] e(3) d1 task_json_readable
    by (auto simp: audit_entry_of_def)
  with a s show ?thesis by (simp add: bind_act_def logAudit_def act_simps)
qed

lemma ExecTx_ok:
  assumes "\<forall>n. failure e n = None" "\<And>w1. dbase w1 = dbase w \<Longrightarrow> \<exists>a w2. fn e w1 = (Done a, w2)"
  shows "\<exists>a w'. map_error f (ExecTx fn) e w = (Done a, w')"
proof -
  obtain a w2 where "fn e ((tick w)\<lparr>tx_now := Some (clock e (ticks w))\<rparr>) = (Done a, w2)"
    using assms(2) [of "(tick w)\<lparr>tx_now := Some (clock e (ticks w))\<rparr>"] by auto
  with assms(1) show ?thesis by (simp add: ExecTx_def run_tx_def)
qed

lemma bind_Done: "m e w = (Done a, w1) \<Longrightarrow> \<exists>b w2. k a e w1 = (Done b, w2) \<Longrightarrow> \<exists>b w2. bind_act m k e w = (Done b, w2)"
  by (simp add: bind_act_def)

lemma sqlite_create_ok:
  assumes coop: "cooperative e (dbase w)" and user: "user_exists (dbase w) uid"
  shows "\<exists>t w'. sqlite_Create uid i e w = (Done t, w')"
proof -
  let ?p = "new_uuid_at e (Suc (ticks w))"
  have e: "driver_of e = DriverSQLite" "failure e n = None" for n using coop by (simp_all add: cooperative_def)
  have "uuid_parse e ?p \<noteq> None" using coop unfolding cooperative_def by blast
  then obtain p where "uuid_parse e ?p = Some p" by blast
  moreover have "\<not> list_ex (\<lambda>x. tk_public x = ?p) (tasks (dbase w))"
    using coop by (auto simp: cooperative_def list_ex_iff) (metis image_eqI)
  ultimately show ?thesis
    using e user by (simp add: sqlite_Create_def bind_act_def act_simps map_error_def stmt_def insert_task_def
        new_task_row_def Let_def scanned_def scanSQLiteTask_def)
qed

lemma Service_Create_ok:
  assumes "cooperative e (dbase w)" "user_exists (dbase w) uid" "GetUserID c = uid" "uid \<noteq> 0"
    and "Validate (Normalize input) = []"
  shows "\<exists>t w'. Service_Create (NewService e) c uid input e w = (Done t, w') \<and>
    created c e uid (Normalize input) t (dbase w) (dbase w')"
proof -
  have s: "sv_store (NewService e) = sqliteStore" "st_Create sqliteStore = sqlite_Create"
    using assms(1) by (simp_all add: NewService_def NewStore_def cooperative_def sqliteStore_def)
  have "\<exists>t w2. create_tx (NewService e) c uid (Normalize input) e w1 = (Done t, w2)" if d: "dbase w1 = dbase w" for w1
  proof -
    obtain t v where st: "sqlite_Create uid (Normalize input) e w1 = (Done t, v)"
      using sqlite_create_ok [of e w1 uid "Normalize input"] assms(1,2) d by auto
    have "users (dbase v) = users (dbase w)" "audit_logs (dbase v) = audit_logs (dbase w)"
      using sqlite_store.create [unfolded s(2), OF st] d by auto
    note ann = announce_ok [OF assms(1-4) NewService_audit this]
    show ?thesis
      unfolding create_tx_def s by (rule bind_Done, rule st, rule exI, rule ann)
  qed
  then obtain t w' where run: "Service_Create (NewService e) c uid input e w = (Done t, w')"
    using ExecTx_ok [of e w "create_tx (NewService e) c uid (Normalize input)"] assms(1,5)
    by (auto simp: Service_Create_def Let_def cooperative_def)
  from sqlite_store.Service_Create_effect [OF s(1) NewService_audit run] run show ?thesis
    by (auto simp: effect_def)
qed

text \<open>
  On SQLite, with a database that does not fail and fresh identifiers, the creation of a valid
  task by an existing user succeeds.
\<close>

theorem create_succeeds:
  assumes "cooperative e (dbase w)" "user_exists (dbase w) uid" "GetUserID c = uid" "uid \<noteq> 0"
    and "Validate (Normalize input) = []"
  shows "\<exists>t w'. Service_Create (NewService e) c uid input e w = (Done t, w') \<and>
    created c e uid (Normalize input) t (dbase w) (dbase w')"
  by (rule Service_Create_ok [OF assms])

theorem create_succeeds_witness:
  "\<exists>t w'. Service_Create (NewService (calm DriverSQLite)) (background\<lparr>cx_user := 1\<rparr>) 1 sample_input
     (calm DriverSQLite) sample_world = (Done t, w') \<and>
   created (background\<lparr>cx_user := 1\<rparr>) (calm DriverSQLite) 1 (Normalize sample_input) t sample_db (dbase w')"
  using create_succeeds [of "calm DriverSQLite" sample_world 1 "background\<lparr>cx_user := 1\<rparr>" sample_input]
  by (simp add: cooperative_def user_exists_def GetUserID_def sample_input_valid)

lemma find_ok:
  assumes coop: "cooperative e d" and row: "owned (dbase w) uid pid = Some r" "uuid_parse e (tk_public r) \<noteq> None"
  shows "\<exists>t w'. sqlite_find uid pid e w = (Done t, w') \<and> dbase w' = dbase w"
  using assms by (auto simp: sqlite_find_def bind_act_def select_task_def query_row_def stmt_def cooperative_def
      map_error_def scanned_def scanSQLiteTask_def act_simps)

lemma update_ok:
  assumes coop: "cooperative e d" and row: "owned (dbase w) uid pid = Some r" "uuid_parse e (tk_public r) \<noteq> None"
  shows "\<exists>t w'. sqlite_Update uid pid i e w = (Done t, w')"
    "user_exists (dbase w) a \<Longrightarrow> \<exists>t w'. sqlite_Assign uid pid a e w = (Done t, w')"
  using assms by (auto simp: sqlite_Update_def sqlite_Assign_def bind_act_def stmt_def update_task_def cooperative_def edited_def
      assigned_to_def assignee_error_def map_error_def scanned_def scanSQLiteTask_def act_simps)

lemma delete_ok:
  assumes coop: "cooperative e d" and row: "owned (dbase w) uid pid = Some r"
  shows "\<exists>w'. sqlite_Delete uid pid e w = (Done (), w')"
proof -
  have "count_where (owns uid pid) (tasks (dbase w)) \<noteq> 0" using row by (simp add: owned_def)
  then show ?thesis using coop
    by (auto simp: sqlite_Delete_def deleted_count_def delete_task_def bind_act_def stmt_def cooperative_def map_error_def
        act_simps Let_def)
qed

lemma sqlite_fields [simp]:
  "st_FindTx sqliteStore = sqlite_find" "st_Update sqliteStore = sqlite_Update" "st_Delete sqliteStore = sqlite_Delete"
  "st_Assign sqliteStore = sqlite_Assign" "st_AssertActiveUser sqliteStore = sqlite_AssertActiveUser"
  "st_InsertLog sqliteStore = sqlite_InsertLog" "st_Create sqliteStore = sqlite_Create"
  by (simp_all add: sqliteStore_def)

lemma announce_delete_ok:
  assumes "cooperative e d" "user_exists d uid" "GetUserID c = uid" "uid \<noteq> 0" "sv_audit s"
    "users (dbase w) = users d" "audit_logs (dbase w) = audit_logs d"
  shows "\<exists>b w'. bind_act (Add c ty (Inr j)) (\<lambda>_. logAudit s uid action t old new) e w = (Done b, w')"
  using announce_ok [OF assms, of ty j action t old new "()"]
  by (auto elim!: bind_act_DoneD simp: act_simps intro!: bind_Done)

text \<open>The bodies of the transactions, from the state the caller sees.\<close>

lemma update_tx_ok:
  assumes coop: "cooperative e (dbase w)" and user: "user_exists (dbase w) uid" "GetUserID c = uid" "uid \<noteq> 0"
    and row: "owned (dbase w) uid pid = Some r" "uuid_parse e (tk_public r) \<noteq> None" and d: "dbase w1 = dbase w"
  shows "\<exists>t w2. update_tx (NewService e) c uid pid i e w1 = (Done t, w2)"
proof -
  have s: "sv_store (NewService e) = sqliteStore" and calm: "\<forall>n. failure e n = None"
    using coop by (simp_all add: NewService_def NewStore_def cooperative_def)
  note ann = announce_ok [OF coop user NewService_audit]
  obtain t0 v0 where f: "sqlite_find uid pid e w1 = (Done t0, v0)" "dbase v0 = dbase w"
    using find_ok [OF coop, of w1 uid pid r] row d by auto
  obtain t v where u: "sqlite_Update uid pid i e v0 = (Done t, v)"
    using update_ok(1) [OF coop, of v0 uid pid r i] row f by auto
  have "users (dbase v) = users (dbase w)" "audit_logs (dbase v) = audit_logs (dbase w)"
    using sqlite_store.update [unfolded sqlite_fields, OF u] f by auto
  note an = ann [OF this]
  show ?thesis
    unfolding update_tx_def s sqlite_fields
    by (rule bind_Done, rule f, rule bind_Done, rule u, rule exI, rule an)
qed

lemma assign_tx_ok:
  assumes coop: "cooperative e (dbase w)" and user: "user_exists (dbase w) uid" "GetUserID c = uid" "uid \<noteq> 0"
    and row: "owned (dbase w) uid pid = Some r" "uuid_parse e (tk_public r) \<noteq> None" and d: "dbase w1 = dbase w"
    and active: "active_user (dbase w) a"
  shows "\<exists>t w2. assign_tx (NewService e) c uid pid a e w1 = (Done t, w2)"
proof -
  have s: "sv_store (NewService e) = sqliteStore" and calm: "\<forall>n. failure e n = None"
    using coop by (simp_all add: NewService_def NewStore_def cooperative_def)
  note ann = announce_ok [OF coop user NewService_audit]
  obtain t0 v0 where f: "sqlite_find uid pid e w1 = (Done t0, v0)" "dbase v0 = dbase w"
    using find_ok [OF coop, of w1 uid pid r] row d by auto
  obtain v1 where ac: "map_error assign_error (sqlite_AssertActiveUser a) e v0 = (Done (), v1)" "dbase v1 = dbase w"
    using active f calm by (simp add: sqlite_AssertActiveUser_def query_row_def stmt_def)
  have ex: "user_exists (dbase w) a" using active by (auto simp: active_user_def user_exists_def list_ex_iff)
  obtain t v2 where as: "sqlite_Assign uid pid a e v1 = (Done t, v2)"
    using update_ok(2) [OF coop, of v1 uid pid r a] row ac ex by auto
  from sqlite_store.assign [unfolded sqlite_fields, OF as] ac(2) obtain now where
    t: "reads e (assigned_to a now r) t" and v2: "dbase v2 = (dbase w)\<lparr>tasks := update_where (owns uid pid) (assigned_to a now) (tasks (dbase w))\<rparr>"
    using row(1) by auto
  have r: "r \<in> set (tasks (dbase w))" "owns uid pid r" using row(1) by (auto simp: owned_def dest: first_row_SomeD)
  then have ids: "ta_id t = tk_id r" "ta_user t = uid"
    using reads_fields [OF t] by (simp_all add: assigned_to_def owns_def)
  have "assigned_to a now r \<in> set (tasks (dbase v2))"
    using r by (auto simp: v2 update_where_def intro: rev_image_eqI)
  then have "list_ex (\<lambda>x. tk_id x = tk_id r) (tasks (dbase v2))"
    by (auto simp: list_ex_iff assigned_to_def intro!: bexI [of _ "assigned_to a now r"])
  moreover have "user_exists (dbase v2) uid" using user(1) by (simp add: v2 user_exists_def)
  ultimately obtain v3 where lg: "sqlite_InsertLog (ta_id t) (ta_user t) ''assign'' (ta_assignee t0) (ta_assignee t)
      (actor_of uid) e v2 = (Done (), v3)"
    using calm coop by (auto simp: sqlite_InsertLog_def bind_act_def act_simps stmt_def insert_task_log_def ids
        new_log_row_def cooperative_def map_error_def)
  have "users (dbase v3) = users (dbase w)" "audit_logs (dbase v3) = audit_logs (dbase w)"
    using sqlite_store.log [unfolded sqlite_fields, OF lg] v2 by auto
  note an = ann [OF this]
  show ?thesis
    unfolding assign_tx_def s sqlite_fields
    by (rule bind_Done, rule f, rule bind_Done, rule ac, rule bind_Done, rule as, rule bind_Done, rule lg,
        rule exI, rule an)
qed

lemma delete_tx_ok:
  assumes coop: "cooperative e (dbase w)" and user: "user_exists (dbase w) uid" "GetUserID c = uid" "uid \<noteq> 0"
    and row: "owned (dbase w) uid pid = Some r" "uuid_parse e (tk_public r) \<noteq> None" and d: "dbase w1 = dbase w"
  shows "\<exists>t w2. delete_tx (NewService e) c uid pid e w1 = (Done t, w2)"
proof -
  have s: "sv_store (NewService e) = sqliteStore" and calm: "\<forall>n. failure e n = None"
    using coop by (simp_all add: NewService_def NewStore_def cooperative_def)
  obtain t0 v0 where f: "sqlite_find uid pid e w1 = (Done t0, v0)" "dbase v0 = dbase w"
    using find_ok [OF coop, of w1 uid pid r] row d by auto
  obtain v where u: "sqlite_Delete uid pid e v0 = (Done (), v)"
    using delete_ok [OF coop, of v0 uid pid r] row(1) f by auto
  have "users (dbase v) = users (dbase w)" "audit_logs (dbase v) = audit_logs (dbase w)"
    using sqlite_store.delete [unfolded sqlite_fields, OF u] f by auto
  note an = announce_delete_ok [OF coop user NewService_audit this]
  show ?thesis
    unfolding delete_tx_def s sqlite_fields
    by (rule bind_Done, rule f, rule bind_Done, rule u) (rule an)
qed

text \<open>
  C31 (changes_of_own_task_succeed). On SQLite, with a database that does not fail and fresh identifiers, an existing
  user can update (with valid input), assign to any active user, and delete each of his tasks.
\<close>

theorem changes_of_own_task_succeed:
  assumes "cooperative e (dbase w)" "user_exists (dbase w) uid" "GetUserID c = uid" "uid \<noteq> 0"
    and "owned (dbase w) uid pid = Some r" "uuid_parse e (tk_public r) \<noteq> None"
    and "Validate (Normalize input) = []" "active_user (dbase w) a" "a \<noteq> 0"
  shows "(\<exists>t w'. Service_Update (NewService e) c uid pid input e w = (Done t, w')) \<and>
    (\<exists>t w'. Service_Assign (NewService e) c uid pid a e w = (Done t, w')) \<and>
    (\<exists>w'. Service_Delete (NewService e) c uid pid e w = (Done (), w'))"
proof -
  have calm: "\<forall>n. failure e n = None" using assms(1) by (simp add: cooperative_def)
  show ?thesis
    using ExecTx_ok [where fn = "update_tx (NewService e) c uid pid (Normalize input)", OF calm update_tx_ok [OF assms(1-6)]]
      ExecTx_ok [where fn = "assign_tx (NewService e) c uid pid a", OF calm assign_tx_ok [OF assms(1-6) _ assms(8)]]
      ExecTx_ok [where fn = "delete_tx (NewService e) c uid pid", OF calm delete_tx_ok [OF assms(1-6)]] assms(7,9)
    by (simp add: Service_Update_def Service_Assign_def Service_Delete_def Let_def)
qed

theorem changes_of_own_task_succeed_witness:
  "\<exists>w'. Service_Delete (NewService (calm DriverSQLite)) (background\<lparr>cx_user := 1\<rparr>) 1 ''t-1'' (calm DriverSQLite) (task_world 1)
     = (Done (), w')"
  using changes_of_own_task_succeed [of "calm DriverSQLite" "task_world 1" 1 "background\<lparr>cx_user := 1\<rparr>" "''t-1''" "sample_task 1"
      sample_input 1]
  by (simp add: cooperative_def user_exists_def GetUserID_def sample_input_valid task_world_def owned_def owns_def
      sample_task_def active_user_def)

section \<open>Listing\<close>

lemma contract_lists:
  "st_List (sv_store (NewService e)) u f e w = (Done ts, w') \<Longrightarrow>
    dbase w' = dbase w \<and> newest_first ts \<and> length ts \<le> 100 \<and>
    (\<forall>t \<in> set ts. \<exists>r \<in> set (tasks (dbase w)). reads e r t \<and> tk_user r = u \<and>
       (lf_status f \<noteq> [] \<longrightarrow> tk_status r = lf_status f))"
  by (rule new_service_cases [of e]) (auto dest: pg_store.lists sqlite_store.lists)

text \<open>
  C32 (list_shows_own_tasks). A listing shows only tasks of the caller, of the status asked for, newest first, at most
  100 of them, and changes nothing.
\<close>

theorem list_shows_own_tasks:
  assumes "Service_List (NewService e) uid f e w = (Done ts, w')"
  shows "dbase w' = dbase w \<and> newest_first ts \<and> length ts \<le> 100 \<and>
    (\<forall>t \<in> set ts. ta_user t = uid \<and> (lf_status f \<noteq> [] \<longrightarrow> ta_status t = lf_status f) \<and>
       (\<exists>r \<in> set (tasks (dbase w)). reads e r t))"
  using contract_lists [of e uid f w ts w'] assms
  by (auto simp: Service_List_def) (metis reads_fields)+

theorem list_shows_own_tasks_witness:
  "\<exists>t w'. Service_List (NewService (calm DriverSQLite)) 1 \<lparr>lf_status = [], lf_search = [], lf_limit = 25, lf_offset = 0\<rparr>
     (calm DriverSQLite) (task_world 1) = (Done [t], w') \<and> ta_user t = 1"
proof -
  let ?f = "\<lparr>lf_status = [], lf_search = [], lf_limit = 25, lf_offset = 0\<rparr>"
  obtain t w' where s: "Service_List (NewService (calm DriverSQLite)) 1 ?f (calm DriverSQLite) (task_world 1) = (Done [t], w')"
    by (simp add: Service_List_def NewService_def NewStore_def sqliteStore_def sqlite_List_def bind_act_def stmt_def
        sqlite_list_def clamp_limit_def clamp_offset_def MaxListLimit_def MaxListOffset_def task_world_def sample_task_def
        Let_def scanned_def scanSQLiteTask_def act_simps map_error_def)
  from list_shows_own_tasks [OF s] s show ?thesis by auto
qed

end
