(* ===== verification/Iam_Store.thy ===== *)
theory Iam_Store
  imports World
begin

text \<open>
  Users and sessions (\<open>internal/modules/iam/model.go\<close>) and their two stores: \<open>store.go\<close> with the
  queries of \<open>sqlc/query.sql.go\<close> for PostgreSQL, \<open>sqlite_store.go\<close> for SQLite.
\<close>

section \<open>Model\<close>

definition iam_ErrNotFound :: go_error where "iam_ErrNotFound = Sentinel ''iam: not found''"
definition ErrUnauthorized :: go_error where "ErrUnauthorized = Sentinel ''iam: unauthorized''"
definition ErrEmailTaken :: go_error where "ErrEmailTaken = Sentinel ''iam: email already registered''"
definition ErrInvalidSession :: go_error where "ErrInvalidSession = Sentinel ''iam: session invalid or expired''"

record user =
  u_id :: int
  u_public :: uuid
  u_email :: string
  u_name :: string
  u_password_hash :: string
  u_active :: bool
  u_created :: time

record session =
  s_id :: int
  s_public :: uuid
  s_user :: int
  s_token_hash :: string
  s_expires :: time
  s_created :: time
  s_revoked :: "time option"

record iam_store =
  us_CreateUser :: "string \<Rightarrow> string \<Rightarrow> string \<Rightarrow> user act"
  us_UpsertUser :: "string \<Rightarrow> string \<Rightarrow> string \<Rightarrow> user act"
  us_GetUserByEmail :: "string \<Rightarrow> user act"
  us_GetUserByID :: "int \<Rightarrow> user act"
  us_CreateSession :: "int \<Rightarrow> string \<Rightarrow> time \<Rightarrow> session act"
  us_GetSessionByTokenHash :: "string \<Rightarrow> session act"
  us_RevokeSession :: "string \<Rightarrow> unit act"

section \<open>Rows\<close>

text \<open>The case folding of \<open>lower()\<close> in the database.\<close>

definition db_lower :: "env \<Rightarrow> string \<Rightarrow> string" where
  "db_lower e s = (if driver_of e = DriverSQLite then ascii_lower s else pg_lower e s)"

definition live_email :: "env \<Rightarrow> string \<Rightarrow> user_row \<Rightarrow> bool" where
  "live_email e email r \<longleftrightarrow> us_deleted r = None \<and> db_lower e (us_email r) = db_lower e email"

definition live_id :: "int \<Rightarrow> user_row \<Rightarrow> bool" where
  "live_id i r \<longleftrightarrow> us_id r = i \<and> us_deleted r = None"

definition live_session :: "string \<Rightarrow> time \<Rightarrow> session_row \<Rightarrow> bool" where
  "live_session hash now r \<longleftrightarrow> se_token_hash r = hash \<and> se_revoked r = None \<and> now < se_expires r"

definition new_user_row :: "uuid \<Rightarrow> string \<Rightarrow> string \<Rightarrow> string \<Rightarrow> time \<Rightarrow> user_row" where
  "new_user_row pid email name hash now =
     \<lparr>us_id = 0, us_public = pid, us_email = email, us_name = name, us_password_hash = Some hash, us_active = True,
      us_created = now, us_updated = now, us_deleted = None\<rparr>"

definition new_session_row :: "uuid \<Rightarrow> int \<Rightarrow> string \<Rightarrow> time \<Rightarrow> time \<Rightarrow> session_row" where
  "new_session_row pid uid hash expires now =
     \<lparr>se_id = 0, se_public = pid, se_user = uid, se_token_hash = hash, se_expires = expires, se_created = now,
      se_revoked = None\<rparr>"

text \<open>A text parameter PostgreSQL cannot read, or a text too long for its column.\<close>

definition unfit :: "env \<Rightarrow> (nat \<times> string) list \<Rightarrow> bool" where
  "unfit e ts \<longleftrightarrow> driver_of e = DriverPostgres \<and> \<not> list_all (\<lambda>(n, s). varchar n s) ts"

definition unreadable :: "env \<Rightarrow> string \<Rightarrow> bool" where
  "unreadable e s \<longleftrightarrow> driver_of e = DriverPostgres \<and> \<not> pg_text s"

definition insert_user :: "user_row \<Rightarrow> env \<Rightarrow> db \<Rightarrow> go_error + user_row \<times> db" where
  "insert_user r e d =
     (let r' = r\<lparr>us_id := seq_users d + 1\<rparr> in
      if unfit e [(255, us_email r), (255, us_name r), (255, case us_password_hash r of Some h \<Rightarrow> h | None \<Rightarrow> [])]
      then Inl varchar_error
      else if list_ex (\<lambda>x. us_public x = us_public r) (users d) \<or> list_ex (live_email e (us_email r)) (users d)
      then Inl unique_error
      else Inr (r', d\<lparr>users := users d @ [r'], seq_users := seq_users d + 1\<rparr>))"

text \<open>\<open>ON CONFLICT (lower(email)) WHERE deleted_at IS NULL DO UPDATE\<close>; \<open>touch\<close> is what becomes of \<open>updated_at\<close>.\<close>

definition upsert_user :: "user_row \<Rightarrow> (user_row \<Rightarrow> user_row) \<Rightarrow> env \<Rightarrow> db \<Rightarrow> go_error + user_row \<times> db" where
  "upsert_user r touch e d =
     (let change = (\<lambda>x. touch (x\<lparr>us_name := us_name r, us_password_hash := us_password_hash r\<rparr>)) in
      if unfit e [(255, us_email r), (255, us_name r), (255, case us_password_hash r of Some h \<Rightarrow> h | None \<Rightarrow> [])]
      then Inl varchar_error
      else if driver_of e = DriverSQLite \<and> list_ex (\<lambda>x. us_public x = us_public r) (users d) then Inl unique_error
      else (case first_row (live_email e (us_email r)) (users d) of
              Some x \<Rightarrow> Inr (change x, d\<lparr>users := update_where (live_email e (us_email r)) change (users d)\<rparr>)
            | None \<Rightarrow> insert_user r e d))"

definition insert_session :: "session_row \<Rightarrow> env \<Rightarrow> db \<Rightarrow> go_error + session_row \<times> db" where
  "insert_session r e d =
     (let r' = r\<lparr>se_id := seq_sessions d + 1\<rparr> in
      if unfit e [(64, se_token_hash r)] then Inl varchar_error
      else if list_ex (\<lambda>x. se_token_hash x = se_token_hash r) (sessions d)
        \<or> driver_of e = DriverSQLite \<and> list_ex (\<lambda>x. se_public x = se_public r) (sessions d) then Inl unique_error
      else if \<not> user_exists d (se_user r) then Inl fk_error
      else Inr (r', d\<lparr>sessions := sessions d @ [r'], seq_sessions := seq_sessions d + 1\<rparr>))"

definition select_user :: "(env \<Rightarrow> user_row \<Rightarrow> bool) \<Rightarrow> user_row act" where
  "select_user p = query_row (\<lambda>e d. first_row (p e) (users d))"

definition revoke :: "string \<Rightarrow> time \<Rightarrow> env \<Rightarrow> db \<Rightarrow> go_error + unit \<times> db" where
  "revoke hash now e d =
     (if unreadable e hash then Inl encoding_error
      else Inr ((), d\<lparr>sessions := update_where (\<lambda>r. se_token_hash r = hash \<and> se_revoked r = None)
             (\<lambda>r. r\<lparr>se_revoked := Some now\<rparr>) (sessions d)\<rparr>))"

section \<open>The store over PostgreSQL\<close>

definition iam_error :: "string \<Rightarrow> string \<Rightarrow> go_error \<Rightarrow> go_error" where
  "iam_error message what err = NewAppError ''iam.store'' ''INTERNAL_ERROR'' message (Some (Errorf what err))"

definition user_missing :: "string \<Rightarrow> go_error \<Rightarrow> go_error" where
  "user_missing what err =
     (if errors_is err ''sql: no rows in result set''
      then NewAppError ''iam.store'' ''NOT_FOUND'' ''User not found'' (Some iam_ErrNotFound)
      else iam_error ''Failed to find user'' what err)"

definition session_missing :: "go_error \<Rightarrow> go_error" where
  "session_missing err =
     (if errors_is err ''sql: no rows in result set''
      then NewAppError ''iam.store'' ''UNAUTHORIZED'' ''Session is invalid or expired'' (Some ErrInvalidSession)
      else iam_error ''Failed to find session'' ''get session'' err)"

text \<open>The \<open>User\<close> of a row, without and with its hash.\<close>

definition user_of_row :: "user_row \<Rightarrow> user" where
  "user_of_row r =
     \<lparr>u_id = us_id r, u_public = us_public r, u_email = us_email r, u_name = us_name r, u_password_hash = [],
      u_active = us_active r, u_created = us_created r\<rparr>"

definition with_hash :: "user_row \<Rightarrow> user" where
  "with_hash r = (user_of_row r)\<lparr>u_password_hash := (case us_password_hash r of Some h \<Rightarrow> h | None \<Rightarrow> [])\<rparr>"

definition session_of_row :: "session_row \<Rightarrow> session" where
  "session_of_row r =
     \<lparr>s_id = se_id r, s_public = se_public r, s_user = se_user r, s_token_hash = se_token_hash r, s_expires = se_expires r,
      s_created = se_created r, s_revoked = se_revoked r\<rparr>"

definition pg_CreateUser :: "string \<Rightarrow> string \<Rightarrow> string \<Rightarrow> user act" where
  "pg_CreateUser email name hash =
     bind_act db_now (\<lambda>now.
     bind_act uuid_new (\<lambda>pid.
     bind_act (map_error (iam_error ''Failed to create user'' ''create user'')
       (stmt (insert_user (new_user_row pid email name hash now)))) (\<lambda>r. ret (user_of_row r))))"

definition pg_UpsertUser :: "string \<Rightarrow> string \<Rightarrow> string \<Rightarrow> user act" where
  "pg_UpsertUser email name hash =
     bind_act db_now (\<lambda>now.
     bind_act uuid_new (\<lambda>pid.
     bind_act (map_error (iam_error ''Failed to upsert user'' ''upsert user'')
       (stmt (upsert_user (new_user_row pid email name hash now) id))) (\<lambda>r. ret (user_of_row r))))"

text \<open>The one row of a query with a text parameter.\<close>

definition one_row :: "bool \<Rightarrow> 'a option \<Rightarrow> db \<Rightarrow> go_error + 'a \<times> db" where
  "one_row bad row d =
     (if bad then Inl encoding_error else (case row of None \<Rightarrow> Inl ErrNoRows | Some r \<Rightarrow> Inr (r, d)))"

definition pg_GetUserByEmail :: "string \<Rightarrow> user act" where
  "pg_GetUserByEmail email =
     bind_act (map_error (user_missing ''get user by email'')
       (stmt (\<lambda>e d. one_row (unreadable e email) (first_row (live_email e email) (users d)) d)))
       (\<lambda>r. ret (with_hash r))"

definition pg_GetUserByID :: "int \<Rightarrow> user act" where
  "pg_GetUserByID i =
     bind_act (map_error (user_missing ''get user by id'') (select_user (\<lambda>_. live_id i))) (\<lambda>r. ret (user_of_row r))"

definition pg_CreateSession :: "int \<Rightarrow> string \<Rightarrow> time \<Rightarrow> session act" where
  "pg_CreateSession uid hash expires =
     bind_act db_now (\<lambda>now.
     bind_act uuid_new (\<lambda>pid.
     bind_act (map_error (iam_error ''Failed to create session'' ''create session'')
       (stmt (insert_session (new_session_row pid uid hash (truncate_micro expires) now)))) (\<lambda>r. ret (session_of_row r))))"

definition pg_GetSessionByTokenHash :: "string \<Rightarrow> session act" where
  "pg_GetSessionByTokenHash hash =
     bind_act db_now (\<lambda>now.
     bind_act (map_error session_missing
       (stmt (\<lambda>e d. one_row (unreadable e hash) (first_row (live_session hash now) (sessions d)) d)))
       (\<lambda>r. ret (session_of_row r)))"

definition pg_RevokeSession :: "string \<Rightarrow> unit act" where
  "pg_RevokeSession hash =
     bind_act db_now (\<lambda>now.
       map_error (iam_error ''Failed to revoke session'' ''revoke session'') (stmt (revoke hash now)))"

definition pgUserStore :: iam_store where
  "pgUserStore =
     \<lparr>us_CreateUser = pg_CreateUser, us_UpsertUser = pg_UpsertUser, us_GetUserByEmail = pg_GetUserByEmail,
      us_GetUserByID = pg_GetUserByID, us_CreateSession = pg_CreateSession,
      us_GetSessionByTokenHash = pg_GetSessionByTokenHash, us_RevokeSession = pg_RevokeSession\<rparr>"

section \<open>The store over SQLite\<close>

text \<open>The scans parse the public id; the parsing of times is left out, as times are numbers here.\<close>

definition scanSQLiteUser :: "user_row \<Rightarrow> user act" where
  "scanSQLiteUser r e =
     (case uuid_parse e (us_public r) of
        None \<Rightarrow> throw (Opaque ''invalid UUID'') e
      | Some p \<Rightarrow> ret ((with_hash r)\<lparr>u_public := p\<rparr>) e)"

definition scanSQLiteSession :: "session_row \<Rightarrow> session act" where
  "scanSQLiteSession r e =
     (case uuid_parse e (se_public r) of
        None \<Rightarrow> throw (Opaque ''invalid UUID'') e
      | Some p \<Rightarrow> ret ((session_of_row r)\<lparr>s_public := p\<rparr>) e)"

definition sqlite_insertUser :: "string \<Rightarrow> string \<Rightarrow> string \<Rightarrow> user act" where
  "sqlite_insertUser email name hash =
     bind_act uuid_new (\<lambda>pid.
     bind_act time_now (\<lambda>now.
     map_error (iam_error ''Failed to create user'' ''insert user'')
       (bind_act (stmt (insert_user (new_user_row pid email name hash now))) scanSQLiteUser)))"

definition sqlite_UpsertUser :: "string \<Rightarrow> string \<Rightarrow> string \<Rightarrow> user act" where
  "sqlite_UpsertUser email name hash =
     bind_act time_now (\<lambda>now.
     bind_act uuid_new (\<lambda>pid.
     map_error (iam_error ''Failed to upsert user'' ''upsert user'')
       (bind_act (stmt (upsert_user (new_user_row pid email name hash now) (\<lambda>r. r\<lparr>us_updated := now\<rparr>))) scanSQLiteUser)))"

definition sqlite_GetUserByEmail :: "string \<Rightarrow> user act" where
  "sqlite_GetUserByEmail email =
     map_error (user_missing ''get user by email'')
       (bind_act (select_user (\<lambda>e. live_email e email)) scanSQLiteUser)"

definition sqlite_GetUserByID :: "int \<Rightarrow> user act" where
  "sqlite_GetUserByID i =
     map_error (user_missing ''get user by id'') (bind_act (select_user (\<lambda>_. live_id i)) scanSQLiteUser)"

definition sqlite_CreateSession :: "int \<Rightarrow> string \<Rightarrow> time \<Rightarrow> session act" where
  "sqlite_CreateSession uid hash expires =
     bind_act uuid_new (\<lambda>pid.
     bind_act time_now (\<lambda>now.
     map_error (iam_error ''Failed to create session'' ''insert session'')
       (bind_act (stmt (insert_session (new_session_row pid uid hash expires now))) scanSQLiteSession)))"

definition sqlite_GetSessionByTokenHash :: "string \<Rightarrow> session act" where
  "sqlite_GetSessionByTokenHash hash =
     bind_act time_now (\<lambda>now.
     map_error session_missing
       (bind_act (query_row (\<lambda>e d. first_row (live_session hash now) (sessions d))) scanSQLiteSession))"

definition sqlite_RevokeSession :: "string \<Rightarrow> unit act" where
  "sqlite_RevokeSession hash =
     bind_act time_now (\<lambda>now.
       map_error (iam_error ''Failed to revoke session'' ''revoke session'') (stmt (revoke hash now)))"

definition sqliteUserStore :: iam_store where
  "sqliteUserStore =
     \<lparr>us_CreateUser = sqlite_insertUser, us_UpsertUser = sqlite_UpsertUser, us_GetUserByEmail = sqlite_GetUserByEmail,
      us_GetUserByID = sqlite_GetUserByID, us_CreateSession = sqlite_CreateSession,
      us_GetSessionByTokenHash = sqlite_GetSessionByTokenHash, us_RevokeSession = sqlite_RevokeSession\<rparr>"

definition iam_NewStore :: "env \<Rightarrow> iam_store" where
  "iam_NewStore e = (if driver_of e = DriverSQLite then sqliteUserStore else pgUserStore)"

section \<open>The contract\<close>

text \<open>A user as a store reads his row; the stored hash comes with it on demand.\<close>

definition reads_user :: "env \<Rightarrow> user_row \<Rightarrow> user \<Rightarrow> bool" where
  "reads_user e r u \<longleftrightarrow> u_id u = us_id r \<and> u_email u = us_email r \<and> u_name u = us_name r \<and> u_active u = us_active r \<and>
     u_created u = us_created r \<and> (u_public u = us_public r \<or> uuid_parse e (us_public r) = Some (u_public u))"

definition added_user :: "env \<Rightarrow> string \<Rightarrow> string \<Rightarrow> string \<Rightarrow> user_row \<Rightarrow> db \<Rightarrow> db \<Rightarrow> bool" where
  "added_user e email name hash r d d' \<longleftrightarrow>
     (\<exists>pid now. r = (new_user_row pid email name hash now)\<lparr>us_id := seq_users d + 1\<rparr> \<and>
        \<not> list_ex (\<lambda>x. us_public x = pid) (users d)) \<and>
     \<not> list_ex (live_email e email) (users d) \<and> \<not> unreadable e email \<and>
     d' = d\<lparr>users := users d @ [r], seq_users := seq_users d + 1\<rparr>"

definition added_session :: "env \<Rightarrow> int \<Rightarrow> string \<Rightarrow> time \<Rightarrow> session_row \<Rightarrow> db \<Rightarrow> db \<Rightarrow> bool" where
  "added_session e uid hash expires r d d' \<longleftrightarrow>
     (\<exists>pid now. r = (new_session_row pid uid hash expires now)\<lparr>se_id := seq_sessions d + 1\<rparr>) \<and>
     \<not> list_ex (\<lambda>x. se_token_hash x = hash) (sessions d) \<and> user_exists d uid \<and> \<not> unreadable e hash \<and>
     d' = d\<lparr>sessions := sessions d @ [r], seq_sessions := seq_sessions d + 1\<rparr>"

text \<open>The account an upsert finds, changed.\<close>

definition upserted_user :: "env \<Rightarrow> string \<Rightarrow> string \<Rightarrow> string \<Rightarrow> db \<Rightarrow> db \<Rightarrow> bool" where
  "upserted_user e email name hash d d' \<longleftrightarrow> list_ex (live_email e email) (users d) \<and>
     (\<exists>f. d' = d\<lparr>users := update_where (live_email e email)
        (\<lambda>r. r\<lparr>us_name := name, us_password_hash := Some hash, us_updated := f r\<rparr>) (users d)\<rparr>)"

text \<open>
  What the service relies on, whatever the driver: \<open>now_at\<close> is the time a statement sees, \<open>keep\<close>
  the precision at which a time is stored, \<open>gets\<close> and \<open>opens\<close> tell the rows of users and
  sessions that the store can read back; it can read what it has returned on creation.
\<close>

locale account_contract =
  fixes store :: iam_store
    and now_at :: "env \<Rightarrow> world \<Rightarrow> time"
    and keep :: "time \<Rightarrow> time"
    and gets :: "env \<Rightarrow> string \<Rightarrow> user_row \<Rightarrow> bool"
    and opens :: "env \<Rightarrow> session_row \<Rightarrow> bool"
  assumes create_user: "us_CreateUser store em nm h e w = (res, w') \<Longrightarrow>
      (\<exists>r. added_user e em nm h r (dbase w) (dbase w') \<and> (\<forall>u. res = Done u \<longrightarrow> reads_user e r u \<and> gets e em r)) \<or>
      dbase w' = dbase w \<and> (\<forall>u. res \<noteq> Done u)"
    and upsert_user: "us_UpsertUser store em nm h e w = (res, w') \<Longrightarrow>
      (\<exists>r. added_user e em nm h r (dbase w) (dbase w')) \<or> upserted_user e em nm h (dbase w) (dbase w') \<or>
      dbase w' = dbase w \<and> (\<forall>u. res \<noteq> Done u)"
    and by_email: "us_GetUserByEmail store em e w = (res, w') \<Longrightarrow> dbase w' = dbase w \<and>
      (\<forall>u. res = Done u \<longrightarrow> (\<exists>r. first_row (live_email e em) (users (dbase w)) = Some r \<and> reads_user e r u \<and>
        u_password_hash u = (case us_password_hash r of Some h \<Rightarrow> h | None \<Rightarrow> []))) \<and>
      (\<forall>err. res = Fail_with err \<longrightarrow> errors_is err ''iam: not found'' \<longrightarrow> first_row (live_email e em) (users (dbase w)) = None)"
    and no_email: "us_GetUserByEmail store em e w = (res, w') \<Longrightarrow> first_row (live_email e em) (users (dbase w)) = None \<Longrightarrow>
      (\<forall>n. failure e n = None) \<Longrightarrow> \<not> unreadable e em \<Longrightarrow> \<exists>err. res = Fail_with err \<and> errors_is err ''iam: not found''"
    and got_user: "first_row (live_email e em) (users (dbase w)) = Some r \<Longrightarrow> (\<forall>n. failure e n = None) \<Longrightarrow> gets e em r \<Longrightarrow>
      \<exists>u w'. us_GetUserByEmail store em e w = (Done u, w')"
    and one_lookup: "us_GetUserByEmail store em e w = (res, w') \<Longrightarrow> ticks w' = Suc (ticks w)"
    and by_id: "us_GetUserByID store i e w = (res, w') \<Longrightarrow> dbase w' = dbase w \<and>
      (\<forall>u. res = Done u \<longrightarrow> (\<exists>r. first_row (live_id i) (users (dbase w)) = Some r \<and> reads_user e r u))"
    and create_session: "us_CreateSession store uid h expiry e w = (sres, w') \<Longrightarrow>
      (\<exists>r. added_session e uid h (keep expiry) r (dbase w) (dbase w') \<and> (\<forall>x. sres = Done x \<longrightarrow> opens e r)) \<or> dbase w' = dbase w \<and> (\<forall>x. sres \<noteq> Done x)"
    and opened_session: "(\<forall>n. failure e n = None) \<Longrightarrow> user_exists (dbase w) uid \<Longrightarrow>
      \<not> list_ex (\<lambda>x. se_token_hash x = h) (sessions (dbase w)) \<Longrightarrow> \<not> unfit e [(64, h)] \<Longrightarrow>
      (\<forall>n. ticks w \<le> n \<longrightarrow> uuid_parse e (new_uuid_at e n) \<noteq> None \<and> \<not> list_ex (\<lambda>x. se_public x = new_uuid_at e n) (sessions (dbase w))) \<Longrightarrow>
      \<exists>x w'. us_CreateSession store uid h expiry e w = (Done x, w')"
    and get_session: "us_GetSessionByTokenHash store h e w = (sres, w') \<Longrightarrow> dbase w' = dbase w \<and> tx_now w' = tx_now w \<and>
      (\<forall>x. sres = Done x \<longrightarrow> (\<exists>r. first_row (live_session h (now_at e w)) (sessions (dbase w)) = Some r)) \<and> (\<forall>p. sres \<noteq> Panics p)"
    and got_session: "first_row (live_session h (now_at e w)) (sessions (dbase w)) = Some s \<Longrightarrow>
      (\<forall>n. failure e n = None) \<Longrightarrow> opens e s \<Longrightarrow> \<exists>x w'. us_GetSessionByTokenHash store h e w = (Done x, w')"
    and revoke_session: "us_RevokeSession store h e w = (rres, w') \<Longrightarrow>
      (\<exists>t. dbase w' = (dbase w)\<lparr>sessions := update_where (\<lambda>r. se_token_hash r = h \<and> se_revoked r = None)
         (\<lambda>r. r\<lparr>se_revoked := Some t\<rparr>) (sessions (dbase w))\<rparr>) \<or> dbase w' = dbase w \<and> (\<forall>x. rres \<noteq> Done x)"

text \<open>PostgreSQL sees the start of its transaction, to the microsecond; SQLite is given the clock.\<close>

definition pg_now :: "env \<Rightarrow> world \<Rightarrow> time" where
  "pg_now e w = truncate_micro (case tx_now w of Some t \<Rightarrow> t | None \<Rightarrow> clock e (ticks w))"

definition sqlite_now :: "env \<Rightarrow> world \<Rightarrow> time" where
  "sqlite_now e w = clock e (ticks w)"

definition pg_gets :: "env \<Rightarrow> string \<Rightarrow> user_row \<Rightarrow> bool" where
  "pg_gets e email r \<longleftrightarrow> \<not> unreadable e email"

definition sqlite_gets :: "env \<Rightarrow> string \<Rightarrow> user_row \<Rightarrow> bool" where
  "sqlite_gets e email r \<longleftrightarrow> uuid_parse e (us_public r) \<noteq> None"

definition pg_opens :: "env \<Rightarrow> session_row \<Rightarrow> bool" where
  "pg_opens e r \<longleftrightarrow> \<not> unreadable e (se_token_hash r)"

definition sqlite_opens :: "env \<Rightarrow> session_row \<Rightarrow> bool" where
  "sqlite_opens e r \<longleftrightarrow> uuid_parse e (se_public r) \<noteq> None"

section \<open>Both stores keep it\<close>

lemma insert_user_InrD:
  "insert_user (new_user_row pid em nm h now) e d = Inr (r, d') \<Longrightarrow> added_user e em nm h r d d'"
  by (auto simp: insert_user_def added_user_def new_user_row_def unfit_def unreadable_def varchar_def Let_def split: if_splits)

lemma insert_session_InrD:
  "insert_session (new_session_row pid uid h expiry now) e d = Inr (r, d') \<Longrightarrow> added_session e uid h expiry r d d'"
  by (auto simp: insert_session_def added_session_def new_session_row_def unfit_def unreadable_def varchar_def Let_def split: if_splits)

lemma reads_user_simps [simp]: "reads_user e r (user_of_row r)" "reads_user e r (with_hash r)"
  by (simp_all add: reads_user_def user_of_row_def with_hash_def)

lemma scanSQLiteUser_cases:
  "scanSQLiteUser r e w = (res, w') \<Longrightarrow> w' = w \<and> (\<forall>p. res \<noteq> Panics p) \<and> (\<forall>u. res = Done u \<longrightarrow> reads_user e r u \<and> uuid_parse e (us_public r) \<noteq> None \<and>
     u_password_hash u = (case us_password_hash r of Some h \<Rightarrow> h | None \<Rightarrow> [])) \<and>
   (\<forall>err. res = Fail_with err \<longrightarrow> err = Opaque ''invalid UUID'')"
  by (auto simp: scanSQLiteUser_def act_simps reads_user_def with_hash_def user_of_row_def split: option.splits)

lemma stmt_cases:
  assumes "stmt f e w = (res, w')"
  obtains (failed) msg where "failure e (ticks w) = Some msg" "res = Fail_with (Opaque msg)" "w' = tick w"
    | (rejected) err where "failure e (ticks w) = None" "f e (dbase w) = Inl err" "res = Fail_with err" "w' = tick w"
    | (done_) a d where "failure e (ticks w) = None" "f e (dbase w) = Inr (a, d)" "res = Done a" "w' = (tick w)\<lparr>dbase := d\<rparr>"
  using assms by (auto simp: stmt_def split: option.splits sum.splits prod.splits)

definition after_now :: "world \<Rightarrow> world" where
  "after_now w = (if tx_now w = None then tick w else w)"

lemma after_now_simps [simp]: "dbase (after_now w) = dbase w" "tx_now (after_now w) = tx_now w"
  by (simp_all add: after_now_def)

lemma bind_reads:
  "bind_act db_now k1 e w = k1 (pg_now e w) e (after_now w)"
  "bind_act time_now k1 e w = k1 (clock e (ticks w)) e (tick w)"
  "bind_act uuid_new k2 e w = k2 (new_uuid_at e (ticks w)) e (tick w)"
  by (simp_all add: bind_act_def act_simps db_now_def pg_now_def after_now_def split: option.splits)

text \<open>An insertion whose row is then read: the row is there even if reading it fails.\<close>

lemma insert_then_read:
  assumes run: "map_error f (bind_act (stmt ins) k) e w = (res, w')"
    and ins: "\<And>r d'. ins e (dbase w) = Inr (r, d') \<Longrightarrow> P r (dbase w) d'"
    and k: "\<And>r w1 x w2. k r e w1 = (x, w2) \<Longrightarrow> w2 = w1 \<and> (\<forall>u. x = Done u \<longrightarrow> Q r u)"
  shows "(\<exists>r. P r (dbase w) (dbase w') \<and> (\<forall>u. res = Done u \<longrightarrow> Q r u)) \<or> dbase w' = dbase w \<and> (\<forall>u. res \<noteq> Done u)"
proof -
  obtain sr sw where s: "stmt ins e w = (sr, sw)" by fastforce
  then show ?thesis
  proof (cases rule: stmt_cases)
    case (done_ r d)
    obtain x w2 where kx: "k r e sw = (x, w2)" by fastforce
    have "P r (dbase w) (dbase w2)" "\<forall>u. x = Done u \<longrightarrow> Q r u" using ins [OF done_(2)] k [OF kx] done_(4) by simp_all
    moreover have "w' = w2" "\<forall>u. res = Done u \<longrightarrow> x = Done u"
      using run s done_(3) kx by (auto simp: map_error_def bind_act_def split: result.splits)
    ultimately show ?thesis by blast
  qed (use run s in \<open>auto simp: map_error_def bind_act_def\<close>)
qed

lemma read_ret: "ret (f r) e w1 = (x, w2) \<Longrightarrow> w2 = w1 \<and> (\<forall>u. x = Done u \<longrightarrow> u = f r)"
  by (auto simp: act_simps)

lemma map_error_bind_ret: "bind_act (map_error f m) (\<lambda>r. ret (g r)) = map_error f (bind_act m (\<lambda>r. ret (g r)))"
  by (intro ext) (simp add: bind_act_def map_error_def ret_def split: prod.splits result.splits)

lemma insert_user_cases:
  assumes "map_error f (bind_act (stmt (insert_user (new_user_row pid em nm h now))) k) e w = (res, w')"
    and "\<And>r w1 x w2. k r e w1 = (x, w2) \<Longrightarrow> w2 = w1 \<and> (\<forall>u. x = Done u \<longrightarrow> reads_user e r u \<and> G r)"
  shows "(\<exists>r. added_user e em nm h r (dbase w) (dbase w') \<and> (\<forall>u. res = Done u \<longrightarrow> reads_user e r u \<and> G r)) \<or>
      dbase w' = dbase w \<and> (\<forall>u. res \<noteq> Done u)"
  by (rule insert_then_read [where P = "added_user e em nm h" and Q = "\<lambda>r u. reads_user e r u \<and> G r", OF assms(1) insert_user_InrD])
    (use assms(2) in auto)

lemma create_user_cases:
  "pg_CreateUser em nm h e w = (res, w') \<Longrightarrow>
    (\<exists>r. added_user e em nm h r (dbase w) (dbase w') \<and> (\<forall>u. res = Done u \<longrightarrow> reads_user e r u \<and> pg_gets e em r)) \<or>
      dbase w' = dbase w \<and> (\<forall>u. res \<noteq> Done u)"
  "sqlite_insertUser em nm h e w = (res, w') \<Longrightarrow>
    (\<exists>r. added_user e em nm h r (dbase w) (dbase w') \<and> (\<forall>u. res = Done u \<longrightarrow> reads_user e r u \<and> sqlite_gets e em r)) \<or>
      dbase w' = dbase w \<and> (\<forall>u. res \<noteq> Done u)"
  unfolding pg_CreateUser_def sqlite_insertUser_def bind_reads map_error_bind_ret
   apply (drule insert_user_cases [where G = "\<lambda>_. True"])
    apply (auto simp: act_simps pg_gets_def added_user_def) [2]
  apply (drule insert_user_cases [where G = "\<lambda>r. uuid_parse e (us_public r) \<noteq> None"])
   apply (auto simp: sqlite_gets_def dest: scanSQLiteUser_cases)
  done

lemma scanSQLiteSession_cases:
  "scanSQLiteSession r e w = (res, w') \<Longrightarrow> w' = w \<and> (\<forall>p. res \<noteq> Panics p) \<and> (\<forall>x. res = Done x \<longrightarrow> uuid_parse e (se_public r) \<noteq> None)"
  by (auto simp: scanSQLiteSession_def act_simps split: option.splits)

lemma insert_session_cases:
  assumes "map_error f (bind_act (stmt (insert_session (new_session_row pid uid h t now))) k) e w = (res, w')"
    and "\<And>r w1 x w2. k r e w1 = (x, w2) \<Longrightarrow> w2 = w1 \<and> (\<forall>u. x = Done u \<longrightarrow> G r)"
  shows "(\<exists>r. added_session e uid h t r (dbase w) (dbase w') \<and> (\<forall>x. res = Done x \<longrightarrow> G r)) \<or> dbase w' = dbase w \<and> (\<forall>x. res \<noteq> Done x)"
  by (rule insert_then_read [where P = "added_session e uid h t" and Q = "\<lambda>r _. G r", OF assms(1) insert_session_InrD])
    (use assms(2) in auto)

lemma added_session_opens: "added_session e uid h t r d d' \<Longrightarrow> pg_opens e r"
  by (auto simp: added_session_def new_session_row_def pg_opens_def)

lemma create_session_cases:
  "pg_CreateSession uid h expiry e w = (res, w') \<Longrightarrow>
    (\<exists>r. added_session e uid h (truncate_micro expiry) r (dbase w) (dbase w') \<and> (\<forall>x. res = Done x \<longrightarrow> pg_opens e r)) \<or>
      dbase w' = dbase w \<and> (\<forall>x. res \<noteq> Done x)"
  "sqlite_CreateSession uid h expiry e w = (res, w') \<Longrightarrow>
    (\<exists>r. added_session e uid h expiry r (dbase w) (dbase w') \<and> (\<forall>x. res = Done x \<longrightarrow> sqlite_opens e r)) \<or>
      dbase w' = dbase w \<and> (\<forall>x. res \<noteq> Done x)"
  unfolding pg_CreateSession_def sqlite_CreateSession_def bind_reads map_error_bind_ret
   apply (drule insert_session_cases [where G = "\<lambda>_. True"])
    apply (simp add: act_simps)
   apply (force dest: added_session_opens)
  apply (drule insert_session_cases [where G = "\<lambda>r. uuid_parse e (se_public r) \<noteq> None"])
   apply (auto simp: sqlite_opens_def dest: scanSQLiteSession_cases)
  done

lemma upsert_user_InrD:
  assumes "upsert_user (new_user_row pid em nm h now) touch e d = Inr (r, d')"
    and "\<And>x. touch x = x\<lparr>us_updated := f x\<rparr>"
  shows "(\<exists>r. added_user e em nm h r d d') \<or> upserted_user e em nm h d d'"
proof (cases "first_row (live_email e em) (users d)")
  case None
  then show ?thesis using assms(1) insert_user_InrD [of pid em nm h now e d]
    by (auto simp: upsert_user_def Let_def new_user_row_def split: if_splits)
next
  case (Some x)
  then have "d' = d\<lparr>users := update_where (live_email e em) (\<lambda>x. touch (x\<lparr>us_name := nm, us_password_hash := Some h\<rparr>)) (users d)\<rparr>"
    using assms(1) by (auto simp: upsert_user_def Let_def new_user_row_def split: if_splits)
  moreover have "list_ex (live_email e em) (users d)" using first_row_SomeD [OF Some] by (auto simp: list_ex_iff)
  ultimately show ?thesis unfolding upserted_user_def
    by (intro disjI2 conjI exI [of _ "\<lambda>x. f (x\<lparr>us_name := nm, us_password_hash := Some h\<rparr>)"]) (simp_all add: assms(2))
qed

lemma upsert_cases:
  assumes "map_error g (bind_act (stmt (upsert_user (new_user_row pid em nm h now) touch)) k) e w = (res, w')"
    and "\<And>x. touch x = x\<lparr>us_updated := f x\<rparr>" "\<And>r w1 x w2. k r e w1 = (x, w2) \<Longrightarrow> w2 = w1"
  shows "(\<exists>r. added_user e em nm h r (dbase w) (dbase w')) \<or> upserted_user e em nm h (dbase w) (dbase w') \<or>
      dbase w' = dbase w \<and> (\<forall>u. res \<noteq> Done u)"
proof -
  let ?P = "\<lambda>(_::user_row) d d'. (\<exists>r. added_user e em nm h r d d') \<or> upserted_user e em nm h d d'"
  have "(\<exists>r. ?P r (dbase w) (dbase w') \<and> (\<forall>u. res = Done u \<longrightarrow> True)) \<or> dbase w' = dbase w \<and> (\<forall>u. res \<noteq> Done u)"
    by (rule insert_then_read [where P = ?P and Q = "\<lambda>_ _. True", OF assms(1)])
      (use upsert_user_InrD [OF _ assms(2)] assms(3) in blast)+
  then show ?thesis by blast
qed

lemma upsert_user_cases:
  "pg_UpsertUser em nm h e w = (res, w') \<Longrightarrow>
    (\<exists>r. added_user e em nm h r (dbase w) (dbase w')) \<or> upserted_user e em nm h (dbase w) (dbase w') \<or>
      dbase w' = dbase w \<and> (\<forall>u. res \<noteq> Done u)"
  "sqlite_UpsertUser em nm h e w = (res, w') \<Longrightarrow>
    (\<exists>r. added_user e em nm h r (dbase w) (dbase w')) \<or> upserted_user e em nm h (dbase w) (dbase w') \<or>
      dbase w' = dbase w \<and> (\<forall>u. res \<noteq> Done u)"
  unfolding pg_UpsertUser_def sqlite_UpsertUser_def bind_reads map_error_bind_ret
   apply (drule upsert_cases [where f = us_updated]; simp add: act_simps)
  apply (drule upsert_cases; auto dest: scanSQLiteUser_cases)
  done

text \<open>A query for one row, and the reading of the row it finds.\<close>

lemma query_then_read:
  assumes run: "map_error f (bind_act (stmt (\<lambda>e d. one_row (B e) (R e d) d)) k) e w = (res, w')"
    and k: "\<forall>r w1 x w2. k r e w1 = (x, w2) \<longrightarrow> w2 = w1 \<and> (\<forall>p. x \<noteq> Panics p)"
  obtains (failed) msg where "failure e (ticks w) = Some msg" "res = Fail_with (f (Opaque msg))" "dbase w' = dbase w" "tx_now w' = tx_now w"
    | (unreadable) "B e" "res = Fail_with (f encoding_error)" "dbase w' = dbase w" "tx_now w' = tx_now w"
    | (no_row) "R e (dbase w) = None" "res = Fail_with (f ErrNoRows)" "dbase w' = dbase w" "tx_now w' = tx_now w"
    | (found) r u where "R e (dbase w) = Some r" "k r e w' = (Done u, w')" "res = Done u" "dbase w' = dbase w" "tx_now w' = tx_now w"
    | (unread) r err where "R e (dbase w) = Some r" "k r e w' = (Fail_with err, w')" "res = Fail_with (f err)" "dbase w' = dbase w" "tx_now w' = tx_now w"
proof -
  obtain sr sw where s: "stmt (\<lambda>e d. one_row (B e) (R e d) d) e w = (sr, sw)" by fastforce
  then show thesis
  proof (cases rule: stmt_cases)
    case (failed msg)
    show ?thesis by (rule that(1) [of msg]) (use failed run s in \<open>auto simp: map_error_def bind_act_def\<close>)
  next
    case (rejected err)
    show ?thesis
    proof (cases "B e")
      case True
      show ?thesis by (rule that(2)) (use rejected run s True in \<open>auto simp: one_row_def map_error_def bind_act_def\<close>)
    next
      case False
      then have "R e (dbase w) = None" "err = ErrNoRows" using rejected by (auto simp: one_row_def split: option.splits)
      then show ?thesis by (intro that(3)) (use rejected run s in \<open>auto simp: map_error_def bind_act_def\<close>)
    qed
  next
    case (done_ r d)
    then have d: "R e (dbase w) = Some r" "d = dbase w" using done_ by (auto simp: one_row_def split: if_splits option.splits)
    obtain x w2 where kx: "k r e sw = (x, w2)" by fastforce
    have w: "w2 = sw" "dbase sw = dbase w" "tx_now sw = tx_now w" "w' = sw" and np: "\<forall>p. x \<noteq> Panics p"
      using k [rule_format, OF kx] done_(4) d run s done_(3) kx by (auto simp: map_error_def bind_act_def split: result.splits)
    show ?thesis
    proof (cases x)
      case (Done u)
      show ?thesis by (rule that(4) [of r u]) (use Done w kx d run s done_(3) in \<open>simp_all add: map_error_def bind_act_def\<close>)
    next
      case (Fail_with err)
      show ?thesis by (rule that(5) [of r err]) (use Fail_with w kx d run s done_(3) in \<open>simp_all add: map_error_def bind_act_def\<close>)
    qed (use np in blast)
  qed
qed

lemma query_then_read_total:
  assumes "failure e (ticks w) = None" "\<not> B e"
  shows "R e (dbase w) = None \<Longrightarrow> \<exists>w'. map_error f (bind_act (stmt (\<lambda>e d. one_row (B e) (R e d) d)) k) e w = (Fail_with (f ErrNoRows), w')"
    "R e (dbase w) = Some r \<Longrightarrow> \<forall>w1. \<exists>u. k r e w1 = (Done u, w1) \<Longrightarrow> \<exists>u w'. map_error f (bind_act (stmt (\<lambda>e d. one_row (B e) (R e d) d)) k) e w = (Done u, w')"
  using assms by (simp_all add: one_row_def stmt_def map_error_def bind_act_def) (metis (mono_tags, lifting) old.prod.case result.case(1))

lemma user_missing_is: "errors_is (user_missing what err) ''iam: not found'' \<longleftrightarrow> errors_is err ''sql: no rows in result set'' \<or> errors_is err ''iam: not found''"
  by (simp add: user_missing_def iam_error_def NewAppError_def iam_ErrNotFound_def)

lemma not_missing [simp]:
  "errors_is ErrNoRows ''sql: no rows in result set''" "\<not> errors_is encoding_error s" "\<not> errors_is (Opaque m) s"
  by (simp_all add: ErrNoRows_def encoding_error_def)

text \<open>The queries of the two stores are of this form.\<close>

lemma query_row_one': "query_row q = stmt (\<lambda>e d. one_row False (q e d) d)"
  by (simp add: query_row_def one_row_def)

lemma query_row_one: "select_user p = stmt (\<lambda>e d. one_row False (first_row (p e) (users d)) d)"
  by (simp add: select_user_def query_row_one')

lemma user_queries:
  "pg_GetUserByEmail em = map_error (user_missing ''get user by email'') (bind_act
     (stmt (\<lambda>e d. one_row (unreadable e em) (first_row (live_email e em) (users d)) d)) (\<lambda>r. ret (with_hash r)))"
  "sqlite_GetUserByEmail em = map_error (user_missing ''get user by email'') (bind_act
     (stmt (\<lambda>e d. one_row False (first_row (live_email e em) (users d)) d)) scanSQLiteUser)"
  "pg_GetUserByID i = map_error (user_missing ''get user by id'') (bind_act
     (stmt (\<lambda>e d. one_row False (first_row (live_id i) (users d)) d)) (\<lambda>r. ret (user_of_row r)))"
  "sqlite_GetUserByID i = map_error (user_missing ''get user by id'') (bind_act
     (stmt (\<lambda>e d. one_row False (first_row (live_id i) (users d)) d)) scanSQLiteUser)"
  by (simp_all add: pg_GetUserByEmail_def pg_GetUserByID_def sqlite_GetUserByEmail_def sqlite_GetUserByID_def
      map_error_bind_ret query_row_one)

lemma session_queries:
  "pg_GetSessionByTokenHash h e w = map_error session_missing (bind_act
     (stmt (\<lambda>e1 d. one_row (unreadable e1 h) (first_row (live_session h (pg_now e w)) (sessions d)) d))
     (\<lambda>r. ret (session_of_row r))) e (after_now w)"
  "sqlite_GetSessionByTokenHash h e w = map_error session_missing (bind_act
     (stmt (\<lambda>e1 d. one_row False (first_row (live_session h (clock e (ticks w))) (sessions d)) d)) scanSQLiteSession) e (tick w)"
  by (simp_all add: pg_GetSessionByTokenHash_def sqlite_GetSessionByTokenHash_def bind_reads map_error_bind_ret query_row_one')

lemma read_user_simple:
  "k = scanSQLiteUser \<or> k = (\<lambda>r. ret (with_hash r)) \<or> k = (\<lambda>r. ret (user_of_row r)) \<Longrightarrow> k r e w1 = (x, w2) \<Longrightarrow>
    w2 = w1 \<and> (\<forall>p. x \<noteq> Panics p) \<and> (\<forall>u. x = Done u \<longrightarrow> reads_user e r u) \<and> (\<forall>err. x = Fail_with err \<longrightarrow> err = Opaque ''invalid UUID'')"
  by (auto simp: act_simps dest: scanSQLiteUser_cases)

lemma user_query_law:
  assumes run: "map_error (user_missing what) (bind_act (stmt (\<lambda>e d. one_row (B e) (R e d) d)) k) e w = (res, w')"
    and k: "k = scanSQLiteUser \<or> k = (\<lambda>r. ret (with_hash r)) \<or> \<not> hashed \<and> k = (\<lambda>r. ret (user_of_row r))"
  shows "dbase w' = dbase w \<and> (\<forall>u. res = Done u \<longrightarrow> (\<exists>r. R e (dbase w) = Some r \<and> reads_user e r u \<and>
      (hashed \<longrightarrow> u_password_hash u = (case us_password_hash r of Some h \<Rightarrow> h | None \<Rightarrow> [])))) \<and>
    (\<forall>err. res = Fail_with err \<longrightarrow> errors_is err ''iam: not found'' \<longrightarrow> R e (dbase w) = None)"
proof -
  have simple: "k = scanSQLiteUser \<or> k = (\<lambda>r. ret (with_hash r)) \<or> k = (\<lambda>r. ret (user_of_row r))" using k by blast
  have k': "\<forall>r w1 x w2. k r e w1 = (x, w2) \<longrightarrow> w2 = w1 \<and> (\<forall>p. x \<noteq> Panics p)" using read_user_simple [OF simple] by blast
  show ?thesis
  proof (cases rule: query_then_read [OF run k', case_names failed unreadable no_row found unread])
    case (found r u)
    then have "reads_user e r u" using read_user_simple [OF simple] by blast
    moreover have "hashed \<Longrightarrow> u_password_hash u = (case us_password_hash r of Some h \<Rightarrow> h | None \<Rightarrow> [])"
      using k found(2) scanSQLiteUser_cases [of r e w' "Done u" w'] by (auto simp: act_simps with_hash_def)
    ultimately show ?thesis using found by auto
  next
    case (unread r err)
    then have "err = Opaque ''invalid UUID''" using read_user_simple [OF simple] by blast
    with unread show ?thesis by (auto simp: user_missing_is)
  qed (auto simp: user_missing_is)
qed

lemma no_email_law:
  assumes run: "map_error (user_missing what) (bind_act (stmt (\<lambda>e d. one_row (B e) (R e d) d)) k) e w = (res, w')"
    and "R e (dbase w) = None" "\<forall>n. failure e n = None" "\<not> B e"
  shows "\<exists>err. res = Fail_with err \<and> errors_is err ''iam: not found''"
proof -
  have "failure e (ticks w) = None" using assms(3) by blast
  from query_then_read_total(1) [where B = B and R = R, OF this assms(4,2), of "user_missing what" k] assms(1) show ?thesis
    by (auto simp: user_missing_is)
qed

lemma got_user_law:
  assumes "R e (dbase w) = Some r" "\<forall>n. failure e n = None" "\<not> B e" "\<forall>w1. \<exists>u. k r e w1 = (Done u, w1)"
  shows "\<exists>u w'. map_error f (bind_act (stmt (\<lambda>e d. one_row (B e) (R e d) d)) k) e w = (Done u, w')"
proof -
  have "failure e (ticks w) = None" using assms(2) by blast
  from query_then_read_total(2) [where B = B and R = R and e = e and w = w and r = r and k = k, OF this assms(3,1,4)] show ?thesis .
qed

lemma session_query_law:
  assumes run: "map_error f (bind_act (stmt (\<lambda>e d. one_row (B e) (R e d) d)) k) e w = (res, w')"
    and k: "k = scanSQLiteSession \<or> k = (\<lambda>r. ret (session_of_row r))"
  shows "dbase w' = dbase w \<and> tx_now w' = tx_now w \<and> (\<forall>x. res = Done x \<longrightarrow> (\<exists>r. R e (dbase w) = Some r)) \<and> (\<forall>p. res \<noteq> Panics p)"
proof -
  have k': "\<forall>r w1 x w2. k r e w1 = (x, w2) \<longrightarrow> w2 = w1 \<and> (\<forall>p. x \<noteq> Panics p)"
    using k by (auto simp: act_simps dest: scanSQLiteSession_cases)
  show ?thesis
    by (cases rule: query_then_read [OF run k', case_names failed unreadable no_row found unread]) auto
qed

lemma revoke_law:
  assumes "map_error f (stmt (revoke h now)) e w = (res, w')"
  shows "(\<exists>t. dbase w' = (dbase w)\<lparr>sessions := update_where (\<lambda>r. se_token_hash r = h \<and> se_revoked r = None)
         (\<lambda>r. r\<lparr>se_revoked := Some t\<rparr>) (sessions (dbase w))\<rparr>) \<or> dbase w' = dbase w \<and> (\<forall>x. res \<noteq> Done x)"
proof -
  obtain sr sw where s: "stmt (revoke h now) e w = (sr, sw)" by fastforce
  then show ?thesis
  proof (cases rule: stmt_cases)
    case (done_ a d)
    then have "w' = sw" "dbase sw = (dbase w)\<lparr>sessions := update_where (\<lambda>r. se_token_hash r = h \<and> se_revoked r = None)
         (\<lambda>r. r\<lparr>se_revoked := Some now\<rparr>) (sessions (dbase w))\<rparr>"
      using assms s by (auto simp: map_error_def revoke_def split: if_splits)
    then show ?thesis by blast
  qed (use assms s in \<open>auto simp: map_error_def\<close>)
qed

lemma by_email_law:
  assumes "pg_GetUserByEmail em e w = (res, w') \<or> sqlite_GetUserByEmail em e w = (res, w')"
  shows "dbase w' = dbase w \<and>
      (\<forall>u. res = Done u \<longrightarrow> (\<exists>r. first_row (live_email e em) (users (dbase w)) = Some r \<and> reads_user e r u \<and>
        u_password_hash u = (case us_password_hash r of Some h \<Rightarrow> h | None \<Rightarrow> []))) \<and>
      (\<forall>err. res = Fail_with err \<longrightarrow> errors_is err ''iam: not found'' \<longrightarrow> first_row (live_email e em) (users (dbase w)) = None)"
  using assms
proof
  assume "pg_GetUserByEmail em e w = (res, w')"
  from user_query_law [where hashed = True, OF this [unfolded user_queries]] show ?thesis by simp
next
  assume "sqlite_GetUserByEmail em e w = (res, w')"
  from user_query_law [where hashed = True, OF this [unfolded user_queries]] show ?thesis by simp
qed

lemma no_email_laws:
  "pg_GetUserByEmail em e w = (res, w') \<Longrightarrow> first_row (live_email e em) (users (dbase w)) = None \<Longrightarrow> \<forall>n. failure e n = None \<Longrightarrow>
    \<not> unreadable e em \<Longrightarrow> \<exists>err. res = Fail_with err \<and> errors_is err ''iam: not found''"
  "sqlite_GetUserByEmail em e w = (res, w') \<Longrightarrow> first_row (live_email e em) (users (dbase w)) = None \<Longrightarrow> \<forall>n. failure e n = None \<Longrightarrow>
    \<exists>err. res = Fail_with err \<and> errors_is err ''iam: not found''"
  unfolding user_queries by (rule no_email_law; assumption?; simp)+

lemma scans_total:
  "uuid_parse e (us_public r) \<noteq> None \<Longrightarrow> \<forall>w. \<exists>u. scanSQLiteUser r e w = (Done u, w)"
  "uuid_parse e (se_public s) \<noteq> None \<Longrightarrow> \<forall>w. \<exists>x. scanSQLiteSession s e w = (Done x, w)"
  by (auto simp: scanSQLiteUser_def scanSQLiteSession_def act_simps)

lemma got_user_laws:
  "first_row (live_email e em) (users (dbase w)) = Some r \<Longrightarrow> \<forall>n. failure e n = None \<Longrightarrow> pg_gets e em r \<Longrightarrow>
    \<exists>u w'. pg_GetUserByEmail em e w = (Done u, w')"
  "first_row (live_email e em) (users (dbase w)) = Some r \<Longrightarrow> \<forall>n. failure e n = None \<Longrightarrow> sqlite_gets e em r \<Longrightarrow>
    \<exists>u w'. sqlite_GetUserByEmail em e w = (Done u, w')"
  unfolding user_queries pg_gets_def sqlite_gets_def
   apply (rule got_user_law; simp add: act_simps)
  apply (rule got_user_law; (rule scans_total)?; simp)
  done

lemma by_id_law:
  assumes "pg_GetUserByID i e w = (res, w') \<or> sqlite_GetUserByID i e w = (res, w')"
  shows "dbase w' = dbase w \<and>
      (\<forall>u. res = Done u \<longrightarrow> (\<exists>r. first_row (live_id i) (users (dbase w)) = Some r \<and> reads_user e r u))"
  using assms
proof
  assume "pg_GetUserByID i e w = (res, w')"
  from user_query_law [where hashed = False, OF this [unfolded user_queries]] show ?thesis by simp
next
  assume "sqlite_GetUserByID i e w = (res, w')"
  from user_query_law [where hashed = False, OF this [unfolded user_queries]] show ?thesis by simp
qed

lemma get_session_laws:
  "pg_GetSessionByTokenHash h e w = (res, w') \<Longrightarrow> dbase w' = dbase w \<and> tx_now w' = tx_now w \<and>
    (\<forall>x. res = Done x \<longrightarrow> (\<exists>r. first_row (live_session h (pg_now e w)) (sessions (dbase w)) = Some r)) \<and> (\<forall>p. res \<noteq> Panics p)"
  "sqlite_GetSessionByTokenHash h e w = (res, w') \<Longrightarrow> dbase w' = dbase w \<and> tx_now w' = tx_now w \<and>
    (\<forall>x. res = Done x \<longrightarrow> (\<exists>r. first_row (live_session h (sqlite_now e w)) (sessions (dbase w)) = Some r)) \<and> (\<forall>p. res \<noteq> Panics p)"
  unfolding session_queries sqlite_now_def by (drule session_query_law; simp)+

lemma first_session: "first_row (live_session h t) rs = Some r \<Longrightarrow> se_token_hash r = h"
  using first_row_SomeD [of "live_session h t" rs r] by (simp add: live_session_def)

lemma got_session_laws:
  "first_row (live_session h (pg_now e w)) (sessions (dbase w)) = Some r \<Longrightarrow> \<forall>n. failure e n = None \<Longrightarrow> pg_opens e r \<Longrightarrow>
    \<exists>x w'. pg_GetSessionByTokenHash h e w = (Done x, w')"
  "first_row (live_session h (sqlite_now e w)) (sessions (dbase w)) = Some r \<Longrightarrow> \<forall>n. failure e n = None \<Longrightarrow> sqlite_opens e r \<Longrightarrow>
    \<exists>x w'. sqlite_GetSessionByTokenHash h e w = (Done x, w')"
  unfolding session_queries sqlite_now_def pg_opens_def sqlite_opens_def
   apply (rule got_user_law; force simp: act_simps dest: first_session)
  apply (rule got_user_law; (rule scans_total)?; simp)
  done

lemma revoke_laws:
  assumes "pg_RevokeSession h e w = (res, w') \<or> sqlite_RevokeSession h e w = (res, w')"
  shows "(\<exists>t. dbase w' = (dbase w)\<lparr>sessions := update_where (\<lambda>r. se_token_hash r = h \<and> se_revoked r = None)
         (\<lambda>r. r\<lparr>se_revoked := Some t\<rparr>) (sessions (dbase w))\<rparr>) \<or> dbase w' = dbase w \<and> (\<forall>x. res \<noteq> Done x)"
  using assms unfolding pg_RevokeSession_def sqlite_RevokeSession_def bind_reads
  by - (elim disjE; drule revoke_law; simp)

lemma one_lookup_laws:
  "pg_GetUserByEmail em e w = (res, w') \<Longrightarrow> ticks w' = Suc (ticks w)"
  "sqlite_GetUserByEmail em e w = (res, w') \<Longrightarrow> ticks w' = Suc (ticks w)"
  by (auto simp: pg_GetUserByEmail_def sqlite_GetUserByEmail_def select_user_def query_row_def map_error_def bind_act_def stmt_def
      act_simps scanSQLiteUser_def split: prod.splits result.splits option.splits sum.splits if_splits)

lemma opened_session_laws:
  assumes "\<forall>n. failure e n = None" "user_exists (dbase w) uid"
    and "\<not> list_ex (\<lambda>x. se_token_hash x = h) (sessions (dbase w))" "\<not> unfit e [(64, h)]"
    and "\<forall>n. ticks w \<le> n \<longrightarrow> uuid_parse e (new_uuid_at e n) \<noteq> None \<and> \<not> list_ex (\<lambda>x. se_public x = new_uuid_at e n) (sessions (dbase w))"
  shows "\<exists>x w'. pg_CreateSession uid h expiry e w = (Done x, w')"
    "\<exists>x w'. sqlite_CreateSession uid h expiry e w = (Done x, w')"
proof -
  have n: "uuid_parse e (new_uuid_at e n) \<noteq> None" "\<not> list_ex (\<lambda>x. se_public x = new_uuid_at e n) (sessions (dbase w))"
    if "ticks w \<le> n" for n using assms(5) that by blast+
  have "ticks w \<le> ticks (after_now w)" by (simp add: after_now_def)
  from n [OF this] assms(1-4) show "\<exists>x w'. pg_CreateSession uid h expiry e w = (Done x, w')"
    unfolding pg_CreateSession_def bind_reads
    by (simp add: map_error_def bind_act_def stmt_def insert_session_def new_session_row_def Let_def act_simps)
  from n [of "ticks w"] assms(1-4) show "\<exists>x w'. sqlite_CreateSession uid h expiry e w = (Done x, w')"
    unfolding sqlite_CreateSession_def bind_reads
    by (auto simp: map_error_def bind_act_def stmt_def insert_session_def new_session_row_def Let_def act_simps scanSQLiteSession_def)
qed

interpretation pg_accounts: account_contract pgUserStore pg_now truncate_micro pg_gets pg_opens
  by (unfold_locales, unfold pgUserStore_def iam_store.simps)
    (rule create_user_cases upsert_user_cases create_session_cases by_email_law no_email_laws got_user_laws one_lookup_laws by_id_law
       get_session_laws got_session_laws; simp | rule opened_session_laws; assumption | rule revoke_laws, blast)+

interpretation sqlite_accounts: account_contract sqliteUserStore sqlite_now "\<lambda>t. t" sqlite_gets sqlite_opens
  by (unfold_locales, unfold sqliteUserStore_def iam_store.simps)
    (rule create_user_cases upsert_user_cases create_session_cases by_email_law no_email_laws got_user_laws one_lookup_laws by_id_law
       get_session_laws got_session_laws; simp | rule opened_session_laws; assumption | rule revoke_laws, blast)+

end
