(* ===== verification/Base64.thy ===== *)
theory Base64
  imports Go_Strings
begin

text \<open>
  The unpadded alphabets of \<open>encoding/base64\<close> the program uses: \<open>RawURLEncoding\<close> for tokens and
  \<open>RawStdEncoding\<close> for password hashes. The decoders are not strict: they skip line breaks and
  ignore the bits of the last character that do not belong to a byte.
\<close>

type_synonym alphabet = "char \<times> char"

definition raw_std :: alphabet where "raw_std = (CHR ''+'', CHR ''/'')"
definition raw_url :: alphabet where "raw_url = (CHR ''-'', CHR ''_'')"

definition symbol :: "alphabet \<Rightarrow> nat \<Rightarrow> char" where
  "symbol abc n =
     (if n < 26 then byte (65 + n)
      else if n < 52 then byte (71 + n)
      else if n < 62 then byte (n - 4)
      else if n = 62 then fst abc
      else snd abc)"

definition symbol_value :: "alphabet \<Rightarrow> char \<Rightarrow> nat option" where
  "symbol_value abc c =
     (let b = byte_of c
      in if 65 \<le> b \<and> b \<le> 90 then Some (b - 65)
         else if 97 \<le> b \<and> b \<le> 122 then Some (b - 71)
         else if 48 \<le> b \<and> b \<le> 57 then Some (b + 4)
         else if c = fst abc then Some 62
         else if c = snd abc then Some 63
         else None)"

text \<open>Three bytes make four characters, one byte two and two bytes three.\<close>

fun encode64 :: "alphabet \<Rightarrow> bytes \<Rightarrow> string" where
  "encode64 abc (a # b # c # cs) =
     symbol abc (byte_of a div 4) # symbol abc (byte_of a mod 4 * 16 + byte_of b div 16) #
     symbol abc (byte_of b mod 16 * 4 + byte_of c div 64) # symbol abc (byte_of c mod 64) # encode64 abc cs"
| "encode64 abc [a, b] =
     [symbol abc (byte_of a div 4), symbol abc (byte_of a mod 4 * 16 + byte_of b div 16), symbol abc (byte_of b mod 16 * 4)]"
| "encode64 abc [a] = [symbol abc (byte_of a div 4), symbol abc (byte_of a mod 4 * 16)]"
| "encode64 abc [] = []"

fun symbol_values :: "alphabet \<Rightarrow> string \<Rightarrow> nat list option" where
  "symbol_values abc [] = Some []"
| "symbol_values abc (c # cs) =
     (if byte_of c = (10 :: nat) \<or> byte_of c = (13 :: nat) then symbol_values abc cs
      else (case symbol_value abc c of
              None \<Rightarrow> None
            | Some v \<Rightarrow> map_option (\<lambda>vs. v # vs) (symbol_values abc cs)))"

fun join64 :: "nat list \<Rightarrow> bytes option" where
  "join64 (i # j # k # l # vs) =
     map_option (\<lambda>bs. byte (i * 4 + j div 16) # byte (j mod 16 * 16 + k div 4) # byte (k mod 4 * 64 + l) # bs) (join64 vs)"
| "join64 [i, j, k] = Some [byte (i * 4 + j div 16), byte (j mod 16 * 16 + k div 4)]"
| "join64 [i, j] = Some [byte (i * 4 + j div 16)]"
| "join64 [i] = None"
| "join64 [] = Some []"

definition decode64 :: "alphabet \<Rightarrow> string \<Rightarrow> bytes option" where
  "decode64 abc s = (case symbol_values abc s of Some vs \<Rightarrow> join64 vs | None \<Rightarrow> None)"

text \<open>An alphabet whose two last symbols are no letters, digits or line breaks, and differ.\<close>

definition fair_alphabet :: "alphabet \<Rightarrow> bool" where
  "fair_alphabet abc \<longleftrightarrow> fst abc \<noteq> snd abc \<and>
     (\<forall>c \<in> {fst abc, snd abc}. byte_of c \<in> {33 ..< 48 :: nat} \<union> {91 ..< 97})"

lemma fair_alphabets [simp]: "fair_alphabet raw_std" "fair_alphabet raw_url"
  by (simp_all add: fair_alphabet_def raw_std_def raw_url_def)

lemma symbol_value_symbol:
  assumes "fair_alphabet abc" "n < 64"
  shows "symbol_value abc (symbol abc n) = Some n \<and> byte_of (symbol abc n) \<notin> {10 :: nat, 13}"
proof -
  let ?f = "byte_of (fst abc) :: nat" and ?s = "byte_of (snd abc) :: nat"
  have fair: "fst abc \<noteq> snd abc" "33 \<le> ?f \<and> ?f < 48 \<or> 91 \<le> ?f \<and> ?f < 97" "33 \<le> ?s \<and> ?s < 48 \<or> 91 \<le> ?s \<and> ?s < 97"
    using assms(1) by (simp_all add: fair_alphabet_def)
  consider "n < 26" | "26 \<le> n" "n < 52" | "52 \<le> n" "n < 62" | "n = 62" | "n = 63" using assms(2) by linarith
  then show ?thesis
  proof cases
    case 1
    then have "symbol abc n = byte (65 + n)" "byte_of (byte (65 + n)) = 65 + n" by (simp_all add: symbol_def)
    with 1 show ?thesis by (simp add: symbol_value_def del: of_char_of)
  next
    case 2
    then have "symbol abc n = byte (71 + n)" "byte_of (byte (71 + n)) = 71 + n" by (simp_all add: symbol_def)
    with 2 show ?thesis by (simp add: symbol_value_def del: of_char_of)
  next
    case 3
    then have "symbol abc n = byte (n - 4)" "byte_of (byte (n - 4)) = n - 4" by (simp_all add: symbol_def)
    moreover have "48 \<le> n - 4 \<and> n - 4 \<le> 57" using 3 by arith
    ultimately show ?thesis using 3 by (simp add: symbol_value_def Let_def del: of_char_of)
  next
    case 4
    then have "symbol abc n = fst abc" by (simp add: symbol_def)
    with 4 fair(2) show ?thesis unfolding symbol_value_def Let_def by simp linarith
  next
    case 5
    then have "symbol abc n = snd abc" by (simp add: symbol_def)
    with 5 fair(1,3) show ?thesis unfolding symbol_value_def Let_def by simp linarith
  qed
qed

lemma symbol_values_Cons:
  "fair_alphabet abc \<Longrightarrow> n < 64 \<Longrightarrow> symbol_values abc (symbol abc n # s) = map_option (\<lambda>vs. n # vs) (symbol_values abc s)"
  using symbol_value_symbol [of abc n] by simp

lemma byte_lt: "byte_of (c :: char) < (256 :: nat)"
  by simp

text \<open>The bytes come back from the sextets they were split into.\<close>

lemma pack: "(y :: nat) < m \<Longrightarrow> (x * m + y) div m = x \<and> (x * m + y) mod m = y"
  by simp

lemma sextets:
  assumes "(a :: nat) < 256" "b < 256"
  shows "a div 4 < 64" "a mod 4 * 16 < 64" "a mod 4 * 16 + b div 16 < 64" "a mod 16 * 4 < 64" "a mod 16 * 4 + b div 64 < 64"
    "a div 4 * 4 + (a mod 4 * 16 + b div 16) div 16 = a" "a div 4 * 4 + a mod 4 * 16 div 16 = a"
    "(x mod 4 * 16 + a div 16) mod 16 * 16 + (a mod 16 * 4 + b div 64) div 4 = a"
    "(x mod 4 * 16 + a div 16) mod 16 * 16 + a mod 16 * 4 div 4 = a"
    "(x mod 16 * 4 + a div 64) mod 4 * 64 + a mod 64 = a"
proof -
  have d: "a div 16 < 16" "b div 16 < 16" "a div 64 < 4" "b div 64 < 4" using assms by simp_all
  have m: "a mod 4 < 4" "a mod 16 < 16" by simp_all
  show "a div 4 < 64" "a mod 4 * 16 < 64" "a mod 4 * 16 + b div 16 < 64" "a mod 16 * 4 < 64" "a mod 16 * 4 + b div 64 < 64"
    using assms d m by linarith+
  show "a div 4 * 4 + (a mod 4 * 16 + b div 16) div 16 = a" using pack [OF d(2), of "a mod 4"] by simp
  show "a div 4 * 4 + a mod 4 * 16 div 16 = a" by simp
  show "(x mod 4 * 16 + a div 16) mod 16 * 16 + (a mod 16 * 4 + b div 64) div 4 = a"
    using pack [OF d(1), of "x mod 4"] pack [OF d(4), of "a mod 16"] by simp
  show "(x mod 4 * 16 + a div 16) mod 16 * 16 + a mod 16 * 4 div 4 = a" using pack [OF d(1), of "x mod 4"] by simp
  show "(x mod 16 * 4 + a div 64) mod 4 * 64 + a mod 64 = a" using pack [OF d(3), of "x mod 16"] by simp
qed

lemma encode64_values:
  assumes "fair_alphabet abc"
  shows "\<exists>vs. symbol_values abc (encode64 abc bs) = Some vs \<and> join64 vs = Some bs"
  using assms
proof (induction abc bs rule: encode64.induct)
  case (1 abc a b c cs)
  then obtain vs where vs: "symbol_values abc (encode64 abc cs) = Some vs" "join64 vs = Some cs" by blast
  note lt = byte_lt [of a] byte_lt [of b] byte_lt [of c]
  note ab = sextets [OF lt(1,2)] and bc = sextets [OF lt(2,3)] and c = sextets(10) [OF lt(3,3), of "byte_of b"]
  show ?case
    by (simp only: encode64.simps symbol_values_Cons [OF 1(2)] ab bc vs option.map mod_less_divisor zero_less_numeral)
      (simp only: join64.simps vs option.map ab bc c char_of_char ex_simps simp_thms option.inject)
next
  case (2 abc a b)
  note lt = byte_lt [of a] byte_lt [of b]
  note ab = sextets [OF lt] and b = sextets [OF lt(2,2)]
  show ?case
    by (simp only: encode64.simps symbol_values_Cons [OF 2] ab b symbol_values.simps(1) option.map)
      (simp only: join64.simps ab b char_of_char ex_simps simp_thms option.inject)
next
  case (3 abc a)
  then show ?case
    using sextets [OF byte_lt [of a] byte_lt [of a]] by (simp add: symbol_values_Cons del: symbol_values.simps(2))
qed simp

lemma decode64_encode64: "fair_alphabet abc \<Longrightarrow> decode64 abc (encode64 abc bs) = Some bs"
  by (drule encode64_values [of abc bs]) (auto simp: decode64_def)

text \<open>An encoding holds no other characters.\<close>

lemma symbol_values_chars:
  "symbol_values abc s = Some vs \<Longrightarrow> c \<in> set s \<Longrightarrow> byte_of c \<in> {10 :: nat, 13} \<or> symbol_value abc c \<noteq> None"
  by (induction abc s arbitrary: vs rule: symbol_values.induct) (auto split: if_splits option.splits)

lemma encode64_chars:
  "fair_alphabet abc \<Longrightarrow> symbol_value abc c = None \<Longrightarrow> byte_of c \<notin> {10 :: nat, 13} \<Longrightarrow> c \<notin> set (encode64 abc bs)"
  using encode64_values symbol_values_chars by blast

lemma no_separator [simp]: "CHR ''.'' \<notin> set (encode64 raw_url bs)" "CHR ''$'' \<notin> set (encode64 raw_std bs)"
proof -
  have "symbol_value raw_url CHR ''.'' = None" "symbol_value raw_std CHR ''$'' = None" by code_simp+
  then show "CHR ''.'' \<notin> set (encode64 raw_url bs)" "CHR ''$'' \<notin> set (encode64 raw_std bs)"
    by (simp_all add: encode64_chars)
qed

end
