(* ===== verification/Password.thy ===== *)
theory Password
  imports World Base64
begin

text \<open>
  Password hashes (\<open>internal/modules/iam/password.go\<close>): the PHC string of an argon2id key.
\<close>

definition ErrInvalidHash :: go_error where
  "ErrInvalidHash = Sentinel ''iam: invalid encoded hash format''"

definition ErrIncompatibleVersion :: go_error where
  "ErrIncompatibleVersion = Sentinel ''iam: incompatible argon2 version''"

record argon2_params =
  ap_memory :: nat
  ap_iterations :: nat
  ap_parallelism :: nat
  ap_salt_length :: nat
  ap_key_length :: nat

definition DefaultArgon2Params :: argon2_params where
  "DefaultArgon2Params =
     \<lparr>ap_memory = 64 * 1024, ap_iterations = 2, ap_parallelism = 2, ap_salt_length = 16, ap_key_length = 32\<rparr>"

text \<open>\<open>argon2.Version\<close>.\<close>

definition argon2_version :: nat where
  "argon2_version = 0x13"

text \<open>\<open>argon2.IDKey\<close>.\<close>

definition IDKey :: "string \<Rightarrow> bytes \<Rightarrow> nat \<Rightarrow> nat \<Rightarrow> nat \<Rightarrow> nat \<Rightarrow> bytes act" where
  "IDKey password salt iterations memory parallelism keyLen e w =
     (case argon2id e password salt iterations memory parallelism keyLen of
        Some k \<Rightarrow> (Done k, w)
      | None \<Rightarrow> (Panics ''argon2'', w))"

definition rand_read :: "nat \<Rightarrow> bytes act" where
  "rand_read n e w =
     (case random_at e (ticks w) n of
        Some b \<Rightarrow> (Done b, tick w)
      | None \<Rightarrow> (Fail_with (Errorf ''failed to generate random salt'' (Opaque ''rand'')), tick w))"

definition encoded_hash :: "nat \<Rightarrow> nat \<Rightarrow> nat \<Rightarrow> nat \<Rightarrow> bytes \<Rightarrow> bytes \<Rightarrow> string" where
  "encoded_hash version memory iterations parallelism salt hash =
     ''$argon2id$v='' @ show_nat version @ ''$m='' @ show_nat memory @ '',t='' @ show_nat iterations @ '',p='' @
     show_nat parallelism @ ''$'' @ encode64 raw_std salt @ ''$'' @ encode64 raw_std hash"

definition HashPassword :: "string \<Rightarrow> string act" where
  "HashPassword password =
     (let p = DefaultArgon2Params in
      bind_act (rand_read (ap_salt_length p)) (\<lambda>salt.
      bind_act (IDKey password salt (ap_iterations p) (ap_memory p) (ap_parallelism p) (ap_key_length p)) (\<lambda>hash.
      ret (encoded_hash argon2_version (ap_memory p) (ap_iterations p) (ap_parallelism p) salt hash))))"

section \<open>\<open>fmt.Sscanf\<close>\<close>

text \<open>\<open>%d\<close> skips blanks, but not a line break, and reads digits (after a sign, into an \<open>int\<close>).\<close>

function skip_blanks :: "string \<Rightarrow> string option" where
  "skip_blanks s =
     (if s \<noteq> [] \<and> hd s = CHR 0x0A then None
      else if space_prefix space_encodings s = 0 then Some s
      else skip_blanks (drop (space_prefix space_encodings s) s))"
  by pat_completeness auto
termination
proof (relation "measure length", goal_cases)
  case 1
  show ?case by simp
next
  case (2 s)
  then have "s \<noteq> []"
    by (auto simp: space_prefix_def has_prefix_def split: list.splits dest: filter_eq_ConsD)
  with 2 show ?case by simp
qed

declare skip_blanks.simps [simp del]

definition scan_uint :: "nat \<Rightarrow> string \<Rightarrow> (nat \<times> string) option" where
  "scan_uint bits s =
     (case skip_blanks s of
        None \<Rightarrow> None
      | Some t \<Rightarrow>
          (let ds = takeWhile is_digit t; n = nat_of_digits ds
           in if ds = [] \<or> 2 ^ bits \<le> n then None else Some (n, dropWhile is_digit t)))"

definition scan_int :: "string \<Rightarrow> (int \<times> string) option" where
  "scan_int s =
     (case skip_blanks s of
        None \<Rightarrow> None
      | Some t \<Rightarrow>
          (let sign = (if t \<noteq> [] \<and> hd t \<in> {CHR ''+'', CHR ''-''} then [hd t] else []);
               ds = takeWhile is_digit (drop (length sign) t)
           in map_option (\<lambda>n. (n, dropWhile is_digit (drop (length sign) t))) (parse_int 64 (sign @ ds))))"

text \<open>The literal text of a format, then \<open>%d\<close>; what comes after the last number is not looked at.\<close>

definition scan_after :: "string \<Rightarrow> (string \<Rightarrow> ('a \<times> string) option) \<Rightarrow> string \<Rightarrow> ('a \<times> string) option" where
  "scan_after lit f s = (if has_prefix s lit then f (drop (length lit) s) else None)"

definition scan_version :: "string \<Rightarrow> int option" where
  "scan_version s = map_option fst (scan_after ''v='' scan_int s)"

definition scan_params :: "string \<Rightarrow> (nat \<times> nat \<times> nat) option" where
  "scan_params s =
     (case scan_after ''m='' (scan_uint 32) s of
        None \<Rightarrow> None
      | Some (m, r) \<Rightarrow>
          (case scan_after '',t='' (scan_uint 32) r of
             None \<Rightarrow> None
           | Some (t, r') \<Rightarrow>
               (case scan_after '',p='' (scan_uint 8) r' of
                  None \<Rightarrow> None
                | Some (p, _) \<Rightarrow> Some (m, t, p))))"

section \<open>Verification\<close>

definition VerifyPassword :: "string \<Rightarrow> string \<Rightarrow> bool act" where
  "VerifyPassword password encodedHash =
     (let parts = split_on CHR ''$'' encodedHash in
      if length parts \<noteq> 6 then throw ErrInvalidHash
      else if parts ! 1 \<noteq> ''argon2id'' then throw ErrInvalidHash
      else (case scan_version (parts ! 2) of
              None \<Rightarrow> throw ErrInvalidHash
            | Some version \<Rightarrow>
                if version \<noteq> int argon2_version then throw ErrIncompatibleVersion
                else (case scan_params (parts ! 3) of
                        None \<Rightarrow> throw ErrInvalidHash
                      | Some (memory, iterations, parallelism) \<Rightarrow>
                          (case decode64 raw_std (parts ! 4) of
                             None \<Rightarrow> throw ErrInvalidHash
                           | Some salt \<Rightarrow>
                               (case decode64 raw_std (parts ! 5) of
                                  None \<Rightarrow> throw ErrInvalidHash
                                | Some decodedHash \<Rightarrow>
                                    bind_act (IDKey password salt iterations memory parallelism (length decodedHash mod 2 ^ 32))
                                      (\<lambda>comparisonHash. ret (decodedHash = comparisonHash)))))))"

section \<open>What was hashed is verified\<close>

text \<open>The parts of a hash made with the default parameters.\<close>

lemma encoded_default:
  "encoded_hash 19 65536 2 2 salt hash =
     join_with [CHR ''$''] [[], ''argon2id'', ''v=19'', ''m=65536,t=2,p=2'', encode64 raw_std salt, encode64 raw_std hash]"
proof -
  have "show_nat 19 = ''19''" "show_nat 65536 = ''65536''" "show_nat 2 = ''2''"
    by (simp_all add: show_nat.simps digit_bytes)
  then show ?thesis by (simp add: encoded_hash_def)
qed

lemma split_default:
  "split_on CHR ''$'' (encoded_hash 19 65536 2 2 salt hash) =
     [[], ''argon2id'', ''v=19'', ''m=65536,t=2,p=2'', encode64 raw_std salt, encode64 raw_std hash]"
  unfolding encoded_default by (rule split_join_with) auto

lemma skip_blanks_id: "hd s \<noteq> CHR 0x0A \<Longrightarrow> space_prefix space_encodings s = 0 \<Longrightarrow> skip_blanks s = Some s"
  by (subst skip_blanks.simps) simp

lemma scan_default: "scan_version ''v=19'' = Some 19" "scan_params ''m=65536,t=2,p=2'' = Some (65536, 2, 2)"
proof -
  have "space_prefix space_encodings ''19'' = 0" "space_prefix space_encodings ''65536,t=2,p=2'' = 0"
    "space_prefix space_encodings ''2,p=2'' = 0" "space_prefix space_encodings ''2'' = 0" by code_simp+
  then have "skip_blanks ''19'' = Some ''19''" "skip_blanks ''65536,t=2,p=2'' = Some ''65536,t=2,p=2''"
    "skip_blanks ''2,p=2'' = Some ''2,p=2''" "skip_blanks ''2'' = Some ''2''" by (simp_all add: skip_blanks_id)
  then show "scan_version ''v=19'' = Some 19" "scan_params ''m=65536,t=2,p=2'' = Some (65536, 2, 2)"
    by (simp_all add: scan_version_def scan_params_def scan_after_def has_prefix_def scan_int_def scan_uint_def digits_simps)
qed

lemma HashPassword_DoneD:
  assumes "HashPassword p e w = (Done enc, w')"
  shows "\<exists>salt key. argon2id e p salt 2 65536 2 32 = Some key \<and>
    enc = encoded_hash 19 65536 2 2 salt key \<and> w' = tick w"
  using assms
  by (auto simp: HashPassword_def argon2_version_def DefaultArgon2Params_def rand_read_def IDKey_def act_simps elim!: bind_act_DoneD
      split: option.splits) blast

lemma VerifyPassword_encoded:
  assumes "length key < 2 ^ 32"
  shows "VerifyPassword q (encoded_hash 19 65536 2 2 salt key) e w =
    bind_act (IDKey q salt 2 65536 2 (length key)) (\<lambda>k. ret (key = k)) e w"
  using assms by (simp add: VerifyPassword_def Let_def split_default scan_default decode64_encode64 argon2_version_def)

text \<open>\<open>argon2.IDKey\<close> gives as many bytes as it is asked for.\<close>

definition argon2_sized :: "env \<Rightarrow> bool" where
  "argon2_sized e \<longleftrightarrow> (\<forall>p s t m n k key. argon2id e p s t m n k = Some key \<longrightarrow> length key = k)"

lemma hash_verifies:
  assumes "argon2_sized e" "HashPassword p e w = (Done enc, w')"
  shows "\<exists>salt k. argon2id e p salt 2 65536 2 32 = Some k \<and>
    (\<forall>q key w1. argon2id e q salt 2 65536 2 32 = Some key \<longrightarrow> VerifyPassword q enc e w1 = (Done (k = key), w1))"
proof -
  from HashPassword_DoneD [OF assms(2)] obtain salt k where k: "argon2id e p salt 2 65536 2 32 = Some k"
    and enc: "enc = encoded_hash 19 65536 2 2 salt k" by blast
  have len: "length k = 32" using k assms(1) unfolding argon2_sized_def by blast
  have "VerifyPassword q enc e w1 = (Done (k = key), w1)" if "argon2id e q salt 2 65536 2 32 = Some key" for q key w1
    using that len VerifyPassword_encoded [of k q salt e w1] by (simp add: enc IDKey_def bind_act_def ret_def)
  with k show ?thesis by blast
qed

text \<open>
  A password verifies against the hash made of it; any other password does so exactly when
  argon2id derives the same key from it with the salt of the hash. The format always parses.
\<close>

theorem password_hash_verifies:
  assumes "argon2_sized e" "HashPassword p e w = (Done enc, w')"
  shows "(\<exists>w2. VerifyPassword p enc e w1 = (Done True, w2)) \<and>
    (\<exists>salt. \<forall>q key. argon2id e q salt 2 65536 2 32 = Some key \<longrightarrow>
      (\<exists>w2. VerifyPassword q enc e w1 = (Done (argon2id e p salt 2 65536 2 32 = Some key), w2)))"
  using hash_verifies [OF assms] by fastforce

theorem password_hash_verifies_witness:
  "\<exists>w. VerifyPassword ''secret'' (encoded_hash 19 65536 2 2 (replicate 16 CHR ''s'')
     (''secret'' @ replicate 16 CHR ''s'' @ replicate 10 CHR ''.'')) (calm DriverSQLite) sample_world = (Done True, w)"
proof -
  have s: "argon2_sized (calm DriverSQLite)" by (simp add: argon2_sized_def) auto
  have h: "HashPassword ''secret'' (calm DriverSQLite) sample_world =
    (Done (encoded_hash 19 65536 2 2 (replicate 16 CHR ''s'')
       (''secret'' @ replicate 16 CHR ''s'' @ replicate 10 CHR ''.'')), tick sample_world)"
    by (simp add: HashPassword_def argon2_version_def DefaultArgon2Params_def rand_read_def IDKey_def act_simps bind_act_def)
  from password_hash_verifies [OF s h, of sample_world] show ?thesis by simp
qed

end
