(* ===== verification/Token.thy ===== *)
theory Token
  imports World Json_Decode Base64
begin

text \<open>
  Access tokens (\<open>internal/modules/iam/token.go\<close>): a JWT signed with HMAC-SHA256, written and
  read back with the JSON and Base64 of the standard library.
\<close>

definition ErrInvalidToken :: go_error where
  "ErrInvalidToken = Sentinel ''iam: invalid jwt token''"

definition ErrTokenExpired :: go_error where
  "ErrTokenExpired = Sentinel ''iam: jwt token has expired''"

record jwt_claims =
  jc_jti :: string
  jc_sub :: string
  jc_uid :: int
  jc_email :: string
  jc_iat :: int
  jc_exp :: int

definition claims_json :: "jwt_claims \<Rightarrow> json" where
  "claims_json c =
     JObj [(''jti'', JStr (jc_jti c)), (''sub'', JStr (jc_sub c)), (''uid'', JNum (jc_uid c)),
           (''email'', JStr (jc_email c)), (''iat'', JNum (jc_iat c)), (''exp'', JNum (jc_exp c))]"

definition no_claims :: jwt_claims where
  "no_claims = \<lparr>jc_jti = [], jc_sub = [], jc_uid = 0, jc_email = [], jc_iat = 0, jc_exp = 0\<rparr>"

definition decode_claims :: "doc \<Rightarrow> jwt_claims option" where
  "decode_claims =
     into_struct
       [(''jti'', string_field (\<lambda>s c. c\<lparr>jc_jti := s\<rparr>)), (''sub'', string_field (\<lambda>s c. c\<lparr>jc_sub := s\<rparr>)),
        (''uid'', int64_field (\<lambda>n c. c\<lparr>jc_uid := n\<rparr>)), (''email'', string_field (\<lambda>s c. c\<lparr>jc_email := s\<rparr>)),
        (''iat'', int64_field (\<lambda>n c. c\<lparr>jc_iat := n\<rparr>)), (''exp'', int64_field (\<lambda>n c. c\<lparr>jc_exp := n\<rparr>))]
       no_claims"

text \<open>The header, as the pair of \<open>alg\<close> and \<open>typ\<close>.\<close>

definition header_json :: json where
  "header_json = JObj [(''alg'', JStr ''HS256''), (''typ'', JStr ''JWT'')]"

definition decode_header :: "doc \<Rightarrow> (string \<times> string) option" where
  "decode_header =
     into_struct [(''alg'', string_field (\<lambda>s h. (s, snd h))), (''typ'', string_field (\<lambda>s h. (fst h, s)))] ([], [])"

record token_manager =
  tm_secret :: bytes
  tm_ttl :: duration

definition NewTokenManager :: "string \<Rightarrow> duration \<Rightarrow> token_manager" where
  "NewTokenManager secret ttl = \<lparr>tm_secret = secret, tm_ttl = (if ttl = 0 then 15 * minute else ttl)\<rparr>"

text \<open>\<open>t.Unix()\<close>: whole seconds.\<close>

definition unix :: "time \<Rightarrow> int" where
  "unix t = t div second"

definition sign_token :: "env \<Rightarrow> bytes \<Rightarrow> jwt_claims \<Rightarrow> string" where
  "sign_token e secret c =
     (let signingInput = encode64 raw_url (render header_json) @ ''.'' @ encode64 raw_url (render (claims_json c))
      in signingInput @ ''.'' @ encode64 raw_url (hmac_sha256 e secret signingInput))"

text \<open>The token, its id and its time of expiry.\<close>

definition GenerateAccessToken :: "token_manager \<Rightarrow> int \<Rightarrow> uuid \<Rightarrow> string \<Rightarrow> (string \<times> string \<times> time) act" where
  "GenerateAccessToken tm uid publicID email =
     bind_act time_now (\<lambda>now.
     bind_act uuid_new (\<lambda>jti. \<lambda>e.
       let expiresAt = now + tm_ttl tm;
           c = \<lparr>jc_jti = jti, jc_sub = publicID, jc_uid = uid, jc_email = email, jc_iat = unix now, jc_exp = unix expiresAt\<rparr>
       in ret (sign_token e (tm_secret tm) c, jti, expiresAt) e))"

text \<open>The claims of a token that is well formed and signed, whatever its age.\<close>

definition signed_claims :: "env \<Rightarrow> bytes \<Rightarrow> string \<Rightarrow> jwt_claims option" where
  "signed_claims e secret token =
     (let parts = split_on CHR ''.'' token in
      if length parts \<noteq> 3 then None
      else (case decode64 raw_url (parts ! 0) of
              None \<Rightarrow> None
            | Some headerJSON \<Rightarrow>
                (case read_all_value headerJSON of
                   None \<Rightarrow> None
                 | Some hv \<Rightarrow>
                     (case decode_header hv of
                        None \<Rightarrow> None
                      | Some (alg, typ) \<Rightarrow>
                          if alg \<noteq> ''HS256'' \<or> typ \<noteq> ''JWT'' then None
                          else (case decode64 raw_url (parts ! 2) of
                                  None \<Rightarrow> None
                                | Some providedSignature \<Rightarrow>
                                    if providedSignature \<noteq> hmac_sha256 e secret (parts ! 0 @ ''.'' @ parts ! 1) then None
                                    else (case decode64 raw_url (parts ! 1) of
                                            None \<Rightarrow> None
                                          | Some claimsJSON \<Rightarrow>
                                              (case read_all_value claimsJSON of
                                                 None \<Rightarrow> None
                                               | Some cv \<Rightarrow> decode_claims cv)))))))"

definition VerifyAccessToken :: "token_manager \<Rightarrow> string \<Rightarrow> jwt_claims act" where
  "VerifyAccessToken tm token e =
     (case signed_claims e (tm_secret tm) token of
        None \<Rightarrow> throw ErrInvalidToken e
      | Some c \<Rightarrow> bind_act time_now (\<lambda>now. if unix now > jc_exp c then throw ErrTokenExpired else ret c) e)"

definition HashToken :: "env \<Rightarrow> string \<Rightarrow> string" where
  "HashToken e rawToken = sha256_hex e rawToken"

section \<open>A signed token reads back\<close>

text \<open>Claims that JSON carries unchanged: texts in UTF-8, numbers of 64 bits.\<close>

definition sendable :: "jwt_claims \<Rightarrow> bool" where
  "sendable c \<longleftrightarrow> list_all valid_utf8 [jc_jti c, jc_sub c, jc_email c] \<and>
     list_all (\<lambda>n. - (2 ^ 63) \<le> n \<and> n < 2 ^ 63) [jc_uid c, jc_iat c, jc_exp c]"

lemma names_utf8 [simp]:
  "valid_utf8 ''alg''" "valid_utf8 ''typ''" "valid_utf8 ''HS256''" "valid_utf8 ''JWT''" "valid_utf8 ''jti''" "valid_utf8 ''sub''"
  "valid_utf8 ''uid''" "valid_utf8 ''email''" "valid_utf8 ''iat''" "valid_utf8 ''exp''"
  by (simp_all add: valid_utf8_ascii ascii_def)

lemma fold_names [simp]:
  "fold_name ''alg'' = ''alg''" "fold_name ''typ'' = ''typ''" "fold_name ''jti'' = ''jti''" "fold_name ''sub'' = ''sub''"
  "fold_name ''uid'' = ''uid''" "fold_name ''email'' = ''email''" "fold_name ''iat'' = ''iat''" "fold_name ''exp'' = ''exp''"
  by (simp_all add: fold_name_ascii ascii_def ascii_lower_def ascii_lower_char_def less_eq_char_def)

lemma read_header: "read_all_value (render header_json) = Some (doc_of header_json)"
  "decode_header (doc_of header_json) = Some (''HS256'', ''JWT'')"
  by (rule read_all_value_render) (simp_all add: header_json_def max_nesting_def decode_header_def into_struct_def)

lemma read_claims:
  assumes "sendable c"
  shows "read_all_value (render (claims_json c)) = Some (doc_of (claims_json c))"
    "decode_claims (doc_of (claims_json c)) = Some c"
proof -
  show "read_all_value (render (claims_json c)) = Some (doc_of (claims_json c))"
    using assms by (intro read_all_value_render) (simp add: sendable_def claims_json_def max_nesting_def)
  show "decode_claims (doc_of (claims_json c)) = Some c"
    using assms by (simp add: sendable_def claims_json_def decode_claims_def into_struct_def no_claims_def)
qed

lemma split_token:
  "split_on CHR ''.'' (encode64 raw_url a @ ''.'' @ encode64 raw_url b @ ''.'' @ encode64 raw_url c) =
    [encode64 raw_url a, encode64 raw_url b, encode64 raw_url c]"
  using split_join_with [of "[encode64 raw_url a, encode64 raw_url b, encode64 raw_url c]" "CHR ''.''"] by simp

lemma signed_claims_sign:
  "sendable c \<Longrightarrow> signed_claims e secret (sign_token e secret c) = Some c"
  using split_token [of "render header_json" "render (claims_json c)"]
  by (simp add: signed_claims_def sign_token_def Let_def decode64_encode64 read_header read_claims)

lemma GenerateAccessToken_DoneD:
  assumes "GenerateAccessToken tm uid pid email e w = (Done (token, jti, expiresAt), w')"
  shows "\<exists>iat. token = sign_token e (tm_secret tm)
      \<lparr>jc_jti = jti, jc_sub = pid, jc_uid = uid, jc_email = email, jc_iat = iat, jc_exp = unix expiresAt\<rparr> \<and>
    iat = unix (clock e (ticks w)) \<and> expiresAt = clock e (ticks w) + tm_ttl tm \<and>
    jti = new_uuid_at e (Suc (ticks w)) \<and> dbase w' = dbase w \<and> tx_now w' = tx_now w \<and> ticks w' = ticks w + 2"
  using assms by (auto simp: GenerateAccessToken_def act_simps bind_act_def Let_def)

lemma GenerateAccessToken_total: "\<exists>x w'. GenerateAccessToken tm uid pid email e w = (Done x, w')"
  by (simp add: GenerateAccessToken_def act_simps bind_act_def Let_def)

text \<open>
  A token that was generated verifies, with the claims it was made of, up to the second of its
  expiry; after that it is reported as expired.
\<close>

theorem token_round_trip:
  assumes "GenerateAccessToken tm uid pid email e w = (Done (token, jti, expiresAt), w')"
    and "valid_utf8 pid" "valid_utf8 email" "valid_utf8 jti"
    and "\<forall>n \<in> {uid, unix (clock e (ticks w)), unix expiresAt}. - (2 ^ 63) \<le> n \<and> n < 2 ^ 63"
  shows "VerifyAccessToken tm token e w2 =
    (if unix (clock e (ticks w2)) > unix expiresAt then Fail_with ErrTokenExpired
     else Done \<lparr>jc_jti = jti, jc_sub = pid, jc_uid = uid, jc_email = email,
       jc_iat = unix (clock e (ticks w)), jc_exp = unix expiresAt\<rparr>, tick w2)"
proof -
  let ?c = "\<lparr>jc_jti = jti, jc_sub = pid, jc_uid = uid, jc_email = email, jc_iat = unix (clock e (ticks w)), jc_exp = unix expiresAt\<rparr>"
  have "sendable ?c" using assms(2-5) by (simp add: sendable_def)
  moreover have "token = sign_token e (tm_secret tm) ?c" using GenerateAccessToken_DoneD [OF assms(1)] by simp
  ultimately have "signed_claims e (tm_secret tm) token = Some ?c" by (simp add: signed_claims_sign)
  then show ?thesis by (simp add: VerifyAccessToken_def bind_act_def act_simps)
qed

definition sample_manager :: token_manager where
  "sample_manager = NewTokenManager ''key'' 0"

theorem token_round_trip_witness:
  "\<exists>token jti expiresAt w' c. GenerateAccessToken sample_manager 1 ''u-1'' ''ann@example.org'' (calm DriverSQLite) sample_world =
      (Done (token, jti, expiresAt), w') \<and>
    fst (VerifyAccessToken sample_manager token (calm DriverSQLite) w') = Done c \<and> jc_uid c = 1"
proof -
  let ?e = "calm DriverSQLite"
  obtain token jti expiresAt w' where g: "GenerateAccessToken sample_manager 1 ''u-1'' ''ann@example.org'' ?e sample_world =
      (Done (token, jti, expiresAt), w')"
    using GenerateAccessToken_total [of sample_manager 1 "''u-1''" "''ann@example.org''" ?e sample_world] by auto
  from GenerateAccessToken_DoneD [OF g] have x: "expiresAt = 900 * second" "jti = ''uuid-1''" "ticks w' = 2"
    by (simp_all add: sample_manager_def NewTokenManager_def show_nat.simps digit_bytes)
  have u: "valid_utf8 ''u-1''" "valid_utf8 ''ann@example.org''" "valid_utf8 jti"
    by (simp_all add: valid_utf8_ascii ascii_def x)
  show ?thesis
    using token_round_trip [OF g u, of w'] g by (simp add: unix_def x)
qed

text \<open>What it means that a token is signed, said without the code: three parts, the last of which is the
  HMAC of the first two under the secret, and the claims in the second.\<close>

definition signed_by :: "env \<Rightarrow> bytes \<Rightarrow> string \<Rightarrow> jwt_claims \<Rightarrow> bool" where
  "signed_by e secret token c \<longleftrightarrow>
     (\<exists>a b s t v. token = a @ ''.'' @ b @ ''.'' @ s \<and> decode64 raw_url s = Some (hmac_sha256 e secret (a @ ''.'' @ b)) \<and>
        decode64 raw_url b = Some t \<and> read_all_value t = Some v \<and> decode_claims v = Some c)"

lemma signed_claims_signed:
  assumes c: "signed_claims e secret token = Some c"
  shows "signed_by e secret token c"
proof -
  from c have "length (split_on CHR ''.'' token) = 3" by (auto simp: signed_claims_def Let_def split: if_splits)
  then obtain a b s where p: "split_on CHR ''.'' token = [a, b, s]"
    by (auto simp: length_Suc_conv eval_nat_numeral)
  then have "token = a @ ''.'' @ b @ ''.'' @ s" using join_split_on [of "CHR ''.''" token] by simp
  moreover obtain t v where "decode64 raw_url s = Some (hmac_sha256 e secret (a @ ''.'' @ b)) \<and>
      decode64 raw_url b = Some t \<and> read_all_value t = Some v \<and> decode_claims v = Some c"
    using c by (auto simp: signed_claims_def p Let_def split: if_splits option.splits)
  ultimately show ?thesis unfolding signed_by_def by blast
qed

text \<open>
  A token that verifies has three parts, the last of which decodes to the HMAC of the first
  two under the manager's secret; its claims are those of the second part and have not expired.
\<close>

theorem only_signed_tokens_pass:
  assumes "VerifyAccessToken tm token e w = (Done c, w')"
  shows "\<exists>a b s v. token = a @ ''.'' @ b @ ''.'' @ s \<and> decode64 raw_url s = Some (hmac_sha256 e (tm_secret tm) (a @ ''.'' @ b)) \<and>
    (\<exists>bytes. decode64 raw_url b = Some bytes \<and> read_all_value bytes = Some v \<and> decode_claims v = Some c) \<and>
    unix (clock e (ticks w)) \<le> jc_exp c \<and> dbase w' = dbase w"
proof -
  from assms have c: "signed_claims e (tm_secret tm) token = Some c" and t: "unix (clock e (ticks w)) \<le> jc_exp c" "w' = tick w"
    by (auto simp: VerifyAccessToken_def act_simps bind_act_def split: option.splits if_splits)
  from signed_claims_signed [OF c] t show ?thesis unfolding signed_by_def by fastforce
qed

theorem only_signed_tokens_pass_witness:
  "\<exists>token c w. VerifyAccessToken sample_manager token (calm DriverSQLite) sample_world = (Done c, w) \<and> jc_exp c = 60 \<and>
    (\<exists>a b s. token = a @ ''.'' @ b @ ''.'' @ s)"
proof -
  let ?c = "no_claims\<lparr>jc_exp := 60\<rparr>" and ?e = "calm DriverSQLite"
  have "sendable ?c" by (simp add: sendable_def no_claims_def)
  then have v: "VerifyAccessToken sample_manager (sign_token ?e (tm_secret sample_manager) ?c) ?e sample_world = (Done ?c, tick sample_world)"
    by (simp add: VerifyAccessToken_def signed_claims_sign bind_act_def act_simps unix_def)
  from only_signed_tokens_pass [OF v] v show ?thesis by fastforce
qed

end
