(* ===== verification/Auth.thy ===== *)
theory Auth
  imports Http
begin

text \<open>
  Authentication of requests (\<open>internal/platform/mid/auth.go\<close>): the user in the request context,
  and the middleware that puts him there. What it relies on is the interface \<open>Authenticator\<close>.
\<close>

record user_context =
  uc_id :: int
  uc_public :: uuid
  uc_email :: string
  uc_jti :: string
  uc_expires :: time

text \<open>The zero \<open>time.Time\<close>, 0001-01-01.\<close>

definition zero_time :: time where
  "zero_time = - 62135596800 * second"

definition WithUser :: "ctx \<Rightarrow> user_context option \<Rightarrow> ctx" where
  "WithUser c u =
     (case u of
        None \<Rightarrow> c
      | Some u \<Rightarrow>
          (let c1 = c\<lparr>cx_user := uc_id u\<rparr>;
               c2 = (if uc_jti u \<noteq> [] then c1\<lparr>cx_jti := uc_jti u\<rparr> else c1)
           in if uc_expires u \<noteq> zero_time then c2\<lparr>cx_token_exp := Some (uc_expires u)\<rparr> else c2))"

definition GetJTI :: "ctx \<Rightarrow> string" where
  "GetJTI c = cx_jti c"

definition GetTokenExpiresAt :: "ctx \<Rightarrow> time" where
  "GetTokenExpiresAt c = (case cx_token_exp c of Some t \<Rightarrow> t | None \<Rightarrow> zero_time)"

type_synonym authenticator = "ctx \<Rightarrow> string \<Rightarrow> user_context option act"

definition bearer_token :: "string \<Rightarrow> string" where
  "bearer_token header = trim_space (trim_prefix header ''Bearer '')"

definition Authenticate :: "authenticator \<Rightarrow> middleware" where
  "Authenticate auth nxt e r h w =
     (let authHeader = rq_header r ''Authorization'' in
      if authHeader = [] \<or> \<not> has_prefix authHeader ''Bearer '' then
        answered_with (Fail 401 ''UNAUTHORIZED'' ''Missing or invalid authorization header'' e w)
      else (case auth (rq_ctx r) (bearer_token authHeader) e w of
              (Done u, w') \<Rightarrow> nxt e (r\<lparr>rq_ctx := WithUser (rq_ctx r) u\<rparr>) h w'
            | (Fail_with err, w') \<Rightarrow> answered_with (Fail 401 ''UNAUTHORIZED'' ''Session is invalid or expired'' e w')
            | (Panics p, w') \<Rightarrow> (\<lparr>ops = [], panicked = Some p\<rparr>, w')))"

text \<open>
  The contract of \<open>Authenticator\<close>: it does not change the tables, it does not panic, and the user
  it returns is one the tables vouch for.
\<close>

locale token_authenticator =
  fixes auth :: authenticator
    and vouched :: "env \<Rightarrow> world \<Rightarrow> string \<Rightarrow> user_context \<Rightarrow> bool"
  assumes auth_keeps: "auth c token e w = (res, w') \<Longrightarrow> dbase w' = dbase w \<and> tx_now w' = tx_now w"
    and auth_vouched: "auth c token e w = (Done u, w') \<Longrightarrow> \<exists>v. u = Some v \<and> vouched e w token v"
    and auth_no_panic: "auth c token e w \<noteq> (Panics p, w')"
begin

text \<open>The handler behind the middleware runs only for a vouched user, and with his context.\<close>

lemma authenticated:
  assumes "Authenticate auth nxt e r h w = (rep, w')"
  shows "rs_status (send h (ops rep)) = 401 \<and> panicked rep = None \<and> dbase w' = dbase w \<or>
    (\<exists>u w1. has_prefix (rq_header r ''Authorization'') ''Bearer '' \<and>
      vouched e w (bearer_token (rq_header r ''Authorization'')) u \<and> dbase w1 = dbase w \<and> tx_now w1 = tx_now w \<and>
      nxt e (r\<lparr>rq_ctx := WithUser (rq_ctx r) (Some u)\<rparr>) h w1 = (rep, w'))"
proof (cases "rq_header r ''Authorization'' = [] \<or> \<not> has_prefix (rq_header r ''Authorization'') ''Bearer ''")
  case True
  with assms have "answered_with (Fail 401 ''UNAUTHORIZED'' ''Missing or invalid authorization header'' e w) = (rep, w')"
    by (simp add: Authenticate_def)
  from answered_with_Fail [OF this, of h] show ?thesis by simp
next
  case False
  obtain res w1 where a: "auth (rq_ctx r) (bearer_token (rq_header r ''Authorization'')) e w = (res, w1)" by fastforce
  show ?thesis
  proof (cases res)
    case (Done u)
    from auth_vouched [OF a [unfolded Done]] auth_keeps [OF a] show ?thesis
      using assms False a Done by (auto simp: Authenticate_def)
  next
    case (Fail_with err)
    with assms False a have "answered_with (Fail 401 ''UNAUTHORIZED'' ''Session is invalid or expired'' e w1) = (rep, w')"
      by (simp add: Authenticate_def)
  from answered_with_Fail [OF this, of h] auth_keeps [OF a] show ?thesis by simp
  next
    case (Panics p)
    with a auth_no_panic show ?thesis by blast
  qed
qed

end

end
