(* ===== verification/Iam_Service.thy ===== *)
theory Iam_Service
  imports Iam_Store Password Token Auth
begin

text \<open>
  Registration, login, logout and authentication (\<open>internal/modules/iam/model.go\<close>,
  \<open>service.go\<close>).
\<close>

section \<open>Inputs\<close>

record register_input =
  ri_email :: string
  ri_name :: string
  ri_password :: string

record login_input =
  li_email :: string
  li_password :: string

definition required :: string where
  "required = ''Email, name, and password are required''"

definition Register_Validate :: "env \<Rightarrow> register_input \<Rightarrow> string list" where
  "Register_Validate e i =
     (if ri_email i = [] then [required]
      else if 255 < length (ri_email i) then [''Email must be at most 255 characters'']
      else if \<not> mail_address e (ri_email i) then [''Email format is invalid'']
      else []) @
     (if ri_name i = [] then [required]
      else if 100 < length (ri_name i) then [''Name must be at most 100 characters'']
      else []) @
     (if ri_password i = [] then [required]
      else if length (ri_password i) < 8 then [''Password must be at least 8 characters'']
      else if 128 < length (ri_password i) then [''Password must be at most 128 characters'']
      else [])"

definition Register_Normalize :: "env \<Rightarrow> register_input \<Rightarrow> register_input" where
  "Register_Normalize e i =
     \<lparr>ri_email = to_lower e (trim_space (ri_email i)), ri_name = trim_space (ri_name i), ri_password = ri_password i\<rparr>"

definition Login_Normalize :: "env \<Rightarrow> login_input \<Rightarrow> login_input" where
  "Login_Normalize e i = \<lparr>li_email = to_lower e (trim_space (li_email i)), li_password = li_password i\<rparr>"

record auth_response =
  ar_token :: string
  ar_expires :: time
  ar_user :: user

section \<open>The service\<close>

record iam_service =
  is_store :: iam_store
  is_tokens :: token_manager

definition iam_NewService :: "iam_store \<Rightarrow> token_manager \<Rightarrow> iam_service" where
  "iam_NewService store tm = \<lparr>is_store = store, is_tokens = tm\<rparr>"

definition iamLayer :: string where "iamLayer = ''iam.service''"

definition iamWrap :: "string \<Rightarrow> go_error \<Rightarrow> go_error" where
  "iamWrap message err = wrap iamLayer message err"

definition service_error :: "string \<Rightarrow> string \<Rightarrow> go_error option \<Rightarrow> go_error" where
  "service_error = NewAppError ''iam.service''"

definition invalid_credentials :: go_error where
  "invalid_credentials = service_error ''INVALID_CREDENTIALS'' ''Invalid email or password'' (Some ErrUnauthorized)"

definition issueToken :: "iam_service \<Rightarrow> user \<Rightarrow> auth_response act" where
  "issueToken s u =
     bind_act (map_error (\<lambda>err. service_error ''INTERNAL_ERROR'' ''Failed to generate session token''
         (Some (Errorf ''generate token'' err)))
       (GenerateAccessToken (is_tokens s) (u_id u) (u_public u) (u_email u))) (\<lambda>(token, jti, expiresAt). \<lambda>e.
     bind_act (map_error (iamWrap ''Failed to create session'')
       (us_CreateSession (is_store s) (u_id u) (HashToken e token) expiresAt)) (\<lambda>_.
     ret \<lparr>ar_token = token, ar_expires = expiresAt, ar_user = u\<lparr>u_password_hash := []\<rparr>\<rparr>) e)"

definition Register :: "iam_service \<Rightarrow> register_input \<Rightarrow> auth_response act" where
  "Register s input0 e =
     (let input = Register_Normalize e input0 in
      case Register_Validate e input of
        msg # _ \<Rightarrow> throw (service_error ''VALIDATION_ERROR'' msg None) e
      | [] \<Rightarrow>
          catch (us_GetUserByEmail (is_store s) (ri_email input)) (\<lambda>found.
            case found of
              Inr _ \<Rightarrow> throw (service_error ''EMAIL_TAKEN'' ''Email already registered'' (Some ErrEmailTaken))
            | Inl err \<Rightarrow>
                if \<not> errors_is err ''iam: not found'' then throw (iamWrap ''Failed to check email'' err)
                else
                  bind_act (map_error (\<lambda>err. service_error ''INTERNAL_ERROR'' ''Failed to secure password''
                      (Some (Errorf ''hash password'' err))) (HashPassword (ri_password input))) (\<lambda>hash.
                  bind_act (map_error (iamWrap ''Failed to create user'')
                    (us_CreateUser (is_store s) (ri_email input) (ri_name input) hash)) (\<lambda>u.
                  issueToken s u))) e)"

definition Login :: "iam_service \<Rightarrow> login_input \<Rightarrow> auth_response act" where
  "Login s input0 e =
     (let input = Login_Normalize e input0 in
      if li_email input = [] \<or> li_password input = []
      then throw (service_error ''VALIDATION_ERROR'' ''Email and password are required'' None) e
      else catch (us_GetUserByEmail (is_store s) (li_email input)) (\<lambda>found.
             case found of
               Inl err \<Rightarrow>
                 if errors_is err ''iam: not found'' then throw invalid_credentials
                 else throw (iamWrap ''Failed to find user'' err)
             | Inr u \<Rightarrow>
                 if \<not> u_active u then throw invalid_credentials
                 else
                   bind_act (map_error (\<lambda>err. service_error ''INTERNAL_ERROR'' ''Failed to verify password''
                       (Some (Errorf ''verify password'' err))) (VerifyPassword (li_password input) (u_password_hash u)))
                     (\<lambda>ok. if \<not> ok then throw invalid_credentials else issueToken s u)) e)"

definition Logout :: "iam_service \<Rightarrow> string \<Rightarrow> unit act" where
  "Logout s tokenHash = us_RevokeSession (is_store s) tokenHash"

definition Service_Authenticate :: "iam_service \<Rightarrow> authenticator" where
  "Service_Authenticate s c token =
     bind_act (VerifyAccessToken (is_tokens s) token) (\<lambda>claims. \<lambda>e.
       case uuid_parse e (jc_sub claims) of
         None \<Rightarrow> throw ErrInvalidSession e
       | Some publicID \<Rightarrow>
           bind_act (us_GetSessionByTokenHash (is_store s) (HashToken e token)) (\<lambda>_.
             ret (Some \<lparr>uc_id = jc_uid claims, uc_public = publicID, uc_email = jc_email claims, uc_jti = jc_jti claims,
                        uc_expires = jc_exp claims * second\<rparr>)) e)"

definition Me :: "iam_service \<Rightarrow> int \<Rightarrow> user act" where
  "Me s uid = map_error (iamWrap ''Failed to find user'') (us_GetUserByID (is_store s) uid)"

end
