(* ===== verification/Iam_Handler.thy ===== *)
theory Iam_Handler
  imports Iam_Service
begin

text \<open>The HTTP handlers of the accounts (\<open>internal/modules/iam/handler.go\<close>).\<close>

definition decode_register :: "doc \<Rightarrow> register_input option" where
  "decode_register =
     into_struct
       [(''email'', string_field (\<lambda>s i. i\<lparr>ri_email := s\<rparr>)), (''name'', string_field (\<lambda>s i. i\<lparr>ri_name := s\<rparr>)),
        (''password'', string_field (\<lambda>s i. i\<lparr>ri_password := s\<rparr>))]
       \<lparr>ri_email = [], ri_name = [], ri_password = []\<rparr>"

definition decode_login :: "doc \<Rightarrow> login_input option" where
  "decode_login =
     into_struct
       [(''email'', string_field (\<lambda>s i. i\<lparr>li_email := s\<rparr>)), (''password'', string_field (\<lambda>s i. i\<lparr>li_password := s\<rparr>))]
       \<lparr>li_email = [], li_password = []\<rparr>"

definition user_json :: "user \<Rightarrow> json" where
  "user_json u =
     JObj [(''id'', JStr (u_public u)), (''email'', JStr (u_email u)), (''name'', JStr (u_name u)),
           (''is_active'', JBool (u_active u)), (''created_at'', JStr (rfc3339_nano (u_created u)))]"

definition auth_response_json :: "auth_response \<Rightarrow> json" where
  "auth_response_json a =
     JObj [(''token'', JStr (ar_token a)), (''expires_at'', JStr (rfc3339_nano (ar_expires a))), (''user'', user_json (ar_user a))]"

definition Handler_Register :: "iam_service \<Rightarrow> handler" where
  "Handler_Register s e r h =
     guarded_by (Decode decode_register r)
       (\<lambda>input. respond ''Unable to register user'' (\<lambda>a. Created_reply (auth_response_json a)) (Register s input)) e"

definition Handler_Login :: "iam_service \<Rightarrow> handler" where
  "Handler_Login s e r h =
     guarded_by (Decode decode_login r)
       (\<lambda>input. respond ''Unable to log in'' (\<lambda>a. OK_reply (auth_response_json a)) (Login s input)) e"

definition unauthorized :: "string \<Rightarrow> env \<Rightarrow> world \<Rightarrow> reply \<times> world" where
  "unauthorized message e w = answered_with (Fail 401 ''UNAUTHORIZED'' message e w)"

definition Handler_Logout :: "iam_service \<Rightarrow> handler" where
  "Handler_Logout s e r h w =
     (let authHeader = rq_header r ''Authorization''; token = bearer_token authHeader in
      if \<not> has_prefix authHeader ''Bearer '' then unauthorized ''Missing or invalid authorization header'' e w
      else if token = [] then unauthorized ''Missing or invalid authorization header'' e w
      else respond ''Unable to log out'' (\<lambda>_. OK_reply (JObj [(''message'', JStr ''Logged out'')]))
             (Logout s (HashToken e token)) e w)"

definition Handler_Me :: "iam_service \<Rightarrow> handler" where
  "Handler_Me s e r h w =
     (if GetUserID (rq_ctx r) = 0 then unauthorized ''Authentication required'' e w
      else respond ''Unable to fetch user'' (\<lambda>u. OK_reply (user_json (u\<lparr>u_password_hash := []\<rparr>)))
             (Me s (GetUserID (rq_ctx r))) e w)"

end
