(* ===== verification/Iam_Tables.thy ===== *)
theory Iam_Tables
  imports Iam_Handler
begin

text \<open>
  The tables of users and sessions as an abstract machine: what a run of the account operations may
  do to them, whatever the driver and whatever fails. The operations of the service refine it
  (\<open>account_ops_refine_tables\<close>), and what holds of the machine holds of them.
\<close>

section \<open>The machine\<close>

inductive table_step :: "env \<Rightarrow> db \<Rightarrow> db \<Rightarrow> bool" for e where
  add_user: "added_user e em nm h r d d' \<Longrightarrow> table_step e d d'"
| upsert: "upserted_user e em nm h d d' \<Longrightarrow> table_step e d d'"
| open_session: "added_session e uid h expiry r d d' \<Longrightarrow> table_step e d d'"
| revoke_session: "d' = d\<lparr>sessions := update_where (\<lambda>r. se_token_hash r = h \<and> se_revoked r = None)
      (\<lambda>r. r\<lparr>se_revoked := Some t\<rparr>) (sessions d)\<rparr> \<Longrightarrow> table_step e d d'"
| elsewhere: "users d' = users d \<Longrightarrow> sessions d' = sessions d \<Longrightarrow> seq_users d' = seq_users d \<Longrightarrow>
      seq_sessions d' = seq_sessions d \<Longrightarrow> table_step e d d'"

inductive table_run :: "env \<Rightarrow> db \<Rightarrow> db \<Rightarrow> bool" for e where
  stay: "table_run e d d"
| more: "table_run e d d1 \<Longrightarrow> table_step e d1 d2 \<Longrightarrow> table_run e d d2"

lemma run_step: "table_step e d d' \<Longrightarrow> table_run e d d'"
  by (rule table_run.more [OF table_run.stay])

lemma run_trans: "table_run e d2 d3 \<Longrightarrow> table_run e d1 d2 \<Longrightarrow> table_run e d1 d3"
  by (induction rule: table_run.induct) (auto intro: table_run.more)

section \<open>What the machine keeps\<close>

definition live_emails :: "env \<Rightarrow> user_row list \<Rightarrow> string list" where
  "live_emails e rs = map (\<lambda>r. db_lower e (us_email r)) (filter (\<lambda>r. us_deleted r = None) rs)"

text \<open>The ids and public ids of the users are their own, as are the e-mails of those not deleted,
  whatever the case of their letters; no two sessions share a token hash, and each is of a user.\<close>

definition accounts_ok :: "env \<Rightarrow> db \<Rightarrow> bool" where
  "accounts_ok e d \<longleftrightarrow>
     distinct (map us_id (users d)) \<and> list_all (\<lambda>r. us_id r \<le> seq_users d) (users d) \<and>
     distinct (map us_public (users d)) \<and> distinct (live_emails e (users d)) \<and>
     distinct (map se_id (sessions d)) \<and> list_all (\<lambda>r. se_id r \<le> seq_sessions d) (sessions d) \<and>
     distinct (map se_token_hash (sessions d)) \<and> list_all (\<lambda>r. user_exists d (se_user r)) (sessions d)"

lemma list_update_where:
  assumes "\<And>r. P (f r) = P r"
  shows "list_all P (update_where p f rs) = list_all P rs" "list_ex P (update_where p f rs) = list_ex P rs"
  using assms by (induction rs) auto

lemma live_emails_update:
  assumes "\<And>r. us_email (f r) = us_email r" "\<And>r. us_deleted (f r) = us_deleted r"
  shows "live_emails e (update_where p f rs) = live_emails e rs"
  using assms by (induction rs) (auto simp: live_emails_def)

lemma new_email_fresh:
  "\<not> list_ex (live_email e em) rs \<Longrightarrow> db_lower e em \<notin> set (live_emails e rs)"
  by (auto simp: list_ex_iff live_email_def live_emails_def)

lemma user_exists_alt: "user_exists d i \<longleftrightarrow> i \<in> us_id ` set (users d)"
  by (auto simp: user_exists_def list_ex_iff)

lemma new_id_fresh: "list_all (\<lambda>r. key r \<le> n) rs \<Longrightarrow> n + 1 \<notin> key ` set rs" for n :: int
  by (fastforce simp: list_all_iff)

lemma add_user_ok:
  assumes "added_user e em nm h r d d'" "accounts_ok e d"
  shows "accounts_ok e d'"
proof -
  have u: "seq_users d + 1 \<notin> us_id ` set (users d)" "db_lower e em \<notin> set (live_emails e (users d))"
    using assms new_id_fresh [of us_id "seq_users d" "users d"] new_email_fresh [of e em "users d"]
    by (auto simp: accounts_ok_def added_user_def)
  from assms(1) obtain pid now where r: "r = (new_user_row pid em nm h now)\<lparr>us_id := seq_users d + 1\<rparr>"
    and p: "pid \<notin> us_public ` set (users d)" and d': "d' = d\<lparr>users := users d @ [r], seq_users := seq_users d + 1\<rparr>"
    by (auto simp: added_user_def list_ex_iff)
  have f: "us_id r = seq_users d + 1" "us_public r = pid" "us_email r = em" "us_deleted r = None"
    by (simp_all add: r new_user_row_def)
  have "live_emails e (users d @ [r]) = live_emails e (users d) @ [db_lower e em]" by (simp add: live_emails_def f)
  moreover have "list_all (\<lambda>x. us_id x \<le> seq_users d + 1) (users d)"
    using assms(2) by (fastforce simp: accounts_ok_def list_all_iff)
  ultimately show ?thesis using assms(2) u p
    by (simp add: accounts_ok_def d' f user_exists_alt) (auto simp: list_all_iff)
qed

lemma upsert_ok:
  assumes "upserted_user e em nm h d d'" "accounts_ok e d"
  shows "accounts_ok e d'"
proof -
  from assms(1) obtain f where d': "d' = d\<lparr>users := update_where (live_email e em)
    (\<lambda>r. r\<lparr>us_name := nm, us_password_hash := Some h, us_updated := f r\<rparr>) (users d)\<rparr>" (is "_ = d\<lparr>users := ?us\<rparr>")
    by (auto simp: upserted_user_def)
  have m: "map us_id ?us = map us_id (users d)" "map us_public ?us = map us_public (users d)"
    by (simp_all add: map_update_where)
  have "us_id ` set ?us = us_id ` set (users d)" by (metis m(1) list.set_map)
  moreover have "list_all (\<lambda>r. us_id r \<le> n) ?us = list_all (\<lambda>r. us_id r \<le> n) (users d)" for n
    using list.pred_map [of "\<lambda>i. i \<le> n" us_id ?us] list.pred_map [of "\<lambda>i. i \<le> n" us_id "users d"] m(1) by (simp add: comp_def)
  ultimately show ?thesis using assms(2) m by (simp add: accounts_ok_def d' user_exists_alt live_emails_update)
qed

lemma open_session_ok:
  assumes "added_session e uid h expiry r d d'" "accounts_ok e d"
  shows "accounts_ok e d'"
proof -
  have u: "seq_sessions d + 1 \<notin> se_id ` set (sessions d)"
    using assms new_id_fresh [of se_id "seq_sessions d" "sessions d"] by (auto simp: accounts_ok_def)
  from assms(1) have f: "se_id r = seq_sessions d + 1" "se_token_hash r = h" "se_user r = uid" "user_exists d uid"
    "h \<notin> se_token_hash ` set (sessions d)" and d': "d' = d\<lparr>sessions := sessions d @ [r], seq_sessions := seq_sessions d + 1\<rparr>"
    by (auto simp: added_session_def new_session_row_def list_ex_iff)
  moreover have "list_all (\<lambda>x. se_id x \<le> seq_sessions d + 1) (sessions d)"
    using assms(2) by (fastforce simp: accounts_ok_def list_all_iff)
  ultimately show ?thesis using assms(2) u by (simp add: accounts_ok_def user_exists_alt)
qed

lemma revoke_ok:
  assumes "accounts_ok e d"
  shows "accounts_ok e (d\<lparr>sessions := update_where p (\<lambda>r. r\<lparr>se_revoked := t\<rparr>) (sessions d)\<rparr>)"
proof -
  let ?ss = "update_where p (\<lambda>r. r\<lparr>se_revoked := t\<rparr>) (sessions d)"
  have "map se_id ?ss = map se_id (sessions d)" "map se_token_hash ?ss = map se_token_hash (sessions d)"
    by (simp_all add: map_update_where)
  moreover have "list_all P ?ss = list_all P (sessions d)" if "\<And>r x. P (r\<lparr>se_revoked := x\<rparr>) = P r" for P
    using that by (rule list_update_where)
  ultimately show ?thesis using assms by (simp add: accounts_ok_def user_exists_alt)
qed

lemma table_step_ok: "table_step e d d' \<Longrightarrow> accounts_ok e d \<Longrightarrow> accounts_ok e d'"
proof (induction rule: table_step.induct)
  case (elsewhere d' d)
  then show ?case by (simp add: accounts_ok_def user_exists_def)
qed (erule (1) add_user_ok | erule (1) upsert_ok | erule (1) open_session_ok | simp add: revoke_ok)+

lemma table_run_ok: "table_run e d d' \<Longrightarrow> accounts_ok e d \<Longrightarrow> accounts_ok e d'"
  by (induction rule: table_run.induct) (auto intro: table_step_ok)

text \<open>A token hash in the table whose sessions are all revoked; it never opens a session again.\<close>

definition revoked :: "string \<Rightarrow> db \<Rightarrow> bool" where
  "revoked h d \<longleftrightarrow> list_ex (\<lambda>r. se_token_hash r = h) (sessions d) \<and>
     list_all (\<lambda>r. se_token_hash r = h \<longrightarrow> se_revoked r \<noteq> None) (sessions d)"

lemma revoked_after: 
  assumes "list_ex (\<lambda>r. se_token_hash r = h) (sessions d)"
  shows "revoked h (d\<lparr>sessions := update_where (\<lambda>r. se_token_hash r = h \<and> se_revoked r = None)
      (\<lambda>r. r\<lparr>se_revoked := Some t\<rparr>) (sessions d)\<rparr>)"
proof -
  have "list_all (\<lambda>r. se_token_hash r = h \<longrightarrow> se_revoked r \<noteq> None) (update_where (\<lambda>r. se_token_hash r = h \<and> se_revoked r = None)
      (\<lambda>r. r\<lparr>se_revoked := Some t\<rparr>) rs)" for rs by (induction rs) auto
  then show ?thesis using assms by (simp add: revoked_def list_update_where)
qed

lemma revoked_step: "table_step e d d' \<Longrightarrow> revoked h d \<Longrightarrow> revoked h d'"
proof (induction rule: table_step.induct)
  case (open_session uid h' expiry r d d')
  then have "h' \<noteq> h" "se_token_hash r = h'" "sessions d' = sessions d @ [r]"
    by (auto simp: added_session_def revoked_def new_session_row_def list_ex_iff)
  then show ?case using open_session.prems by (auto simp: revoked_def)
next
  case (revoke_session d' h' t d)
  have "list_all P rs \<Longrightarrow> (\<And>r t. P r \<Longrightarrow> P (r\<lparr>se_revoked := Some t\<rparr>)) \<Longrightarrow> list_all P (update_where q (\<lambda>r. r\<lparr>se_revoked := Some t\<rparr>) rs)"
    for P q t and rs :: "session_row list" by (induction rs) auto
  with revoke_session show ?case by (simp add: revoked_def list_update_where)
qed (auto simp: revoked_def added_user_def upserted_user_def)

lemma revoked_run: "table_run e d d' \<Longrightarrow> revoked h d \<Longrightarrow> revoked h d'"
  by (induction rule: table_run.induct) (auto intro: revoked_step)

lemma revoked_closed: "revoked h d \<Longrightarrow> first_row (live_session h t) (sessions d) = None"
  by (auto simp: revoked_def first_row_None_iff live_session_def list_all_iff)

text \<open>A session opened stays in the table, revoked or not.\<close>

lemma session_stays_step:
  "table_step e d d' \<Longrightarrow> r \<in> set (sessions d) \<Longrightarrow> r \<in> set (sessions d') \<or> (\<exists>t. r\<lparr>se_revoked := Some t\<rparr> \<in> set (sessions d'))"
proof (induction rule: table_step.induct)
  case (revoke_session d' h t d)
  show ?case
  proof (cases "se_token_hash r = h \<and> se_revoked r = None")
    case True
    with revoke_session have "r\<lparr>se_revoked := Some t\<rparr> \<in> set (sessions d')" by (simp add: set_update_where)
    then show ?thesis by blast
  next
    case False
    with revoke_session have "r \<in> set (sessions d')" by (simp add: set_update_where)
    then show ?thesis ..
  qed
qed (auto simp: added_user_def upserted_user_def added_session_def)

lemma session_stays:
  assumes "table_run e d d'" "r \<in> set (sessions d)" "se_revoked r = None"
  shows "r \<in> set (sessions d') \<or> (\<exists>t. r\<lparr>se_revoked := Some t\<rparr> \<in> set (sessions d'))"
  using assms
proof (induction rule: table_run.induct)
  case (more d d1 d2)
  then show ?case using session_stays_step [OF more.hyps(2)] by fastforce
qed simp

lemma not_revoked_session:
  assumes "accounts_ok e d" "r\<lparr>se_revoked := Some t\<rparr> \<in> set (sessions d)"
  shows "revoked (se_token_hash r) d"
proof -
  have "x = r\<lparr>se_revoked := Some t\<rparr>" if "x \<in> set (sessions d)" "se_token_hash x = se_token_hash r" for x
    using that assms by (auto simp: accounts_ok_def dest: distinct_map_inD)
  then have "\<forall>x \<in> set (sessions d). se_token_hash x = se_token_hash r \<longrightarrow> se_revoked x \<noteq> None"
    by (metis option.distinct(1) session_row.select_convs(7) session_row.surjective session_row.update_convs(7))
  moreover have "\<exists>x \<in> set (sessions d). se_token_hash x = se_token_hash r" by (rule bexI [OF _ assms(2)]) simp
  ultimately show ?thesis by (simp add: revoked_def list_all_iff list_ex_iff)
qed

section \<open>The operations of the service\<close>

text \<open>A run of account operations, with anything in between that leaves their tables alone.\<close>

inductive account_run :: "iam_service \<Rightarrow> env \<Rightarrow> world \<Rightarrow> world \<Rightarrow> bool" for s e where
  start: "account_run s e w w"
| register: "account_run s e w w1 \<Longrightarrow> Register s ri e w1 = (ares, w2) \<Longrightarrow> account_run s e w w2"
| login: "account_run s e w w1 \<Longrightarrow> Login s li e w1 = (ares, w2) \<Longrightarrow> account_run s e w w2"
| logout: "account_run s e w w1 \<Longrightarrow> Logout s hash e w1 = (ures, w2) \<Longrightarrow> account_run s e w w2"
| authenticate: "account_run s e w w1 \<Longrightarrow> Service_Authenticate s c token e w1 = (cres, w2) \<Longrightarrow> account_run s e w w2"
| me: "account_run s e w w1 \<Longrightarrow> Me s uid e w1 = (mres, w2) \<Longrightarrow> account_run s e w w2"
| seed: "account_run s e w w1 \<Longrightarrow> us_UpsertUser (is_store s) em nm h e w1 = (mres, w2) \<Longrightarrow> account_run s e w w2"
| others: "account_run s e w w1 \<Longrightarrow> users (dbase w2) = users (dbase w1) \<Longrightarrow> sessions (dbase w2) = sessions (dbase w1) \<Longrightarrow>
    seq_users (dbase w2) = seq_users (dbase w1) \<Longrightarrow> seq_sessions (dbase w2) = seq_sessions (dbase w1) \<Longrightarrow> account_run s e w w2"

lemma dbase_HashPassword [simp]: "HashPassword p e w = (res, w') \<Longrightarrow> dbase w' = dbase w"
  by (auto simp: HashPassword_def rand_read_def IDKey_def bind_act_def act_simps Let_def split: option.splits prod.splits if_splits result.splits)

lemma VerifyPassword_pure: "VerifyPassword p h e w = (res, w') \<Longrightarrow> w' = w"
  by (auto simp: VerifyPassword_def IDKey_def bind_act_def act_simps Let_def split: option.splits prod.splits if_splits)

lemma iam_NewService_simps [simp]: "is_store (iam_NewService st tm) = st" "is_tokens (iam_NewService st tm) = tm"
  by (simp_all add: iam_NewService_def)

end
