(* ===== verification/Iam_Guarantees.thy ===== *)
theory Iam_Guarantees
  imports Iam_Tables
begin

text \<open>What the accounts promise, for both stores: proved once over their contract.\<close>

text \<open>The answer to a login or registration: a token with the claims of the user, signed at \<open>now\<close>.\<close>

definition token_claims :: "user \<Rightarrow> time \<Rightarrow> time \<Rightarrow> uuid \<Rightarrow> jwt_claims" where
  "token_claims u now expires jti =
     \<lparr>jc_jti = jti, jc_sub = u_public u, jc_uid = u_id u, jc_email = u_email u, jc_iat = unix now, jc_exp = unix expires\<rparr>"

definition issued :: "env \<Rightarrow> token_manager \<Rightarrow> user \<Rightarrow> time \<Rightarrow> auth_response \<Rightarrow> bool" where
  "issued e tm u now a \<longleftrightarrow> ar_user a = u\<lparr>u_password_hash := []\<rparr> \<and> ar_expires a = now + tm_ttl tm \<and>
     (\<exists>n. ar_token a = sign_token e (tm_secret tm) (token_claims u now (ar_expires a) (new_uuid_at e n)))"

text \<open>A user a token stands for: signed claims, not yet expired, and a live session in the table.\<close>

definition user_of_claims :: "jwt_claims \<Rightarrow> uuid \<Rightarrow> user_context" where
  "user_of_claims c pub =
     \<lparr>uc_id = jc_uid c, uc_public = pub, uc_email = jc_email c, uc_jti = jc_jti c, uc_expires = jc_exp c * second\<rparr>"

definition vouched :: "(env \<Rightarrow> world \<Rightarrow> time) \<Rightarrow> token_manager \<Rightarrow> env \<Rightarrow> world \<Rightarrow> string \<Rightarrow> user_context \<Rightarrow> bool" where
  "vouched now_at tm e w token u \<longleftrightarrow>
     (\<exists>c pub. signed_claims e (tm_secret tm) token = Some c \<and> signed_by e (tm_secret tm) token c \<and> unix (clock e (ticks w)) \<le> jc_exp c \<and>
        uuid_parse e (jc_sub c) = Some pub \<and> u = user_of_claims c pub) \<and>
     list_ex (live_session (HashToken e token) (now_at e (tick w))) (sessions (dbase w))"

section \<open>Under the contract of the stores\<close>

context account_contract
begin

text \<open>What the operations do to the tables.\<close>

lemma create_user_run: "us_CreateUser store em nm h e w = (res, w') \<Longrightarrow> table_run e (dbase w) (dbase w')"
  by (drule create_user) (auto intro: run_step table_step.add_user table_run.stay)

lemma create_session_run: "us_CreateSession store uid h expiry e w = (res, w') \<Longrightarrow> table_run e (dbase w) (dbase w')"
  by (drule create_session) (auto intro: run_step table_step.open_session table_run.stay)

lemma upsert_run: "us_UpsertUser store em nm h e w = (res, w') \<Longrightarrow> table_run e (dbase w) (dbase w')"
  by (drule upsert_user) (auto intro: run_step table_step.add_user table_step.upsert table_run.stay)

lemma revoke_run: "us_RevokeSession store h e w = (res, w') \<Longrightarrow> table_run e (dbase w) (dbase w')"
  by (drule revoke_session) (auto intro: run_step table_step.revoke_session table_run.stay)

lemma reads_run:
  "us_GetUserByEmail store em e w = (res, w') \<Longrightarrow> table_run e (dbase w) (dbase w')"
  "us_GetUserByID store i e w = (res, w') \<Longrightarrow> table_run e (dbase w) (dbase w')"
  "us_GetSessionByTokenHash store h e w = (sres, w') \<Longrightarrow> table_run e (dbase w) (dbase w')"
    apply (drule by_email, simp add: table_run.stay)
   apply (drule by_id, simp add: table_run.stay)
  apply (drule get_session, simp add: table_run.stay)
  done

lemma bind_run:
  assumes "bind_act m k e w = (res, w')"
    and "\<And>r w1. m e w = (r, w1) \<Longrightarrow> table_run e (dbase w) (dbase w1)"
    and "\<And>a w1. k a e w1 = (res, w') \<Longrightarrow> table_run e (dbase w1) (dbase w')"
  shows "table_run e (dbase w) (dbase w')"
proof -
  obtain r w1 where m: "m e w = (r, w1)" by fastforce
  then show ?thesis using assms by (cases r) (auto simp: bind_act_def intro: run_trans)
qed

lemma catch_run:
  assumes "catch m k e w = (res, w')"
    and "\<And>r w1. m e w = (r, w1) \<Longrightarrow> table_run e (dbase w) (dbase w1)"
    and "\<And>a w1. k a e w1 = (res, w') \<Longrightarrow> table_run e (dbase w1) (dbase w')"
  shows "table_run e (dbase w) (dbase w')"
proof -
  obtain r w1 where m: "m e w = (r, w1)" by fastforce
  then show ?thesis using assms by (cases r) (auto simp: catch_def intro: run_trans)
qed

lemma map_error_run:
  assumes "map_error f m e w = (res, w')" "\<And>r w1. m e w = (r, w1) \<Longrightarrow> table_run e (dbase w) (dbase w1)"
  shows "table_run e (dbase w) (dbase w')"
  using assms by (auto simp: map_error_def split: prod.splits result.splits)

lemma pure_run:
  "GenerateAccessToken tm uid pid em e w = (g, w') \<Longrightarrow> table_run e (dbase w) (dbase w')"
  "HashPassword p e w = (h, w') \<Longrightarrow> table_run e (dbase w) (dbase w')"
  "VerifyPassword p enc e w = (v, w') \<Longrightarrow> table_run e (dbase w) (dbase w')"
  "VerifyAccessToken tm tok e w = (c, w') \<Longrightarrow> table_run e (dbase w) (dbase w')"
  "throw err e w = (x, w') \<Longrightarrow> table_run e (dbase w) (dbase w')"
  "ret y e w = (x, w') \<Longrightarrow> table_run e (dbase w) (dbase w')"
  by (auto simp: GenerateAccessToken_def VerifyAccessToken_def act_simps bind_act_def Let_def
      dest: VerifyPassword_pure intro: table_run.stay split: option.splits if_splits)

lemmas act_runs = pure_run reads_run create_user_run create_session_run upsert_run revoke_run

lemma issueToken_run: "issueToken (iam_NewService store tm) u e w = (res, w') \<Longrightarrow> table_run e (dbase w) (dbase w')"
  unfolding issueToken_def iam_NewService_simps
  by (erule bind_run, erule map_error_run, erule act_runs)
    (auto elim!: bind_run map_error_run act_runs)

lemma Register_run: "Register (iam_NewService store tm) i e w = (res, w') \<Longrightarrow> table_run e (dbase w) (dbase w')"
  unfolding Register_def iam_NewService_simps Let_def
  by (auto elim!: catch_run bind_run map_error_run act_runs issueToken_run split: list.splits sum.splits if_splits)

lemma Login_run: "Login (iam_NewService store tm) i e w = (res, w') \<Longrightarrow> table_run e (dbase w) (dbase w')"
  unfolding Login_def iam_NewService_simps Let_def
  by (auto elim!: catch_run bind_run map_error_run act_runs issueToken_run split: sum.splits if_splits)

lemma Authenticate_run: "Service_Authenticate (iam_NewService store tm) c tok e w = (res, w') \<Longrightarrow> table_run e (dbase w) (dbase w')"
  unfolding Service_Authenticate_def iam_NewService_simps Let_def
  by (auto elim!: bind_run act_runs split: option.splits)

lemma Me_run: "Me (iam_NewService store tm) uid e w = (res, w') \<Longrightarrow> table_run e (dbase w) (dbase w')"
  unfolding Me_def by (auto elim!: map_error_run act_runs)

lemma Logout_run: "Logout (iam_NewService store tm) h e w = (res, w') \<Longrightarrow> table_run e (dbase w) (dbase w')"
  unfolding Logout_def by (auto intro: act_runs)

lemma account_run_refines:
  "account_run (iam_NewService store tm) e w w' \<Longrightarrow> table_run e (dbase w) (dbase w')"
proof (induction rule: account_run.induct)
  case (others w w1 w2)
  then show ?case by (blast intro: table_run.more table_step.elsewhere)
qed (auto intro: table_run.stay run_trans dest: Register_run Login_run Authenticate_run Me_run Logout_run upsert_run)

text \<open>What the operations return.\<close>

lemma issueToken_DoneD:
  assumes "issueToken (iam_NewService store tm) u e w = (Done a, w')"
  shows "issued e tm u (clock e (ticks w)) a \<and>
    (\<exists>r. added_session e (u_id u) (HashToken e (ar_token a)) (keep (ar_expires a)) r (dbase w) (dbase w') \<and> opens e r)"
proof -
  from assms obtain x w1 where g: "GenerateAccessToken tm (u_id u) (u_public u) (u_email u) e w = (Done x, w1)"
    and k: "(\<lambda>(token, jti, expiresAt). \<lambda>e. bind_act (map_error (iamWrap ''Failed to create session'')
       (us_CreateSession store (u_id u) (HashToken e token) expiresAt)) (\<lambda>_.
     ret \<lparr>ar_token = token, ar_expires = expiresAt, ar_user = u\<lparr>u_password_hash := []\<rparr>\<rparr>) e) x e w1 = (Done a, w')"
    unfolding issueToken_def iam_NewService_simps by (auto elim: bind_act_DoneD)
  obtain token jti expiresAt where x: "x = (token, jti, expiresAt)" by (cases x)
  from k obtain s w2 where c: "us_CreateSession store (u_id u) (HashToken e token) expiresAt e w1 = (Done s, w2)"
    and a: "a = \<lparr>ar_token = token, ar_expires = expiresAt, ar_user = u\<lparr>u_password_hash := []\<rparr>\<rparr>" "w' = w2"
    by (auto simp: x act_simps elim!: bind_act_DoneD)
  from GenerateAccessToken_DoneD [OF g [unfolded x]] create_session [OF c] show ?thesis by (auto simp: issued_def token_claims_def a)
qed

lemma Login_DoneD:
  assumes "Login (iam_NewService store tm) i e w = (Done a, w')"
  shows "\<exists>r u w1. first_row (live_email e (li_email (Login_Normalize e i))) (users (dbase w)) = Some r \<and> us_active r \<and>
    reads_user e r u \<and>
    VerifyPassword (li_password i) (case us_password_hash r of Some h \<Rightarrow> h | None \<Rightarrow> []) e w1 = (Done True, w1) \<and>
    dbase w1 = dbase w \<and> issueToken (iam_NewService store tm) u e w1 = (Done a, w')"
proof -
  let ?em = "li_email (Login_Normalize e i)"
  obtain res w1 where g: "us_GetUserByEmail store ?em e w = (res, w1)" by fastforce
  from assms g obtain u where u: "res = Done u" "u_active u"
    and v: "bind_act (map_error (\<lambda>err. service_error ''INTERNAL_ERROR'' ''Failed to verify password''
             (Some (Errorf ''verify password'' err))) (VerifyPassword (li_password i) (u_password_hash u)))
             (\<lambda>ok. if \<not> ok then throw invalid_credentials else issueToken (iam_NewService store tm) u) e w1 = (Done a, w')"
    by (cases res) (auto simp: Login_def Let_def catch_def act_simps Login_Normalize_def split: if_splits)
  from v obtain w2 where p: "VerifyPassword (li_password i) (u_password_hash u) e w1 = (Done True, w2)"
    and t: "issueToken (iam_NewService store tm) u e w2 = (Done a, w')"
    by (auto simp: act_simps elim!: bind_act_DoneD split: if_splits)
  moreover have "w2 = w1" by (rule VerifyPassword_pure [OF p])
  ultimately show ?thesis using by_email [OF g] u by (fastforce simp: reads_user_def)
qed

lemma Authenticate_cases:
  assumes "Service_Authenticate (iam_NewService store tm) c tok e w = (res, w')"
  shows "dbase w' = dbase w \<and> tx_now w' = tx_now w \<and> (\<forall>p. res \<noteq> Panics p) \<and>
    (\<forall>u. res = Done u \<longrightarrow> (\<exists>v. u = Some v \<and> vouched now_at tm e w tok v))"
proof (cases "signed_claims e (tm_secret tm) tok")
  case None
  with assms show ?thesis by (auto simp: Service_Authenticate_def VerifyAccessToken_def bind_act_def act_simps)
next
  case (Some cl)
  show ?thesis
  proof (cases "unix (clock e (ticks w)) \<le> jc_exp cl \<and> uuid_parse e (jc_sub cl) \<noteq> None")
    case False
    with assms Some show ?thesis
      by (auto simp: Service_Authenticate_def VerifyAccessToken_def bind_act_def act_simps split: option.splits if_splits)
  next
    case True
    then obtain pub where pub: "uuid_parse e (jc_sub cl) = Some pub" by blast
    obtain sres w1 where g: "us_GetSessionByTokenHash store (HashToken e tok) e (tick w) = (sres, w1)" by fastforce
    from assms Some True pub g have "res = (case sres of Done x \<Rightarrow> Done (Some (user_of_claims cl pub)) | Fail_with err \<Rightarrow> Fail_with err | Panics p \<Rightarrow> Panics p)"
      "w' = w1"
      by (auto simp: Service_Authenticate_def VerifyAccessToken_def bind_act_def act_simps user_of_claims_def split: result.splits)
    with get_session [OF g] Some True pub signed_claims_signed [OF Some] show ?thesis
      by (auto simp: vouched_def list_ex_iff split: result.splits dest!: first_row_SomeD)
  qed
qed

end

sublocale account_contract < service: token_authenticator "Service_Authenticate (iam_NewService store tm)" "vouched now_at tm" for tm
  by unfold_locales (auto dest: Authenticate_cases)

context account_contract
begin

text \<open>A session row stays, but for its revocation.\<close>

lemma token_works:
  assumes t: "issueToken (iam_NewService store tm) u e w = (Done a, w1)" and run: "table_run e (dbase w1) (dbase w2)"
    and ok: "accounts_ok e (dbase w)" and out: "\<not> revoked (HashToken e (ar_token a)) (dbase w2)"
    and calm: "\<forall>n. failure e n = None"
    and s: "\<forall>j. sendable (token_claims u (clock e (ticks w)) (ar_expires a) (new_uuid_at e j))"
    and pub: "uuid_parse e (u_public u) = Some pub"
    and time: "unix (clock e (ticks w2)) \<le> unix (ar_expires a)" "now_at e (tick w2) < keep (ar_expires a)"
  shows "\<exists>jti w3. Service_Authenticate (iam_NewService store tm) c (ar_token a) e w2 =
    (Done (Some (user_of_claims (token_claims u (clock e (ticks w)) (ar_expires a) jti) pub)), w3)"
proof -
  let ?h = "HashToken e (ar_token a)"
  from issueToken_DoneD [OF t] obtain r n where r: "added_session e (u_id u) ?h (keep (ar_expires a)) r (dbase w) (dbase w1)" "opens e r"
    and tok: "ar_token a = sign_token e (tm_secret tm) (token_claims u (clock e (ticks w)) (ar_expires a) (new_uuid_at e n))"
    by (auto simp: issued_def)
  let ?c = "token_claims u (clock e (ticks w)) (ar_expires a) (new_uuid_at e n)"
  have "r \<in> set (sessions (dbase w1))" and f: "se_token_hash r = ?h" "se_revoked r = None" "se_expires r = keep (ar_expires a)"
    using r(1) by (auto simp: added_session_def new_session_row_def)
  have ok2: "accounts_ok e (dbase w2)"
    using table_run_ok [OF run] table_step_ok [OF table_step.open_session [OF r(1)] ok] by blast
  have in2: "r \<in> set (sessions (dbase w2))"
    using session_stays [OF run \<open>r \<in> _\<close> f(2)] out ok2 f(1) not_revoked_session by metis
  have "first_row (live_session ?h (now_at e (tick w2))) (sessions (dbase w2)) = Some r"
  proof (rule first_row_unique [OF in2])
    show "live_session ?h (now_at e (tick w2)) r" using f time(2) by (simp add: live_session_def)
    show "x = r" if "x \<in> set (sessions (dbase w2))" "live_session ?h (now_at e (tick w2)) x" for x
      using that in2 ok2 f(1) by (auto simp: accounts_ok_def live_session_def dest: distinct_map_inD)
  qed
  from got_session [of ?h e "tick w2" r] this calm r(2) obtain x w3
    where g: "us_GetSessionByTokenHash store ?h e (tick w2) = (Done x, w3)" by auto
  have "signed_claims e (tm_secret tm) (ar_token a) = Some ?c" using s tok signed_claims_sign by metis
  then have "VerifyAccessToken tm (ar_token a) e w2 = (Done ?c, tick w2)"
    using time(1) by (simp add: VerifyAccessToken_def bind_act_def act_simps token_claims_def)
  then have "Service_Authenticate (iam_NewService store tm) c (ar_token a) e w2 = (Done (Some (user_of_claims ?c pub)), w3)"
    using g pub by (simp add: Service_Authenticate_def bind_act_def act_simps user_of_claims_def token_claims_def)
  then show ?thesis by blast
qed

lemma Register_DoneD:
  assumes "Register (iam_NewService store tm) i e w = (Done a, w')"
  shows "\<exists>enc h h' r u w1. Register_Validate e (Register_Normalize e i) = [] \<and> HashPassword (ri_password i) e h = (Done enc, h') \<and>
    added_user e (ri_email (Register_Normalize e i)) (ri_name (Register_Normalize e i)) enc r (dbase w) (dbase w1) \<and>
    reads_user e r u \<and> gets e (ri_email (Register_Normalize e i)) r \<and> issueToken (iam_NewService store tm) u e w1 = (Done a, w')"
proof -
  let ?n = "Register_Normalize e i"
  let ?hash = "map_error (\<lambda>err. service_error ''INTERNAL_ERROR'' ''Failed to secure password''
      (Some (Errorf ''hash password'' err))) (HashPassword (ri_password ?n))"
  obtain res w1 where g: "us_GetUserByEmail store (ri_email ?n) e w = (res, w1)" by fastforce
  from assms g have v: "Register_Validate e ?n = []"
    and b: "bind_act ?hash (\<lambda>hash. bind_act (map_error (iamWrap ''Failed to create user'')
          (us_CreateUser store (ri_email ?n) (ri_name ?n) hash)) (issueToken (iam_NewService store tm))) e w1 = (Done a, w')"
    by (auto simp: Register_def Let_def catch_def act_simps split: list.splits result.splits if_splits)
  from b obtain enc h' where h: "HashPassword (ri_password ?n) e w1 = (Done enc, h')"
    and c: "bind_act (map_error (iamWrap ''Failed to create user'') (us_CreateUser store (ri_email ?n) (ri_name ?n) enc))
          (issueToken (iam_NewService store tm)) e h' = (Done a, w')"
    by (auto elim: bind_act_DoneD)
  from c obtain u w2 where u: "us_CreateUser store (ri_email ?n) (ri_name ?n) enc e h' = (Done u, w2)"
    and t: "issueToken (iam_NewService store tm) u e w2 = (Done a, w')"
    by (auto elim: bind_act_DoneD)
  have "dbase h' = dbase w" using by_email [OF g] dbase_HashPassword [OF h] by simp
  moreover have "ri_password ?n = ri_password i" by (simp add: Register_Normalize_def)
  ultimately show ?thesis using create_user [OF u] v h t by (metis (no_types, lifting))
qed

text \<open>Looking an account up by its e-mail, and the password put to it.\<close>

lemma Login_cases:
  assumes calm: "\<forall>n. failure e n = None" and ne: "li_email (Login_Normalize e i) \<noteq> []" "li_password i \<noteq> []"
    and row: "first_row (live_email e (li_email (Login_Normalize e i))) (users (dbase w)) = Some r"
    and gets: "gets e (li_email (Login_Normalize e i)) r"
    and enc: "us_password_hash r = Some enc" and ver: "\<forall>w. VerifyPassword (li_password i) enc e w = (Done ok, w)"
  shows "\<exists>u w1. reads_user e r u \<and> dbase w1 = dbase w \<and> ticks w1 = Suc (ticks w) \<and> Login (iam_NewService store tm) i e w =
    (if us_active r \<and> ok then issueToken (iam_NewService store tm) u e w1 else (Fail_with invalid_credentials, w1))"
proof -
  from got_user [OF row calm gets] obtain u w1 where g: "us_GetUserByEmail store (li_email (Login_Normalize e i)) e w = (Done u, w1)"
    by blast
  from by_email [OF g] row enc have u: "reads_user e r u" "u_password_hash u = enc" "dbase w1 = dbase w" by auto
  have "u_active u = us_active r" "li_password (Login_Normalize e i) = li_password i"
    using u(1) by (simp_all add: reads_user_def Login_Normalize_def)
  then have "Login (iam_NewService store tm) i e w =
    (if us_active r \<and> ok then issueToken (iam_NewService store tm) u e w1 else (Fail_with invalid_credentials, w1))"
    using ne g ver u(2) by (simp add: Login_def Let_def catch_def act_simps bind_act_def map_error_def)
  with u one_lookup [OF g] show ?thesis by blast
qed

text \<open>A token is issued when nothing fails, the user is there and the identifiers to come are fresh.\<close>

lemma issueToken_works:
  assumes calm: "\<forall>n. failure e n = None" and user: "user_exists (dbase w) (u_id u)"
    and fits: "\<forall>t. \<not> unfit e [(64, sha256_hex e t)]"
    and ids: "\<forall>n. ticks w \<le> n \<longrightarrow> uuid_parse e (new_uuid_at e n) \<noteq> None \<and>
      \<not> list_ex (\<lambda>x. se_public x = new_uuid_at e n) (sessions (dbase w))"
    and fresh: "\<forall>r tok c n. r \<in> set (sessions (dbase w)) \<longrightarrow> se_token_hash r = HashToken e tok \<longrightarrow>
      signed_claims e (tm_secret tm) tok = Some c \<longrightarrow> ticks w \<le> n \<longrightarrow> jc_jti c \<noteq> new_uuid_at e n"
    and claims: "sendable (token_claims u (clock e (ticks w)) (clock e (ticks w) + tm_ttl tm) (new_uuid_at e (Suc (ticks w))))"
  shows "\<exists>a w'. issueToken (iam_NewService store tm) u e w = (Done a, w')"
proof -
  let ?c = "token_claims u (clock e (ticks w)) (clock e (ticks w) + tm_ttl tm) (new_uuid_at e (Suc (ticks w)))"
  let ?tok = "sign_token e (tm_secret tm) ?c" and ?w = "tick (tick w)"
  have g: "GenerateAccessToken tm (u_id u) (u_public u) (u_email u) e w =
      (Done (?tok, new_uuid_at e (Suc (ticks w)), clock e (ticks w) + tm_ttl tm), ?w)"
    by (simp add: GenerateAccessToken_def bind_act_def act_simps Let_def token_claims_def)
  have "jc_jti ?c = new_uuid_at e (Suc (ticks w))" by (simp add: token_claims_def)
  then have "\<not> list_ex (\<lambda>x. se_token_hash x = HashToken e ?tok) (sessions (dbase ?w))"
    using fresh signed_claims_sign [OF claims] by (auto simp: list_ex_iff)
  moreover have "\<not> unfit e [(64, HashToken e ?tok)]" using fits by (simp add: HashToken_def)
  moreover have "\<forall>n. ticks ?w \<le> n \<longrightarrow> uuid_parse e (new_uuid_at e n) \<noteq> None \<and>
      \<not> list_ex (\<lambda>x. se_public x = new_uuid_at e n) (sessions (dbase ?w))" using ids by simp
  moreover have "user_exists (dbase ?w) (u_id u)" using user by simp
  ultimately obtain x w' where "us_CreateSession store (u_id u) (HashToken e ?tok) (clock e (ticks w) + tm_ttl tm) e ?w = (Done x, w')"
    using opened_session [OF calm, of ?w "u_id u" "HashToken e ?tok" "clock e (ticks w) + tm_ttl tm"] by blast
  with g show ?thesis by (simp add: issueToken_def bind_act_def map_error_def act_simps)
qed

lemma Login_unknown:
  assumes "\<forall>n. failure e n = None" "li_email (Login_Normalize e i) \<noteq> []" "li_password i \<noteq> []"
    and "first_row (live_email e (li_email (Login_Normalize e i))) (users (dbase w)) = None"
    and "\<not> unreadable e (li_email (Login_Normalize e i))"
  shows "\<exists>w1. dbase w1 = dbase w \<and> Login (iam_NewService store tm) i e w = (Fail_with invalid_credentials, w1)"
proof -
  obtain res w1 where g: "us_GetUserByEmail store (li_email (Login_Normalize e i)) e w = (res, w1)" by fastforce
  from no_email [OF g assms(4,1,5)] obtain err where "res = Fail_with err" "errors_is err ''iam: not found''" by blast
  moreover have "li_password (Login_Normalize e i) = li_password i" by (simp add: Login_Normalize_def)
  ultimately have "Login (iam_NewService store tm) i e w = (Fail_with invalid_credentials, w1)"
    using assms(2,3) g by (simp add: Login_def Let_def catch_def act_simps)
  with by_email [OF g] show ?thesis by blast
qed

lemma register_login:
  assumes r: "Register (iam_NewService store tm) i e w = (Done a, w1)"
    and u: "users (dbase w2) = users (dbase w1)" and argon: "argon2_sized e" and calm: "\<forall>n. failure e n = None"
  shows "\<exists>u w3. Login (iam_NewService store tm) \<lparr>li_email = ri_email i, li_password = ri_password i\<rparr> e w2 =
      issueToken (iam_NewService store tm) u e w3 \<and> dbase w3 = dbase w2 \<and> u_id u = u_id (ar_user a) \<and>
      u_email u = ri_email (Register_Normalize e i) \<and> u_name u = ri_name (Register_Normalize e i) \<and> u_active u \<and>
      ticks w3 = Suc (ticks w2) \<and> user_exists (dbase w2) (u_id u) \<and>
      (\<exists>r \<in> set (users (dbase w2)). u_public u = us_public r \<or> uuid_parse e (us_public r) = Some (u_public u))"
proof -
  let ?n = "Register_Normalize e i" and ?l = "\<lparr>li_email = ri_email i, li_password = ri_password i\<rparr>"
  from Register_DoneD [OF r] obtain enc h h' r v wc where v: "Register_Validate e ?n = []"
    and h: "HashPassword (ri_password i) e h = (Done enc, h')" and add: "added_user e (ri_email ?n) (ri_name ?n) enc r (dbase w) (dbase wc)"
    and rv: "reads_user e r v" and g: "gets e (ri_email ?n) r" and t: "issueToken (iam_NewService store tm) v e wc = (Done a, w1)" by blast
  from issueToken_DoneD [OF t] have i: "users (dbase w1) = users (dbase wc)" "u_id (ar_user a) = u_id v"
    by (auto simp: added_session_def issued_def)
  from add have row: "first_row (live_email e (ri_email ?n)) (users (dbase w2)) = Some r" "us_active r" "us_password_hash r = Some enc"
    "us_name r = ri_name ?n" "us_email r = ri_email ?n"
    by (auto simp: u i added_user_def new_user_row_def first_row_append live_email_def list_ex_iff split: option.splits
        dest!: first_row_SomeD)
  have l: "li_email (Login_Normalize e ?l) = ri_email ?n" by (simp add: Login_Normalize_def Register_Normalize_def)
  have ne: "ri_email ?n \<noteq> []" "ri_password i \<noteq> []" using v by (auto simp: Register_Validate_def Register_Normalize_def)
  from hash_verifies [OF argon h] have ver: "\<forall>w. VerifyPassword (ri_password i) enc e w = (Done True, w)" by fastforce
  from Login_cases [where i = ?l and w = w2 and r = r and enc = enc and ok = True and tm = tm, OF calm] row ne l g ver
  obtain u w3 where "reads_user e r u" "dbase w3 = dbase w2" "ticks w3 = Suc (ticks w2)"
    "Login (iam_NewService store tm) ?l e w2 = issueToken (iam_NewService store tm) u e w3" by auto
  moreover have "r \<in> set (users (dbase w2))" using first_row_SomeD [OF row(1)] by simp
  ultimately show ?thesis using rv row i by (fastforce simp: reads_user_def user_exists_def list_ex_iff)
qed

text \<open>Whoever has registered gets a token when he logs in.\<close>

lemma register_then_login:
  assumes r: "Register (iam_NewService store tm) i e w = (Done a, w1)"
    and u: "users (dbase w2) = users (dbase w1)" and argon: "argon2_sized e" and calm: "\<forall>n. failure e n = None"
    and fits: "\<forall>t. \<not> unfit e [(64, sha256_hex e t)]"
    and ids: "\<forall>n. ticks w2 \<le> n \<longrightarrow> uuid_parse e (new_uuid_at e n) \<noteq> None \<and> valid_utf8 (new_uuid_at e n) \<and>
      \<not> list_ex (\<lambda>x. se_public x = new_uuid_at e n) (sessions (dbase w2))"
    and fresh: "\<forall>r tok c n. r \<in> set (sessions (dbase w2)) \<longrightarrow> se_token_hash r = HashToken e tok \<longrightarrow>
      signed_claims e (tm_secret tm) tok = Some c \<longrightarrow> ticks w2 \<le> n \<longrightarrow> jc_jti c \<noteq> new_uuid_at e n"
    and utf: "\<forall>r \<in> set (users (dbase w2)). valid_utf8 (us_public r) \<and> (\<forall>p. uuid_parse e (us_public r) = Some p \<longrightarrow> valid_utf8 p)"
      "valid_utf8 (ri_email (Register_Normalize e i))"
    and width: "\<forall>n \<in> {u_id (ar_user a), unix (clock e (Suc (ticks w2))), unix (clock e (Suc (ticks w2)) + tm_ttl tm)}.
      - (2 ^ 63) \<le> n \<and> n < 2 ^ 63"
  shows "\<exists>b w4 s. Login (iam_NewService store tm) \<lparr>li_email = ri_email i, li_password = ri_password i\<rparr> e w2 = (Done b, w4) \<and>
      u_id (ar_user b) = u_id (ar_user a) \<and> u_email (ar_user b) = ri_email (Register_Normalize e i) \<and>
      u_name (ar_user b) = ri_name (Register_Normalize e i) \<and>
      added_session e (u_id (ar_user a)) (HashToken e (ar_token b)) (keep (ar_expires b)) s (dbase w2) (dbase w4)"
proof -
  from register_login [OF r u argon calm] obtain v w3 where
    l: "Login (iam_NewService store tm) \<lparr>li_email = ri_email i, li_password = ri_password i\<rparr> e w2 = issueToken (iam_NewService store tm) v e w3"
    and d: "dbase w3 = dbase w2" "ticks w3 = Suc (ticks w2)"
    and v: "u_id v = u_id (ar_user a)" "u_email v = ri_email (Register_Normalize e i)" "u_name v = ri_name (Register_Normalize e i)"
      "user_exists (dbase w2) (u_id v)"
    and p: "\<exists>r \<in> set (users (dbase w2)). u_public v = us_public r \<or> uuid_parse e (us_public r) = Some (u_public v)"
    by blast
  have "valid_utf8 (u_public v)" using p utf(1) by metis
  moreover have "valid_utf8 (new_uuid_at e (Suc (ticks w3)))" using ids d(2) by simp
  ultimately have "sendable (token_claims v (clock e (ticks w3)) (clock e (ticks w3) + tm_ttl tm) (new_uuid_at e (Suc (ticks w3))))"
    using utf(2) width by (simp add: sendable_def token_claims_def v d(2))
  with issueToken_works [OF calm _ fits, of w3 v tm] v(4) ids fresh d obtain b w4 where
    t: "issueToken (iam_NewService store tm) v e w3 = (Done b, w4)" by auto
  from issueToken_DoneD [OF t] obtain s where "ar_user b = v\<lparr>u_password_hash := []\<rparr>"
    "added_session e (u_id v) (HashToken e (ar_token b)) (keep (ar_expires b)) s (dbase w3) (dbase w4)"
    by (auto simp: issued_def)
  with l t v d show ?thesis by auto
qed

lemma logged_out:
  assumes "Logout (iam_NewService store tm) (HashToken e tok) e w = (Done (), w1)"
    and "list_ex (\<lambda>r. se_token_hash r = HashToken e tok) (sessions (dbase w))"
    and run: "table_run e (dbase w1) (dbase w2)"
    and req: "bearer_token (rq_header r ''Authorization'') = tok"
    and "Authenticate (Service_Authenticate (iam_NewService store tm)) nxt e r h w2 = (rep, w3)"
  shows "rs_status (send h (ops rep)) = 401 \<and> panicked rep = None \<and> dbase w3 = dbase w2"
proof -
  have "revoked (HashToken e tok) (dbase w1)"
    using revoke_session [of "HashToken e tok" e w "Done ()" w1] assms(1,2) revoked_after by (auto simp: Logout_def)
  then have "revoked (HashToken e tok) (dbase w2)" by (rule revoked_run [OF run])
  then have "\<not> vouched now_at tm e w2 tok u" for u
    by (auto simp: vouched_def revoked_def live_session_def list_ex_iff list_all_iff)
  with service.authenticated [OF assms(5)] req show ?thesis by auto
qed

end

end
