(* ===== verification/Account_Guarantees.thy ===== *)
theory Account_Guarantees
  imports Iam_Guarantees
begin

text \<open>The properties of the accounts, for the service over the store of the driver in use.\<close>

section \<open>The service over the store of the driver in use\<close>

definition store_now :: "env \<Rightarrow> world \<Rightarrow> time" where
  "store_now e w = (if driver_of e = DriverSQLite then sqlite_now e w else pg_now e w)"

text \<open>An account with the password \<open>secret\<close>, for the witnesses.\<close>

definition sample_hash :: string where
  "sample_hash = encoded_hash 19 65536 2 2 (replicate 16 CHR ''s'') (''secret'' @ replicate 16 CHR ''s'' @ replicate 10 CHR ''.'')"

definition sample_account :: user_row where
  "sample_account = sample_user\<lparr>us_password_hash := Some sample_hash\<rparr>"

definition sample_accounts :: world where
  "sample_accounts = start_world (sample_db\<lparr>users := [sample_account]\<rparr>)"

definition sample_service :: iam_service where
  "sample_service = iam_NewService (iam_NewStore (calm DriverSQLite)) sample_manager"

lemma sample_accounts_simps [simp]:
  "users (dbase sample_accounts) = [sample_account]" "sessions (dbase sample_accounts) = []" "ticks sample_accounts = 0"
  "us_id sample_account = 1" "us_active sample_account" "us_deleted sample_account = None"
  "us_public sample_account = ''u-1''" "us_email sample_account = ''ann@example.org''" "us_password_hash sample_account = Some sample_hash"
  by (simp_all add: sample_accounts_def sample_account_def sample_user_def)

lemma sample_service_sqlite: "sample_service = iam_NewService sqliteUserStore sample_manager"
  by (simp add: sample_service_def iam_NewStore_def)

lemma sample_accounts_ok: "accounts_ok (calm DriverSQLite) (dbase sample_accounts)"
  by (simp add: accounts_ok_def live_emails_def) (simp add: sample_accounts_def sample_db_def empty_db_def)

lemma sample_verify: "VerifyPassword p sample_hash (calm DriverSQLite) w =
   (Done (''secret'' @ replicate 16 CHR ''s'' @ replicate 10 CHR ''.'' = take 32 (p @ replicate 16 CHR ''s'' @ replicate 32 CHR ''.'')), w)"
  by (simp add: sample_hash_def VerifyPassword_encoded IDKey_def bind_act_def ret_def)

lemma sample_issue:
  assumes "sessions (dbase w) = []" "user_exists (dbase w) (u_id u)"
  shows "\<exists>a w1. issueToken sample_service u (calm DriverSQLite) w = (Done a, w1)"
  using assms
  by (simp add: sample_service_sqlite issueToken_def sqliteUserStore_def sqlite_CreateSession_def GenerateAccessToken_def bind_act_def
      act_simps Let_def map_error_def stmt_def insert_session_def unfit_def new_session_row_def scanSQLiteSession_def user_exists_def)

lemma sample_row [simp]: "live_email (calm DriverSQLite) ''ann@example.org'' sample_account"
  by (simp add: live_email_def)

lemma sample_normal: "li_email (Login_Normalize (calm DriverSQLite) \<lparr>li_email = ''Ann@example.org'', li_password = p\<rparr>) = ''ann@example.org''"
  by (simp add: Login_Normalize_def) code_simp

lemma sample_found: "sqlite_GetUserByEmail ''ann@example.org'' (calm DriverSQLite) sample_accounts = (Done (with_hash sample_account), tick sample_accounts)"
  by (simp add: sqlite_GetUserByEmail_def select_user_def query_row_def map_error_def bind_act_def stmt_def scanSQLiteUser_def act_simps with_hash_def
     user_of_row_def)

lemma sample_login_at:
  "Login sample_service \<lparr>li_email = ''Ann@example.org'', li_password = ''secret''\<rparr> (calm DriverSQLite) sample_accounts =
    issueToken sample_service (with_hash sample_account) (calm DriverSQLite) (tick sample_accounts)"
  by (simp add: Login_def sample_normal sample_service_sqlite catch_def sqliteUserStore_def sample_found Let_def)
     (simp add: with_hash_def user_of_row_def sample_verify bind_act_def map_error_def Login_Normalize_def)

text \<open>The login of the sample account, and the state after it.\<close>

lemma sample_login:
  obtains a w1 where "Login sample_service \<lparr>li_email = ''Ann@example.org'', li_password = ''secret''\<rparr> (calm DriverSQLite) sample_accounts = (Done a, w1)"
    "account_run sample_service (calm DriverSQLite) sample_accounts w1" "u_id (ar_user a) = 1" "u_public (ar_user a) = ''u-1''"
    "u_email (ar_user a) = ''ann@example.org''" "ar_expires a = 901 * second"
    "\<exists>r. sessions (dbase w1) = [r] \<and> se_token_hash r = HashToken (calm DriverSQLite) (ar_token a) \<and> se_revoked r = None"
proof -
  obtain a w1 where i: "issueToken sample_service (with_hash sample_account) (calm DriverSQLite) (tick sample_accounts) = (Done a, w1)"
    using sample_issue [of "tick sample_accounts" "with_hash sample_account"] by (auto simp: user_exists_def with_hash_def user_of_row_def)
  from sqlite_accounts.issueToken_DoneD [OF i [unfolded sample_service_sqlite]]
  have "u_id (ar_user a) = 1" "u_public (ar_user a) = ''u-1''" "u_email (ar_user a) = ''ann@example.org''" "ar_expires a = 901 * second"
    "\<exists>r. sessions (dbase w1) = [r] \<and> se_token_hash r = HashToken (calm DriverSQLite) (ar_token a) \<and> se_revoked r = None"
    by (auto simp: issued_def with_hash_def user_of_row_def sample_manager_def NewTokenManager_def added_session_def new_session_row_def)
  with that account_run.login [OF account_run.start] i sample_login_at show thesis by metis
qed

lemma numbered_utf8: "valid_utf8 (new_uuid_at (calm d) n)"
proof -
  have "ascii (show_nat n)" using show_nat_digits [of n] by (auto simp: ascii_def list_all_iff is_digit_def less_eq_char_def)
  then show ?thesis by (simp add: valid_utf8_ascii ascii_def)
qed

section \<open>Properties\<close>

lemmas store_cases = iam_NewStore_def store_now_def stored_time_def

text \<open>
  C35 (account_ops_refine_tables). Registration, login, logout, authentication, the own account, the seeding of accounts:
  any run of them, with any failures, does to the tables of users and sessions what a run of the abstract machine does.
\<close>

theorem account_ops_refine_tables:
  assumes "account_run (iam_NewService (iam_NewStore e) tm) e w w'"
  shows "table_run e (dbase w) (dbase w')"
  using assms pg_accounts.account_run_refines sqlite_accounts.account_run_refines by (auto simp: iam_NewStore_def split: if_splits)

theorem account_ops_refine_tables_witness:
  "\<exists>a w1. Login sample_service \<lparr>li_email = ''Ann@example.org'', li_password = ''secret''\<rparr> (calm DriverSQLite) sample_accounts = (Done a, w1) \<and>
    table_run (calm DriverSQLite) (dbase sample_accounts) (dbase w1)"
  by (rule sample_login)
    (blast intro: account_ops_refine_tables [where tm = sample_manager and e = "calm DriverSQLite", folded sample_service_def])

text \<open>
  C36 (account_tables_ok). In every state the account operations reach from consistent tables, ids, public ids, the e-mails
  of live accounts (up to letter case) and token hashes are unique and every session belongs to a user.
\<close>

theorem account_tables_ok:
  assumes "account_run (iam_NewService (iam_NewStore e) tm) e w w'" "accounts_ok e (dbase w)"
  shows "accounts_ok e (dbase w')"
proof -
  have "table_run e (dbase w) (dbase w')"
    using assms(1) pg_accounts.account_run_refines sqlite_accounts.account_run_refines by (auto simp: iam_NewStore_def split: if_splits)
  then show ?thesis using assms(2) by (rule table_run_ok)
qed

theorem account_tables_ok_witness:
  "\<exists>a w1. Login sample_service \<lparr>li_email = ''Ann@example.org'', li_password = ''secret''\<rparr> (calm DriverSQLite) sample_accounts = (Done a, w1) \<and>
    accounts_ok (calm DriverSQLite) (dbase w1)"
  by (rule sample_login)
    (blast intro: account_tables_ok [where tm = sample_manager and e = "calm DriverSQLite", folded sample_service_def] sample_accounts_ok)

text \<open>
  C8 (login_token_works). The token of a login authenticates its user for as long as it has not been revoked and has not
  expired, whatever other account operations come in between.
\<close>

theorem login_token_works:
  defines "svc \<equiv> \<lambda>e tm. iam_NewService (iam_NewStore e) tm"
  assumes "Login (svc e tm) i e w = (Done a, w1)" "account_run (svc e tm) e w1 w2" "accounts_ok e (dbase w)"
    and "\<not> revoked (HashToken e (ar_token a)) (dbase w2)" "\<forall>n. failure e n = None"
    and "\<forall>n. valid_utf8 (new_uuid_at e n)" "valid_utf8 (u_public (ar_user a))" "valid_utf8 (u_email (ar_user a))"
    and "- (2 ^ 63) \<le> unix (ar_expires a - tm_ttl tm) \<and> unix (ar_expires a - tm_ttl tm) < 2 ^ 63" "- (2 ^ 63) \<le> u_id (ar_user a) \<and> u_id (ar_user a) < 2 ^ 63"
    and "- (2 ^ 63) \<le> unix (ar_expires a) \<and> unix (ar_expires a) < 2 ^ 63"
    and "uuid_parse e (u_public (ar_user a)) = Some pub"
    and "unix (clock e (ticks w2)) \<le> unix (ar_expires a)" "store_now e (tick w2) < stored_time e (ar_expires a)"
  shows "\<exists>v w3. Service_Authenticate (svc e tm) c (ar_token a) e w2 = (Done (Some v), w3) \<and>
    uc_id v = u_id (ar_user a) \<and> uc_public v = pub \<and> uc_email v = u_email (ar_user a)"
proof (cases "driver_of e = DriverSQLite")
  case True
  then have s: "svc e tm = iam_NewService sqliteUserStore tm" by (simp add: svc_def iam_NewStore_def)
  from sqlite_accounts.Login_DoneD [OF assms(2) [unfolded s]] obtain u w0 where
    l: "dbase w0 = dbase w" "issueToken (iam_NewService sqliteUserStore tm) u e w0 = (Done a, w1)" by blast
  have u: "u_id u = u_id (ar_user a)" "u_public u = u_public (ar_user a)" "u_email u = u_email (ar_user a)" "clock e (ticks w0) = ar_expires a - tm_ttl tm"
    using sqlite_accounts.issueToken_DoneD [OF l(2)] by (auto simp: issued_def)
  have "\<forall>j. sendable (token_claims u (clock e (ticks w0)) (ar_expires a) (new_uuid_at e j))"
    using assms(7-12) u by (simp add: sendable_def token_claims_def)
  with sqlite_accounts.token_works [OF l(2) sqlite_accounts.account_run_refines [OF assms(3) [unfolded s]], of pub c] assms(4-6,13-) l(1) u True
  show ?thesis by (fastforce simp: s store_cases user_of_claims_def token_claims_def)
next
  case False
  then have s: "svc e tm = iam_NewService pgUserStore tm" by (simp add: svc_def iam_NewStore_def)
  from pg_accounts.Login_DoneD [OF assms(2) [unfolded s]] obtain u w0 where
    l: "dbase w0 = dbase w" "issueToken (iam_NewService pgUserStore tm) u e w0 = (Done a, w1)" by blast
  have u: "u_id u = u_id (ar_user a)" "u_public u = u_public (ar_user a)" "u_email u = u_email (ar_user a)" "clock e (ticks w0) = ar_expires a - tm_ttl tm"
    using pg_accounts.issueToken_DoneD [OF l(2)] by (auto simp: issued_def)
  have "\<forall>j. sendable (token_claims u (clock e (ticks w0)) (ar_expires a) (new_uuid_at e j))"
    using assms(7-12) u by (simp add: sendable_def token_claims_def)
  with pg_accounts.token_works [OF l(2) pg_accounts.account_run_refines [OF assms(3) [unfolded s]], of pub c] assms(4-6,13-) l(1) u False
  show ?thesis by (fastforce simp: s store_cases user_of_claims_def token_claims_def)
qed

theorem login_token_works_witness:
  "\<exists>a w1 v w3. Login sample_service \<lparr>li_email = ''Ann@example.org'', li_password = ''secret''\<rparr> (calm DriverSQLite) sample_accounts = (Done a, w1) \<and>
    Service_Authenticate sample_service background (ar_token a) (calm DriverSQLite) (w1\<lparr>ticks := 0\<rparr>) = (Done (Some v), w3) \<and> uc_id v = 1"
proof (rule sample_login)
  let ?e = "calm DriverSQLite"
  fix a w1
  assume l: "Login sample_service \<lparr>li_email = ''Ann@example.org'', li_password = ''secret''\<rparr> ?e sample_accounts = (Done a, w1)"
    and u: "u_id (ar_user a) = 1" "u_public (ar_user a) = ''u-1''" "u_email (ar_user a) = ''ann@example.org''" "ar_expires a = 901 * second"
    and s: "\<exists>r. sessions (dbase w1) = [r] \<and> se_token_hash r = HashToken ?e (ar_token a) \<and> se_revoked r = None"
  have run: "account_run sample_service ?e w1 (w1\<lparr>ticks := 0\<rparr>)" by (rule account_run.others [OF account_run.start]) simp_all
  have out: "\<not> revoked (HashToken ?e (ar_token a)) (dbase (w1\<lparr>ticks := 0\<rparr>))" using s by (auto simp: revoked_def)
  have tt: "tm_ttl sample_manager = 900 * second" by (simp add: sample_manager_def NewTokenManager_def)
  have utf: "valid_utf8 ''u-1''" "valid_utf8 ''ann@example.org''" by (simp_all add: valid_utf8_ascii ascii_def)
  have "\<exists>v w3. Service_Authenticate (iam_NewService (iam_NewStore ?e) sample_manager) background (ar_token a) ?e (w1\<lparr>ticks := 0\<rparr>) = (Done (Some v), w3) \<and>
    uc_id v = u_id (ar_user a) \<and> uc_public v = ''u-1'' \<and> uc_email v = u_email (ar_user a)"
    by (rule login_token_works [OF l [unfolded sample_service_def] run [unfolded sample_service_def] sample_accounts_ok out])
      (simp_all add: u utf numbered_utf8 tt unix_def store_cases sqlite_now_def del: calm_simps(4))
  with l u show ?thesis by (auto simp: sample_service_def)
qed

text \<open>
  C33 (login_needs_the_password). A login succeeds only for a live, active account with that e-mail whose stored hash
  verifies the password; it adds one session of that account for the token it returns, and returns no password hash.
\<close>

theorem login_needs_the_password:
  assumes "Login (iam_NewService (iam_NewStore e) tm) i e w = (Done a, w')"
  shows "\<exists>r u w0 s. first_row (live_email e (li_email (Login_Normalize e i))) (users (dbase w)) = Some r \<and> us_active r \<and> reads_user e r u \<and>
    VerifyPassword (li_password i) (case us_password_hash r of Some h \<Rightarrow> h | None \<Rightarrow> []) e w0 = (Done True, w0) \<and>
    ar_user a = u\<lparr>u_password_hash := []\<rparr> \<and>
    added_session e (us_id r) (HashToken e (ar_token a)) (stored_time e (ar_expires a)) s (dbase w) (dbase w')"
proof (cases "driver_of e = DriverSQLite")
  case True
  then have s: "iam_NewStore e = sqliteUserStore" by (simp add: iam_NewStore_def)
  from sqlite_accounts.Login_DoneD [OF assms [unfolded s]] sqlite_accounts.issueToken_DoneD True show ?thesis
    by (fastforce simp: store_cases issued_def reads_user_def)
next
  case False
  then have s: "iam_NewStore e = pgUserStore" by (simp add: iam_NewStore_def)
  from pg_accounts.Login_DoneD [OF assms [unfolded s]] pg_accounts.issueToken_DoneD False show ?thesis
    by (fastforce simp: store_cases issued_def reads_user_def)
qed

theorem login_needs_the_password_witness:
  "\<exists>a w1 u. Login sample_service \<lparr>li_email = ''Ann@example.org'', li_password = ''secret''\<rparr> (calm DriverSQLite) sample_accounts = (Done a, w1) \<and>
    reads_user (calm DriverSQLite) sample_account u \<and> ar_user a = u\<lparr>u_password_hash := []\<rparr>"
proof (rule sample_login)
  fix a w1
  assume l: "Login sample_service \<lparr>li_email = ''Ann@example.org'', li_password = ''secret''\<rparr> (calm DriverSQLite) sample_accounts = (Done a, w1)"
  from login_needs_the_password [OF l [unfolded sample_service_def]] l show ?thesis by (auto simp: sample_normal)
qed

text \<open>
  C34 (registered_account_logs_in). Whoever has registered can log in with the same e-mail and password as long as the
  accounts stay as they are: the login succeeds, with the new account and a session for its token. It
  needs a database that does not fail; identifiers to come that parse and are new, as the public id of a
  session and as the id of a stored session's token; a digest that fits its column; and ids, e-mail and
  times that survive in a token (UTF-8, 64 bits).
\<close>

theorem registered_account_logs_in:
  assumes "Register (iam_NewService (iam_NewStore e) tm) i e w = (Done a, w1)" "users (dbase w2) = users (dbase w1)"
    and "argon2_sized e" "\<forall>n. failure e n = None" "\<forall>t. \<not> unfit e [(64, sha256_hex e t)]"
    and "\<forall>n. ticks w2 \<le> n \<longrightarrow> uuid_parse e (new_uuid_at e n) \<noteq> None \<and> valid_utf8 (new_uuid_at e n) \<and>
      \<not> list_ex (\<lambda>x. se_public x = new_uuid_at e n) (sessions (dbase w2))"
    and "\<forall>r tok c n. r \<in> set (sessions (dbase w2)) \<longrightarrow> se_token_hash r = HashToken e tok \<longrightarrow>
      signed_claims e (tm_secret tm) tok = Some c \<longrightarrow> ticks w2 \<le> n \<longrightarrow> jc_jti c \<noteq> new_uuid_at e n"
    and "\<forall>r \<in> set (users (dbase w2)). valid_utf8 (us_public r) \<and> (\<forall>p. uuid_parse e (us_public r) = Some p \<longrightarrow> valid_utf8 p)"
    and "valid_utf8 (ri_email (Register_Normalize e i))"
    and "\<forall>n \<in> {u_id (ar_user a), unix (clock e (Suc (ticks w2))), unix (clock e (Suc (ticks w2)) + tm_ttl tm)}.
      - (2 ^ 63) \<le> n \<and> n < 2 ^ 63"
  shows "\<exists>b w4 s. Login (iam_NewService (iam_NewStore e) tm) \<lparr>li_email = ri_email i, li_password = ri_password i\<rparr> e w2 = (Done b, w4) \<and>
      u_id (ar_user b) = u_id (ar_user a) \<and> u_email (ar_user b) = ri_email (Register_Normalize e i) \<and>
      u_name (ar_user b) = ri_name (Register_Normalize e i) \<and>
      added_session e (u_id (ar_user a)) (HashToken e (ar_token b)) (stored_time e (ar_expires b)) s (dbase w2) (dbase w4)"
proof (cases "driver_of e = DriverSQLite")
  case True
  then have s: "iam_NewStore e = sqliteUserStore" by (simp add: iam_NewStore_def)
  from sqlite_accounts.register_then_login [OF assms(1) [unfolded s] assms(2-10)] True show ?thesis
    by (simp add: s stored_time_def)
next
  case False
  then have s: "iam_NewStore e = pgUserStore" by (simp add: iam_NewStore_def)
  from pg_accounts.register_then_login [OF assms(1) [unfolded s] assms(2-10)] False show ?thesis
    by (simp add: s stored_time_def)
qed

definition sample_registration :: register_input where
  "sample_registration = \<lparr>ri_email = ''bob@example.org'', ri_name = ''Bob'', ri_password = ''password''\<rparr>"

lemma sample_registration_simps [simp]:
  "ri_email sample_registration = ''bob@example.org''" "ri_name sample_registration = ''Bob''" "ri_password sample_registration = ''password''"
  by (simp_all add: sample_registration_def)

lemma sample_registration_normal [simp]:
  "Register_Normalize (calm DriverSQLite) sample_registration = sample_registration"
  "Register_Validate (calm DriverSQLite) sample_registration = []"
  by (simp add: Register_Normalize_def sample_registration_def, code_simp)
    (simp add: Register_Validate_def sample_registration_def)

lemma sample_register:
  "\<exists>a w1. Register sample_service sample_registration (calm DriverSQLite) sample_accounts = (Done a, w1) \<and> u_id (ar_user a) = 2 \<and>
    (\<forall>r \<in> set (users (dbase w1)). valid_utf8 (us_public r))"
proof -
  let ?e = "calm DriverSQLite"
  have n: "\<not> live_email ?e ''bob@example.org'' sample_account"
    by (simp add: live_email_def db_lower_def) code_simp
  have miss: "sqlite_GetUserByEmail ''bob@example.org'' ?e sample_accounts = (Fail_with (user_missing ''get user by email'' ErrNoRows), tick sample_accounts)"
    using n by (simp add: sqlite_GetUserByEmail_def select_user_def query_row_def map_error_def bind_act_def stmt_def)
  obtain enc where h: "HashPassword ''password'' ?e (tick sample_accounts) = (Done enc, tick (tick sample_accounts))"
    by (simp add: HashPassword_def argon2_version_def DefaultArgon2Params_def rand_read_def IDKey_def act_simps bind_act_def)
  have seq: "seq_users (dbase sample_accounts) = 1" by (simp add: sample_accounts_def sample_db_def empty_db_def)
  obtain u w1 where c: "sqlite_insertUser ''bob@example.org'' ''Bob'' enc ?e (tick (tick sample_accounts)) = (Done u, w1)"
    and d: "sessions (dbase w1) = []" "user_exists (dbase w1) (u_id u)" "u_id u = 2"
      "set (map us_public (users (dbase w1))) = {''u-1'', new_uuid_at ?e (Suc (Suc 0))}"
    using n seq
    by (simp add: sqlite_insertUser_def bind_act_def act_simps map_error_def stmt_def insert_user_def unfit_def new_user_row_def
        scanSQLiteUser_def with_hash_def user_of_row_def user_exists_def Let_def insert_commute)
  from sample_issue [OF d(1,2)] obtain a w2 where i: "issueToken sample_service u ?e w1 = (Done a, w2)" by blast
  from sqlite_accounts.issueToken_DoneD [OF i [unfolded sample_service_sqlite]]
  have "users (dbase w2) = users (dbase w1)" "u_id (ar_user a) = 2" using d(3) by (auto simp: issued_def added_session_def)
  moreover have "valid_utf8 ''u-1''" by (simp add: valid_utf8_ascii ascii_def)
  then have "\<forall>p \<in> set (map us_public (users (dbase w1))). valid_utf8 p"
    unfolding d(4) using numbered_utf8 [of DriverSQLite "Suc (Suc 0)"] by (simp del: calm_simps)
  then have "\<forall>r \<in> set (users (dbase w1)). valid_utf8 (us_public r)" by simp
  moreover have "Register sample_service sample_registration ?e sample_accounts = (Done a, w2)"
    using miss h c i by (simp add: Register_def Let_def sample_service_sqlite catch_def sqliteUserStore_def bind_act_def map_error_def user_missing_is)
  ultimately show ?thesis by auto
qed

theorem registered_account_logs_in_witness:
  "\<exists>a w1 b w4. Register sample_service sample_registration (calm DriverSQLite) sample_accounts = (Done a, w1) \<and>
    Login sample_service \<lparr>li_email = ''bob@example.org'', li_password = ''password''\<rparr> (calm DriverSQLite)
      (w1\<lparr>ticks := 0, dbase := (dbase w1)\<lparr>sessions := []\<rparr>\<rparr>) = (Done b, w4) \<and> u_id (ar_user b) = 2 \<and> u_name (ar_user b) = ''Bob''"
proof -
  let ?e = "calm DriverSQLite"
  from sample_register obtain a w1 where r: "Register sample_service sample_registration ?e sample_accounts = (Done a, w1)"
    and u: "u_id (ar_user a) = 2" "\<forall>r \<in> set (users (dbase w1)). valid_utf8 (us_public r)" by blast
  let ?w2 = "w1\<lparr>ticks := 0, dbase := (dbase w1)\<lparr>sessions := []\<rparr>\<rparr>"
  have a: "argon2_sized ?e" by (simp add: argon2_sized_def) auto
  have m: "valid_utf8 ''bob@example.org''" by (simp add: valid_utf8_ascii ascii_def)
  have tt: "tm_ttl sample_manager = 900 * second" by (simp add: sample_manager_def NewTokenManager_def)
  have "\<exists>b w4 s. Login sample_service \<lparr>li_email = ri_email sample_registration, li_password = ri_password sample_registration\<rparr> ?e ?w2 = (Done b, w4) \<and>
      u_id (ar_user b) = u_id (ar_user a) \<and> u_email (ar_user b) = ri_email (Register_Normalize ?e sample_registration) \<and>
      u_name (ar_user b) = ri_name (Register_Normalize ?e sample_registration) \<and>
      added_session ?e (u_id (ar_user a)) (HashToken ?e (ar_token b)) (stored_time ?e (ar_expires b)) s (dbase ?w2) (dbase w4)"
    unfolding sample_service_def
    by (rule registered_account_logs_in [OF r [unfolded sample_service_def] _ a])
      (simp_all add: u m tt unix_def unfit_def numbered_utf8 del: calm_simps(4))
  with r u show ?thesis by auto
qed

text \<open>
  C37 (bad_credentials_indistinct). An e-mail without account, an account that is not active and a password that does not
  verify get the same answer, 401 with the same code and message, and change nothing.
\<close>

theorem bad_credentials_indistinct:
  assumes "\<forall>n. failure e n = None" "li_email (Login_Normalize e i) \<noteq> []" "li_password i \<noteq> []"
    and "\<not> unreadable e (li_email (Login_Normalize e i))"
    and "case first_row (live_email e (li_email (Login_Normalize e i))) (users (dbase w)) of None \<Rightarrow> True
      | Some r \<Rightarrow> uuid_parse e (us_public r) \<noteq> None \<and> (\<exists>enc ok. us_password_hash r = Some enc \<and>
          (\<forall>w. VerifyPassword (li_password i) enc e w = (Done ok, w)) \<and> \<not> (us_active r \<and> ok))"
  shows "(\<exists>w1. Login (iam_NewService (iam_NewStore e) tm) i e w = (Fail_with invalid_credentials, w1) \<and> dbase w1 = dbase w) \<and>
    public_view fallback invalid_credentials = (401, ''INVALID_CREDENTIALS'', ''Invalid email or password'')"
proof
  show "public_view fallback invalid_credentials = (401, ''INVALID_CREDENTIALS'', ''Invalid email or password'')"
    by (simp add: public_view_def invalid_credentials_def service_error_def NewAppError_def HTTPStatus_def)
  show "\<exists>w1. Login (iam_NewService (iam_NewStore e) tm) i e w = (Fail_with invalid_credentials, w1) \<and> dbase w1 = dbase w"
  proof (cases "first_row (live_email e (li_email (Login_Normalize e i))) (users (dbase w))")
    case None
    from pg_accounts.Login_unknown [OF assms(1-3) None assms(4)] sqlite_accounts.Login_unknown [OF assms(1-3) None assms(4)]
    show ?thesis by (simp add: iam_NewStore_def conj_commute)
  next
    case (Some r)
    with assms(5) obtain enc ok where h: "us_password_hash r = Some enc" "\<forall>w. VerifyPassword (li_password i) enc e w = (Done ok, w)"
      "\<not> (us_active r \<and> ok)" and p: "uuid_parse e (us_public r) \<noteq> None" by auto
    have "pg_gets e (li_email (Login_Normalize e i)) r" "sqlite_gets e (li_email (Login_Normalize e i)) r"
      using assms(4) p by (simp_all add: pg_gets_def sqlite_gets_def)
    with pg_accounts.Login_cases [OF assms(1-3) Some _ h(1,2), of tm] sqlite_accounts.Login_cases [OF assms(1-3) Some _ h(1,2), of tm] h(3)
    have "\<exists>w1. dbase w1 = dbase w \<and> Login (iam_NewService pgUserStore tm) i e w = (Fail_with invalid_credentials, w1)"
      "\<exists>w1. dbase w1 = dbase w \<and> Login (iam_NewService sqliteUserStore tm) i e w = (Fail_with invalid_credentials, w1)"
      by (simp_all only: if_False) blast+
    then show ?thesis by (simp add: iam_NewStore_def conj_commute)
  qed
qed

theorem bad_credentials_indistinct_witness:
  "\<exists>w1. Login sample_service \<lparr>li_email = ''Ann@example.org'', li_password = ''guess''\<rparr> (calm DriverSQLite) sample_accounts =
    (Fail_with invalid_credentials, w1)"
proof -
  have g: "VerifyPassword ''guess'' sample_hash (calm DriverSQLite) w = (Done False, w)" for w by (simp add: sample_verify)
  have "\<exists>w1. Login (iam_NewService (iam_NewStore (calm DriverSQLite)) sample_manager) \<lparr>li_email = ''Ann@example.org'', li_password = ''guess''\<rparr>
      (calm DriverSQLite) sample_accounts = (Fail_with invalid_credentials, w1) \<and> dbase w1 = dbase sample_accounts"
    by (rule conjunct1 [OF bad_credentials_indistinct]) (simp_all add: sample_normal unreadable_def g, blast)
  then show ?thesis by (auto simp: sample_service_def)
qed

text \<open>
  C6 (logout_is_final). After a logout with the token of a session every later request that bears the token is answered
  401 and changes nothing, and the handler behind the middleware does not run.
\<close>

theorem logout_is_final:
  assumes "Logout (iam_NewService (iam_NewStore e) tm) (HashToken e tok) e w = (Done (), w1)"
    and "list_ex (\<lambda>r. se_token_hash r = HashToken e tok) (sessions (dbase w))"
    and "account_run (iam_NewService (iam_NewStore e) tm) e w1 w2"
    and "bearer_token (rq_header r ''Authorization'') = tok"
    and "Authenticate (Service_Authenticate (iam_NewService (iam_NewStore e) tm)) nxt e r h w2 = (rep, w3)"
  shows "rs_status (send h (ops rep)) = 401 \<and> panicked rep = None \<and> dbase w3 = dbase w2"
proof (cases "driver_of e = DriverSQLite")
  case True
  then have s: "iam_NewStore e = sqliteUserStore" by (simp add: iam_NewStore_def)
  show ?thesis by (rule sqlite_accounts.logged_out [OF assms(1,2) [unfolded s] sqlite_accounts.account_run_refines [OF assms(3) [unfolded s]]
      assms(4,5) [unfolded s]])
next
  case False
  then have s: "iam_NewStore e = pgUserStore" by (simp add: iam_NewStore_def)
  show ?thesis by (rule pg_accounts.logged_out [OF assms(1,2) [unfolded s] pg_accounts.account_run_refines [OF assms(3) [unfolded s]]
      assms(4,5) [unfolded s]])
qed

definition sample_session :: session_row where
  "sample_session = \<lparr>se_id = 1, se_public = ''s-1'', se_user = 1, se_token_hash = ''token'', se_expires = 900 * second,
     se_created = 0, se_revoked = None\<rparr>"

definition silent :: handler where
  "silent e r h w = (returns [], w)"

definition bearing :: "string \<Rightarrow> request" where
  "bearing token = sample_request\<lparr>rq_header := (\<lambda>k. if k = ''Authorization'' then ''Bearer '' @ token else [])\<rparr>"

theorem logout_is_final_witness:
  "\<exists>w1. Logout sample_service ''token'' (calm DriverSQLite) (start_world (sample_db\<lparr>sessions := [sample_session]\<rparr>)) = (Done (), w1) \<and>
    rs_status (send no_headers (ops (fst (Authenticate (Service_Authenticate sample_service) silent (calm DriverSQLite) (bearing ''token'') no_headers w1)))) = 401"
proof -
  let ?e = "calm DriverSQLite" and ?w = "start_world (sample_db\<lparr>sessions := [sample_session]\<rparr>)"
  obtain w1 where l: "Logout sample_service (HashToken ?e ''token'') ?e ?w = (Done (), w1)"
    by (simp add: sample_service_sqlite Logout_def sqliteUserStore_def sqlite_RevokeSession_def HashToken_def map_error_def bind_act_def
        act_simps stmt_def revoke_def unreadable_def)
  obtain rep w3 where a: "Authenticate (Service_Authenticate sample_service) silent ?e (bearing ''token'') no_headers w1 = (rep, w3)" by fastforce
  have s: "list_ex (\<lambda>r. se_token_hash r = HashToken ?e ''token'') (sessions (dbase ?w))" by (simp add: sample_session_def HashToken_def)
  have b: "bearer_token (rq_header (bearing ''token'') ''Authorization'') = ''token''"
    by (simp add: bearing_def) code_simp
  from logout_is_final [OF l [unfolded sample_service_def] s account_run.start b a [unfolded sample_service_def]] l a
  show ?thesis by (auto simp: HashToken_def)
qed

text \<open>
  C7 (only_vouched_requests_pass). A handler behind the authentication runs only for a request whose token is signed and
  unexpired and has a session that is neither revoked nor expired, and it runs as the user the token names; any other
  request is answered 401 and changes nothing.
\<close>

theorem only_vouched_requests_pass:
  assumes "Authenticate (Service_Authenticate (iam_NewService (iam_NewStore e) tm)) nxt e r h w = (rep, w')"
  shows "rs_status (send h (ops rep)) = 401 \<and> panicked rep = None \<and> dbase w' = dbase w \<or>
    (\<exists>u w1. has_prefix (rq_header r ''Authorization'') ''Bearer '' \<and>
      vouched store_now tm e w (bearer_token (rq_header r ''Authorization'')) u \<and> dbase w1 = dbase w \<and> tx_now w1 = tx_now w \<and>
      nxt e (r\<lparr>rq_ctx := WithUser (rq_ctx r) (Some u)\<rparr>) h w1 = (rep, w'))"
proof (cases "driver_of e = DriverSQLite")
  case True
  then have "iam_NewStore e = sqliteUserStore" "vouched store_now tm e w t u = vouched sqlite_now tm e w t u" for t u
    by (simp_all add: store_cases vouched_def)
  then show ?thesis using sqlite_accounts.service.authenticated assms by simp
next
  case False
  then have "iam_NewStore e = pgUserStore" "vouched store_now tm e w t u = vouched pg_now tm e w t u" for t u
    by (simp_all add: store_cases vouched_def)
  then show ?thesis using pg_accounts.service.authenticated assms by simp
qed

theorem only_vouched_requests_pass_witness:
  "rs_status (send no_headers (ops (fst (Authenticate (Service_Authenticate sample_service) silent (calm DriverSQLite) sample_request no_headers sample_world)))) = 401"
proof -
  obtain rep w' where a: "Authenticate (Service_Authenticate sample_service) silent (calm DriverSQLite) sample_request no_headers sample_world = (rep, w')"
    by fastforce
  from only_vouched_requests_pass [OF a [unfolded sample_service_def]] a show ?thesis
    by (auto simp: sample_request_def has_prefix_def)
qed

end
