(* ===== verification/Middleware.thy ===== *)
theory Middleware
  imports Http Config
begin

text \<open>
  The middlewares around every request (\<open>internal/platform/mid\<close>): \<open>correlation.go\<close>, \<open>recover.go\<close>,
  \<open>security_headers.go\<close>, \<open>cors.go\<close>, \<open>bodylimit.go\<close>, \<open>logger.go\<close>, and the handlers of \<open>health.go\<close>. What
  they log is left out. A header has one spelling here, that of the code; \<open>net/http\<close> treats
  spellings that differ in case as one.
\<close>

definition set_headers :: "headers \<Rightarrow> (string \<times> string) list \<Rightarrow> headers" where
  "set_headers h kvs = headers_after h (map (\<lambda>(k, v). SetHeader k v) kvs)"

text \<open>Headers set before the next handler runs.\<close>

definition with_headers :: "(string \<times> string) list \<Rightarrow> handler \<Rightarrow> handler" where
  "with_headers kvs nxt e r h w =
     (case nxt e r (set_headers h kvs) w of
        (rep, w') \<Rightarrow> (rep\<lparr>ops := map (\<lambda>(k, v). SetHeader k v) kvs @ ops rep\<rparr>, w'))"

section \<open>Correlation ids\<close>

definition HeaderCorrelationID :: string where "HeaderCorrelationID = ''X-Correlation-ID''"
definition HeaderRequestID :: string where "HeaderRequestID = ''X-Request-ID''"
definition maxCorrelationBytes :: nat where "maxCorrelationBytes = 64"

definition correlation_char :: "char \<Rightarrow> bool" where
  "correlation_char c \<longleftrightarrow>
     CHR ''a'' \<le> c \<and> c \<le> CHR ''z'' \<or> CHR ''A'' \<le> c \<and> c \<le> CHR ''Z'' \<or> CHR ''0'' \<le> c \<and> c \<le> CHR ''9'' \<or> c \<in> {CHR ''-'', CHR ''_'', CHR ''.''}"

definition validCorrelationID :: "string \<Rightarrow> bool" where
  "validCorrelationID cid \<longleftrightarrow> cid \<noteq> [] \<and> length cid \<le> maxCorrelationBytes \<and> list_all correlation_char cid"

text \<open>The id of a request, when the client sends an admissible one; else a new one is made.\<close>

definition sent_correlation_id :: "request \<Rightarrow> string" where
  "sent_correlation_id r =
     (if validCorrelationID (rq_header r HeaderCorrelationID) then rq_header r HeaderCorrelationID else rq_header r HeaderRequestID)"

definition Correlation :: middleware where
  "Correlation nxt e r h w =
     (let (cid, w') = (if validCorrelationID (sent_correlation_id r) then (sent_correlation_id r, w) else (new_uuid_at e (ticks w), tick w))
      in with_headers [(HeaderCorrelationID, cid), (HeaderRequestID, cid)] nxt e
           (r\<lparr>rq_ctx := WithCorrelationID (rq_ctx r) cid\<rparr>) h w')"

section \<open>Panics\<close>

definition Recover :: middleware where
  "Recover nxt e r h w =
     (case nxt e r h w of
        (rep, w') \<Rightarrow>
          (case panicked rep of
             None \<Rightarrow> (rep, w')
           | Some p \<Rightarrow>
               (case Fail 500 ''INTERNAL_ERROR'' ''An internal server error occurred'' e w' of
                  (xs, w'') \<Rightarrow> (returns (ops rep @ xs), w''))))"

section \<open>Security headers\<close>

record security_headers =
  CSP :: string
  HSTSMaxAgeSecs :: int
  FrameOptions :: string
  ReferrerPolicy :: string
  PermissionsPol :: string
  ContentTypeOpts :: string

definition DefaultSecurityHeaders :: security_headers where
  "DefaultSecurityHeaders =
     \<lparr>CSP = ''default-src '' @ [CHR 0x27] @ ''none'' @ [CHR 0x27] @ ''; frame-ancestors '' @ [CHR 0x27] @ ''none'' @ [CHR 0x27],
      HSTSMaxAgeSecs = 31536000, FrameOptions = ''DENY'', ReferrerPolicy = ''strict-origin-when-cross-origin'',
      PermissionsPol = ''camera=(), microphone=(), geolocation=()'', ContentTypeOpts = ''nosniff''\<rparr>"

definition unless_empty :: "string \<Rightarrow> string \<Rightarrow> (string \<times> string) list" where
  "unless_empty k v = (if v \<noteq> [] then [(k, v)] else [])"

definition security_values :: "security_headers \<Rightarrow> request \<Rightarrow> (string \<times> string) list" where
  "security_values cfg r =
     unless_empty ''Content-Security-Policy'' (CSP cfg) @
     (if 0 < HSTSMaxAgeSecs cfg \<and> (rq_tls r \<or> rq_header r ''X-Forwarded-Proto'' = ''https'')
      then [(''Strict-Transport-Security'', ''max-age='' @ show_int (HSTSMaxAgeSecs cfg) @ ''; includeSubDomains'')] else []) @
     unless_empty ''X-Frame-Options'' (FrameOptions cfg) @
     unless_empty ''Referrer-Policy'' (ReferrerPolicy cfg) @
     unless_empty ''Permissions-Policy'' (PermissionsPol cfg) @
     unless_empty ''X-Content-Type-Options'' (ContentTypeOpts cfg)"

definition SecurityHeaders :: "security_headers \<Rightarrow> middleware" where
  "SecurityHeaders cfg nxt e r h w = with_headers (security_values cfg r) nxt e r h w"

section \<open>Cross-origin requests\<close>

definition allowed_origin :: "env \<Rightarrow> cors_config \<Rightarrow> string \<Rightarrow> bool" where
  "allowed_origin e cfg origin \<longleftrightarrow> origin \<in> set (map (\<lambda>x. to_lower e (trim_space x)) (AllowedOrigins cfg))"

definition wildcard :: "env \<Rightarrow> cors_config \<Rightarrow> bool" where
  "wildcard e cfg \<longleftrightarrow> allowed_origin e cfg ''*'' \<and> \<not> AllowCredentials cfg"

definition origin_accepted :: "env \<Rightarrow> cors_config \<Rightarrow> string \<Rightarrow> bool" where
  "origin_accepted e cfg origin \<longleftrightarrow> wildcard e cfg \<or> allowed_origin e cfg (to_lower e origin)"

definition cors_values :: "env \<Rightarrow> cors_config \<Rightarrow> string \<Rightarrow> (string \<times> string) list" where
  "cors_values e cfg origin =
     (if wildcard e cfg then [(''Access-Control-Allow-Origin'', ''*'')]
      else if allowed_origin e cfg (to_lower e origin) then [(''Access-Control-Allow-Origin'', origin), (''Vary'', ''Origin'')] else []) @
     (if origin_accepted e cfg origin
      then (if AllowCredentials cfg then [(''Access-Control-Allow-Credentials'', ''true'')] else []) @
           [(''Access-Control-Expose-Headers'', ''X-Correlation-ID, X-Request-ID, Idempotency-Replayed'')]
      else [])"

text \<open>The answer to a preflight request.\<close>

definition preflight :: "cors_config \<Rightarrow> bool \<Rightarrow> handler" where
  "preflight cfg accepted e r h w =
     (if \<not> accepted then answered_with (Fail 403 ''CORS_REJECTED'' ''Origin is not allowed'' e w)
      else (returns
        [SetHeader ''Access-Control-Allow-Methods'' (join_with '', '' (AllowedMethods cfg)),
         SetHeader ''Access-Control-Allow-Headers'' (join_with '', '' (AllowedHeaders cfg)),
         SetHeader ''Access-Control-Max-Age'' (show_int (MaxAge cfg)), WriteHeader 204], w))"

definition CORS :: "cors_config \<Rightarrow> middleware" where
  "CORS cfg nxt e r h w =
     (let origin = rq_header r ''Origin'' in
      if origin = [] then nxt e r h w
      else with_headers (cors_values e cfg origin)
        (if rq_method r = ''OPTIONS'' then preflight cfg (origin_accepted e cfg origin) else nxt) e r h w)"

section \<open>Body limit, access log\<close>

definition BodyLimit :: "nat \<Rightarrow> middleware" where
  "BodyLimit maxBytes nxt e r h w = nxt e (r\<lparr>rq_limit := Some maxBytes\<rparr>) h w"

text \<open>\<open>responseRecorder\<close>: the last status and the bytes of the body, for the log.\<close>

record recorder =
  rec_status :: nat
  rec_bytes :: nat

fun recorder_call :: "writer_op \<Rightarrow> recorder \<Rightarrow> recorder" where
  "recorder_call (SetHeader k v) c = c"
| "recorder_call (WriteHeader code) c = c\<lparr>rec_status := code\<rparr>"
| "recorder_call (WriteBody b) c = c\<lparr>rec_bytes := rec_bytes c + length b\<rparr>"

definition recorded :: "writer_op list \<Rightarrow> recorder" where
  "recorded xs = fold recorder_call xs \<lparr>rec_status = 200, rec_bytes = 0\<rparr>"

datatype log_level = LevelDebug | LevelInfo | LevelWarn | LevelError

definition access_level :: "nat \<Rightarrow> log_level" where
  "access_level status = (if 500 \<le> status then LevelError else if 400 \<le> status then LevelWarn else LevelInfo)"

text \<open>The handler's calls reach the writer unchanged; the clock is read before and, unless the handler
  panics, after it.\<close>

definition Logger :: middleware where
  "Logger nxt e r h w =
     (case nxt e r h (tick w) of
        (rep, w') \<Rightarrow> (rep, if panicked rep = None then tick w' else w'))"

section \<open>Health\<close>

definition version :: string where "version = ''DEV-0.15.0''"

definition HealthLiveness :: handler where
  "HealthLiveness e r h w = (returns (OK_reply (JObj [(''status'', JStr ''up''), (''version'', JStr version)])), w)"

text \<open>\<open>Ping\<close> fails as a statement would.\<close>

definition HealthReadiness :: handler where
  "HealthReadiness e r h w =
     (case failure e (ticks w) of
        Some msg \<Rightarrow> answered_with (Fail 503 ''DB_UNAVAILABLE'' ''Database connection failed'' e (tick w))
      | None \<Rightarrow> (returns (OK_reply (JObj [(''database'', JStr ''connected''), (''status'', JStr ''ready'')])), tick w))"

definition Metrics :: "int \<Rightarrow> handler" where
  "Metrics dropped e r h w =
     (returns
       [SetHeader ''Content-Type'' ''text/plain; version=0.0.4'', WriteHeader 200,
        WriteBody (''# HELP event_bus_dropped_total Events dropped due to buffer saturation'' @ [byte 10]),
        WriteBody (''# TYPE event_bus_dropped_total counter'' @ [byte 10]),
        WriteBody (''event_bus_dropped_total '' @ show_int dropped @ [byte 10])], w)"

end
