(* ===== verification/Durations.thy ===== *)
theory Durations
  imports World
begin

text \<open>The arithmetic of \<open>time.Duration\<close> that needs \<open>float64\<close> or saturates.\<close>

text \<open>\<open>t.Sub(u)\<close> saturates; \<open>d.Seconds()\<close> adds the whole seconds and the fraction.\<close>

definition time_sub :: "time \<Rightarrow> time \<Rightarrow> duration" where
  "time_sub t u = max (- (2 ^ 63)) (min (2 ^ 63 - 1) (t - u))"

definition trunc_div :: "int \<Rightarrow> int \<Rightarrow> int" where
  "trunc_div a b = sgn a * (\<bar>a\<bar> div b)"

definition Seconds :: "env \<Rightarrow> duration \<Rightarrow> rat" where
  "Seconds e d =
     (let sec = trunc_div d second; nsec = d - sec * second
      in round64 e (round64 e (of_int sec) + round64 e (round64 e (of_int nsec) / 10 ^ 9)))"

lemma time_sub_small: "\<bar>t - u\<bar> < 2 ^ 63 \<Longrightarrow> time_sub t u = t - u"
  by (simp add: time_sub_def)

end
