(* ===== verification/Rate_Limit.thy ===== *)
theory Rate_Limit
  imports Http Durations
begin

text \<open>
  The rate limiter (\<open>internal/platform/mid/ratelimit.go\<close>): a token bucket per client. Tokens are
  \<open>float64\<close>: each operation gives the exact result rounded by \<open>round64\<close>. The map of buckets is a
  part of the world; a request takes the lock of its bucket, so requests are taken one after the
  other, and so is a sweep of the clean-up.
\<close>

section \<open>The limiter\<close>

record rate_limit_config =
  rc_rate :: rat
  rc_burst :: int
  rc_cleanup :: duration
  rc_trust :: bool
  rc_skip :: "string list"

text \<open>The defaults of \<open>RateLimit\<close>.\<close>

definition rate_limit_defaults :: "rate_limit_config \<Rightarrow> rate_limit_config" where
  "rate_limit_defaults cfg =
     cfg\<lparr>rc_rate := (if rc_rate cfg \<le> 0 then 10 else rc_rate cfg),
         rc_burst := (if rc_burst cfg \<le> 0 then 20 else rc_burst cfg),
         rc_cleanup := (if rc_cleanup cfg \<le> 0 then 10 * minute else rc_cleanup cfg)\<rparr>"

definition full_bucket :: "env \<Rightarrow> rate_limit_config \<Rightarrow> time \<Rightarrow> token_bucket" where
  "full_bucket e cfg now = \<lparr>bk_tokens = round64 e (of_int (rc_burst cfg)), bk_lastFill = now\<rparr>"

text \<open>The tokens of a bucket after it has been filled up to now.\<close>

definition refilled :: "env \<Rightarrow> rate_limit_config \<Rightarrow> time \<Rightarrow> token_bucket \<Rightarrow> rat" where
  "refilled e cfg now b =
     min (round64 e (of_int (rc_burst cfg)))
       (round64 e (bk_tokens b + round64 e (Seconds e (time_sub now (bk_lastFill b)) * rc_rate cfg)))"

definition allow :: "rate_limit_config \<Rightarrow> string \<Rightarrow> env \<Rightarrow> world \<Rightarrow> bool \<times> world" where
  "allow cfg ip e w =
     (let now = clock e (ticks w);
          b = (case buckets w ip of Some b \<Rightarrow> b | None \<Rightarrow> full_bucket e cfg now);
          t = refilled e cfg now b
      in if t < 1 then (False, (tick w)\<lparr>buckets := (buckets w)(ip \<mapsto> \<lparr>bk_tokens = t, bk_lastFill = now\<rparr>)\<rparr>)
         else (True, (tick w)\<lparr>buckets := (buckets w)(ip \<mapsto> \<lparr>bk_tokens = round64 e (t - 1), bk_lastFill = now\<rparr>)\<rparr>))"

text \<open>A tick of the clean-up: buckets not filled for \<open>CleanupTL\<close> are dropped.\<close>

definition sweep :: "rate_limit_config \<Rightarrow> env \<Rightarrow> world \<Rightarrow> world" where
  "sweep cfg e w =
     (let cutoff = clock e (ticks w) - rc_cleanup cfg
      in (tick w)\<lparr>buckets := (\<lambda>ip. case buckets w ip of
            None \<Rightarrow> None
          | Some b \<Rightarrow> if bk_lastFill b < cutoff then None else Some b)\<rparr>)"

section \<open>The client\<close>

text \<open>The host of \<open>net.SplitHostPort\<close>; \<^term>\<open>None\<close> is its error.\<close>

definition split_host :: "string \<Rightarrow> string option" where
  "split_host s =
     (if CHR '':'' \<notin> set s then None
      else if hd s = CHR ''['' then
        (case dropWhile (\<lambda>c. c \<noteq> CHR '']'') s of
           [] \<Rightarrow> None
         | _ # rest \<Rightarrow>
             if rest \<noteq> [] \<and> hd rest = CHR '':'' \<and> CHR '':'' \<notin> set (tl rest) \<and> CHR ''['' \<notin> set (tl s) \<and> CHR '']'' \<notin> set rest
             then Some (tl (takeWhile (\<lambda>c. c \<noteq> CHR '']'') s)) else None)
      else
        (let host = rev (tl (dropWhile (\<lambda>c. c \<noteq> CHR '':'') (rev s)))
         in if CHR '':'' \<in> set host \<or> CHR ''['' \<in> set s \<or> CHR '']'' \<in> set s then None else Some host))"

definition clientIP :: "request \<Rightarrow> bool \<Rightarrow> string" where
  "clientIP r trustProxy =
     (let xff = rq_header r ''X-Forwarded-For''
      in if trustProxy \<and> xff \<noteq> [] then trim_space (takeWhile (\<lambda>c. c \<noteq> CHR '','') xff)
         else (case split_host (rq_remote r) of Some host \<Rightarrow> host | None \<Rightarrow> rq_remote r))"

definition limited_reply :: "env \<Rightarrow> world \<Rightarrow> reply \<times> world" where
  "limited_reply e w =
     (case Fail 429 ''RATE_LIMITED'' ''Request rate limit exceeded. Try again shortly.'' e w of
        (xs, w') \<Rightarrow> (returns (SetHeader ''Retry-After'' ''1'' # xs), w'))"

definition RateLimit :: "rate_limit_config \<Rightarrow> middleware" where
  "RateLimit cfg0 nxt e r h w =
     (let cfg = rate_limit_defaults cfg0 in
      if list_ex (has_prefix (rq_path r)) (rc_skip cfg) then nxt e r h w
      else (case allow cfg (clientIP r (rc_trust cfg)) e w of
              (False, w') \<Rightarrow> limited_reply e w'
            | (True, w') \<Rightarrow> nxt e r h w'))"

lemma split_host_examples:
  "split_host ''127.0.0.1:8080'' = Some ''127.0.0.1''" "split_host ''[::1]:80'' = Some ''::1''" "split_host ''::1'' = None"
  "split_host ''host'' = None"
  by (simp_all add: split_host_def)

section \<open>How much it lets through\<close>

text \<open>Rounding is monotone, leaves a number that is rounded, and errs by at most the part \<open>u\<close>; for \<open>float64\<close> (where numbers are normal) \<open>u\<close> is \<open>2 ^ - 53\<close>.\<close>

definition rounds_within :: "rat \<Rightarrow> env \<Rightarrow> bool" where
  "rounds_within u e \<longleftrightarrow> 0 \<le> u \<and> mono (round64 e) \<and> (\<forall>x. round64 e (round64 e x) = round64 e x) \<and>
     (\<forall>x \<ge> 0. 0 \<le> round64 e x \<and> (1 - u) * x \<le> round64 e x \<and> round64 e x \<le> (1 + u) * x)"

lemma rounded:
  assumes "rounds_within u e" "0 \<le> x" "x \<le> y"
  shows "0 \<le> round64 e x" "round64 e x \<le> (1 + u) * y"
proof -
  have "(1 + u) * x \<le> (1 + u) * y" using assms by (intro mult_left_mono) (auto simp: rounds_within_def)
  then show "0 \<le> round64 e x" "round64 e x \<le> (1 + u) * y" using assms by (auto simp: rounds_within_def intro: order_trans)
qed

definition in_seconds :: "duration \<Rightarrow> rat" where
  "in_seconds d = of_int d / 10 ^ 9"

lemma in_seconds_simps: "in_seconds (a + b) = in_seconds a + in_seconds b" "in_seconds (a - b) = in_seconds a - in_seconds b"
  "a \<le> b \<Longrightarrow> in_seconds a \<le> in_seconds b" "0 \<le> a \<Longrightarrow> 0 \<le> in_seconds a"
  by (simp_all add: in_seconds_def add_divide_distrib diff_divide_distrib divide_right_mono)

lemma Seconds_nonneg:
  assumes "0 \<le> d"
  shows "Seconds e d = round64 e (round64 e (of_int (d div second)) + round64 e (round64 e (of_int (d mod second)) / 10 ^ 9))"
proof -
  have "trunc_div d second = d div second" using assms by (cases "d = 0") (simp_all add: trunc_div_def)
  moreover have "d - d div second * second = d mod second" by (rule minus_div_mult_eq_mod)
  ultimately show ?thesis by (simp only: Seconds_def Let_def)
qed

lemma whole_and_part: "of_int (d div second) + in_seconds (d mod second) = in_seconds d"
proof -
  have "d = d div second * second + d mod second" by simp
  then have "in_seconds d = in_seconds (d div second * second) + in_seconds (d mod second)" by (metis in_seconds_simps(1))
  then show ?thesis by (simp add: in_seconds_def)
qed

lemma Seconds_bound:
  assumes "rounds_within u e" "0 \<le> d"
  shows "0 \<le> Seconds e d" "Seconds e d \<le> (1 + u) * ((1 + u) * ((1 + u) * in_seconds d))"
proof -
  let ?sec = "d div second" and ?nsec = "d mod second"
  have u: "0 \<le> u" using assms(1) by (simp add: rounds_within_def)
  have s: "Seconds e d = round64 e (round64 e (of_int ?sec) + round64 e (round64 e (of_int ?nsec) / 10 ^ 9))"
    using assms(2) by (rule Seconds_nonneg)
  have sec: "0 \<le> ?sec" and nsec: "0 \<le> ?nsec" using assms(2) by (simp_all add: pos_imp_zdiv_nonneg_iff)
  have n: "0 \<le> round64 e (of_int ?nsec) / 10 ^ 9" "round64 e (of_int ?nsec) / 10 ^ 9 \<le> (1 + u) * in_seconds ?nsec"
    using rounded [OF assms(1), of "of_int ?nsec" "of_int ?nsec"] nsec by (simp_all add: in_seconds_def divide_right_mono)
  have a: "0 \<le> round64 e (of_int ?sec)" "round64 e (of_int ?sec) \<le> (1 + u) * of_int ?sec"
    using rounded [OF assms(1), of "of_int ?sec" "of_int ?sec"] sec by simp_all
  have b: "0 \<le> round64 e (round64 e (of_int ?nsec) / 10 ^ 9)"
    "round64 e (round64 e (of_int ?nsec) / 10 ^ 9) \<le> (1 + u) * ((1 + u) * in_seconds ?nsec)"
    using rounded [OF assms(1) n] by simp_all
  have "(1 + u) * of_int ?sec \<le> (1 + u) * ((1 + u) * of_int ?sec)"
    using u sec by (intro mult_left_mono) (auto simp: distrib_right)
  with a(2) b(2) have "round64 e (of_int ?sec) + round64 e (round64 e (of_int ?nsec) / 10 ^ 9) \<le>
      (1 + u) * ((1 + u) * (of_int ?sec + in_seconds ?nsec))"
    by (simp add: distrib_left)
  then have c: "round64 e (of_int ?sec) + round64 e (round64 e (of_int ?nsec) / 10 ^ 9) \<le> (1 + u) * ((1 + u) * in_seconds d)" by (simp add: whole_and_part)
  show "0 \<le> Seconds e d" "Seconds e d \<le> (1 + u) * ((1 + u) * ((1 + u) * in_seconds d))"
    unfolding s using rounded [OF assms(1) _ c] a(1) b(1) by simp_all
qed

lemma time_sub_nonneg: "l \<le> now \<Longrightarrow> 0 \<le> time_sub now l \<and> time_sub now l \<le> now - l"
  by (simp add: time_sub_def)

text \<open>What the bucket gains is at most the rate times the time, up to the rounding.\<close>

lemma refilled_bound:
  assumes r: "rounds_within u e" and t: "0 \<le> bk_tokens b" "bk_tokens b \<le> round64 e (of_int (rc_burst cfg))"
    and "bk_lastFill b \<le> now" "0 \<le> rc_rate cfg" "0 \<le> rc_burst cfg"
  shows "0 \<le> refilled e cfg now b" "refilled e cfg now b \<le> round64 e (of_int (rc_burst cfg))"
    "refilled e cfg now b \<le> bk_tokens b + u * round64 e (of_int (rc_burst cfg)) + rc_rate cfg * (1 + u) ^ 5 * in_seconds (now - bk_lastFill b)"
proof -
  let ?B = "round64 e (of_int (rc_burst cfg))" and ?s = "Seconds e (time_sub now (bk_lastFill b))" and ?T = "in_seconds (now - bk_lastFill b)"
  have u: "0 \<le> u" using r by (simp add: rounds_within_def)
  have B: "0 \<le> ?B" using rounded [OF r, of "of_int (rc_burst cfg)" "of_int (rc_burst cfg)"] assms(6) by simp
  from time_sub_nonneg [OF assms(4)] Seconds_bound [OF r, of "time_sub now (bk_lastFill b)"]
  have s: "0 \<le> ?s" "?s \<le> (1 + u) * ((1 + u) * ((1 + u) * in_seconds (time_sub now (bk_lastFill b))))" by simp_all
  have "in_seconds (time_sub now (bk_lastFill b)) \<le> ?T" using time_sub_nonneg [OF assms(4)] by (intro in_seconds_simps) simp
  then have "(1 + u) * ((1 + u) * ((1 + u) * in_seconds (time_sub now (bk_lastFill b)))) \<le> (1 + u) * ((1 + u) * ((1 + u) * ?T))"
    using u by (intro mult_left_mono) auto
  with s(2) have "?s \<le> (1 + u) ^ 3 * ?T" by (simp add: power3_eq_cube mult.assoc)
  then have g: "?s * rc_rate cfg \<le> (1 + u) ^ 3 * ?T * rc_rate cfg" using assms(5) by (rule mult_right_mono)
  have p: "0 \<le> ?s * rc_rate cfg" using s(1) assms(5) by simp
  note gain = rounded [OF r p g]
  have "bk_tokens b + round64 e (?s * rc_rate cfg) \<le> bk_tokens b + (1 + u) * ((1 + u) ^ 3 * ?T * rc_rate cfg)" using gain(2) by simp
  from rounded [OF r _ this] gain(1) t(1)
  have f: "0 \<le> round64 e (bk_tokens b + round64 e (?s * rc_rate cfg))"
    "round64 e (bk_tokens b + round64 e (?s * rc_rate cfg)) \<le> (1 + u) * (bk_tokens b + (1 + u) * ((1 + u) ^ 3 * ?T * rc_rate cfg))" by simp_all
  show "0 \<le> refilled e cfg now b" "refilled e cfg now b \<le> ?B" using f(1) B by (simp_all add: refilled_def)
  have "(1 + u) * (bk_tokens b + (1 + u) * ((1 + u) ^ 3 * ?T * rc_rate cfg)) = bk_tokens b + u * bk_tokens b + rc_rate cfg * (1 + u) ^ 5 * ?T"
    by (simp add: distrib_left distrib_right power_def algebra_simps numeral_eq_Suc)
  moreover have "u * bk_tokens b \<le> u * ?B" using t(2) u by (rule mult_left_mono)
  ultimately show "refilled e cfg now b \<le> bk_tokens b + u * ?B + rc_rate cfg * (1 + u) ^ 5 * ?T" using f(2) by (simp add: refilled_def)
qed

lemma allow_cases:
  assumes "allow cfg ip e w = (ok, w')"
  obtains b t where "b = (case buckets w ip of Some b \<Rightarrow> b | None \<Rightarrow> full_bucket e cfg (clock e (ticks w)))"
    "t = refilled e cfg (clock e (ticks w)) b" "ok \<longleftrightarrow> 1 \<le> t" "ticks w' = Suc (ticks w)" "dbase w' = dbase w"
    "buckets w' = (buckets w)(ip \<mapsto> \<lparr>bk_tokens = (if ok then round64 e (t - 1) else t), bk_lastFill = clock e (ticks w)\<rparr>)"
  using assms by (auto simp: allow_def Let_def split: if_splits)

text \<open>Requests of one client, sweeps, and anything else that leaves his bucket alone; \<open>n\<close> counts the
  requests let through, \<open>k\<close> all of them.\<close>

inductive limiter_run :: "rate_limit_config \<Rightarrow> string \<Rightarrow> env \<Rightarrow> world \<Rightarrow> nat \<Rightarrow> nat \<Rightarrow> world \<Rightarrow> bool" for cfg ip e w0 where
  run_start: "limiter_run cfg ip e w0 0 0 w0"
| run_request: "limiter_run cfg ip e w0 n k w \<Longrightarrow> allow cfg ip e w = (ok, w') \<Longrightarrow>
    limiter_run cfg ip e w0 (if ok then Suc n else n) (Suc k) w'"
| run_sweep: "limiter_run cfg ip e w0 n k w \<Longrightarrow> limiter_run cfg ip e w0 n k (sweep cfg e w)"
| run_other: "limiter_run cfg ip e w0 n k w \<Longrightarrow> buckets w' ip = buckets w ip \<Longrightarrow> ticks w \<le> ticks w' \<Longrightarrow>
    limiter_run cfg ip e w0 n k w'"

text \<open>What has been let through and what is in the bucket came from a full bucket and the time since.\<close>

definition within_rate :: "rat \<Rightarrow> rate_limit_config \<Rightarrow> string \<Rightarrow> env \<Rightarrow> time \<Rightarrow> nat \<Rightarrow> nat \<Rightarrow> world \<Rightarrow> bool" where
  "within_rate u cfg ip e start n k w \<longleftrightarrow>
     (let B = round64 e (of_int (rc_burst cfg)); R = rc_rate cfg * (1 + u) ^ 5 in
      case buckets w ip of
        Some b \<Rightarrow> 0 \<le> bk_tokens b \<and> bk_tokens b \<le> B \<and> (\<forall>m \<ge> ticks w. bk_lastFill b \<le> clock e m) \<and>
          of_nat n + bk_tokens b \<le> B + R * in_seconds (bk_lastFill b - start) + of_nat k * (2 * u * B)
      | None \<Rightarrow> \<forall>m \<ge> ticks w. of_nat n \<le> R * in_seconds (clock e m - start) + of_nat k * (2 * u * B))"

lemma within_request:
  assumes r: "rounds_within u e" "mono (clock e)" "0 \<le> rc_rate cfg" "0 \<le> rc_burst cfg"
    and w: "within_rate u cfg ip e start n k w" and a: "allow cfg ip e w = (ok, w')"
  shows "within_rate u cfg ip e start (if ok then Suc n else n) (Suc k) w'"
proof -
  let ?B = "round64 e (of_int (rc_burst cfg))" and ?R = "rc_rate cfg * (1 + u) ^ 5" and ?now = "clock e (ticks w)"
  obtain b t where b: "b = (case buckets w ip of Some b \<Rightarrow> b | None \<Rightarrow> full_bucket e cfg ?now)"
    and t: "t = refilled e cfg ?now b" "ok \<longleftrightarrow> 1 \<le> t" and w': "ticks w' = Suc (ticks w)"
    "buckets w' = (buckets w)(ip \<mapsto> \<lparr>bk_tokens = (if ok then round64 e (t - 1) else t), bk_lastFill = ?now\<rparr>)"
    using a by (rule allow_cases)
  have u: "0 \<le> u" using r(1) by (simp add: rounds_within_def)
  have B: "0 \<le> ?B" using rounded [OF r(1), of "of_int (rc_burst cfg)" "of_int (rc_burst cfg)"] r(4) by simp
  have now: "\<forall>m \<ge> ticks w'. ?now \<le> clock e m" using r(2) w'(1) by (auto simp: mono_def)
  have bucket: "0 \<le> bk_tokens b \<and> bk_tokens b \<le> ?B \<and> bk_lastFill b \<le> ?now \<and>
      of_nat n + bk_tokens b \<le> ?B + ?R * in_seconds (bk_lastFill b - start) + of_nat k * (2 * u * ?B)"
    using w B by (cases "buckets w ip") (auto simp: b within_rate_def Let_def full_bucket_def)
  then have f: "0 \<le> t" "t \<le> ?B" "t \<le> bk_tokens b + u * ?B + ?R * in_seconds (?now - bk_lastFill b)"
    using refilled_bound [OF r(1), of b cfg ?now] r(3,4) unfolding t(1) by simp_all
  have "in_seconds (?now - start) = in_seconds (?now - bk_lastFill b) + in_seconds (bk_lastFill b - start)"
    by (simp add: in_seconds_simps)
  then have sum: "of_nat n + t \<le> ?B + ?R * in_seconds (?now - start) + of_nat k * (2 * u * ?B) + u * ?B"
    using bucket f(3) by (simp add: distrib_left)
  have uB: "0 \<le> u * ?B" using u B by simp
  show ?thesis
  proof (cases ok)
    case False
    then show ?thesis using f(1,2) sum now uB w' by (simp add: within_rate_def Let_def distrib_right)
  next
    case True
    have "0 \<le> t - 1" using True t(2) by simp
    then have m: "0 \<le> round64 e (t - 1)" "round64 e (t - 1) \<le> (1 + u) * (t - 1)" using rounded [OF r(1), of "t - 1" "t - 1"] by simp_all
    have "u * (t - 1) \<le> u * ?B" using f(2) u by (intro mult_left_mono) auto
    then have m': "round64 e (t - 1) \<le> t - 1 + u * ?B" using m(2) by (simp add: distrib_right)
    have "round64 e t = t" using r(1) by (auto simp: rounds_within_def t(1) refilled_def min_def)
    moreover have "round64 e (t - 1) \<le> round64 e t" using r(1) by (auto simp: rounds_within_def mono_def)
    ultimately have top: "round64 e (t - 1) \<le> ?B" using f(2) by simp
    show ?thesis using True m(1) m' top sum now uB w' by (simp add: within_rate_def Let_def distrib_right)
  qed
qed

lemma within_sweep:
  assumes r: "rounds_within u e" "mono (clock e)" "0 \<le> rc_rate cfg" "0 \<le> rc_burst cfg"
    and full: "round64 e (of_int (rc_burst cfg)) \<le> rc_rate cfg * in_seconds (rc_cleanup cfg)"
    and w: "within_rate u cfg ip e start n k w"
  shows "within_rate u cfg ip e start n k (sweep cfg e w)"
proof (cases "buckets w ip")
  case None
  then show ?thesis using w by (simp add: within_rate_def sweep_def Let_def)
next
  case (Some b)
  let ?B = "round64 e (of_int (rc_burst cfg))" and ?R = "rc_rate cfg * (1 + u) ^ 5"
  have u: "1 \<le> (1 + u) ^ 5" using r(1) by (simp add: rounds_within_def one_le_power)
  have b: "0 \<le> bk_tokens b" "of_nat n + bk_tokens b \<le> ?B + ?R * in_seconds (bk_lastFill b - start) + of_nat k * (2 * u * ?B)"
    using w Some by (simp_all add: within_rate_def Let_def)
  have "of_nat n \<le> ?R * in_seconds (clock e m - start) + of_nat k * (2 * u * ?B)"
    if stale: "bk_lastFill b < clock e (ticks w) - rc_cleanup cfg" and m: "Suc (ticks w) \<le> m" for m
  proof -
    have R: "rc_rate cfg \<le> ?R" "0 \<le> ?R" using u r(3) mult_left_mono [OF u r(3)] by simp_all
    have "clock e (ticks w) \<le> clock e m" using r(2) m by (simp add: mono_def)
    then have "rc_cleanup cfg \<le> clock e m - bk_lastFill b" using stale by simp
    then have t: "in_seconds (rc_cleanup cfg) \<le> in_seconds (clock e m - bk_lastFill b)" by (rule in_seconds_simps)
    have l: "bk_lastFill b \<le> clock e m" using w Some m by (simp add: within_rate_def Let_def)
    have "?B \<le> rc_rate cfg * in_seconds (clock e m - bk_lastFill b)" using full mult_left_mono [OF t r(3)] by simp
    also have "\<dots> \<le> ?R * in_seconds (clock e m - bk_lastFill b)" using R(1) l by (intro mult_right_mono in_seconds_simps) simp_all
    finally have "?B + ?R * in_seconds (bk_lastFill b - start) \<le> ?R * in_seconds (clock e m - start)"
      by (simp add: in_seconds_simps algebra_simps)
    then show ?thesis using b by simp
  qed
  then show ?thesis using w Some by (auto simp: within_rate_def sweep_def Let_def)
qed

text \<open>
  C23 (rate_limit_bound). However the requests of a client and the sweeps are mixed, the limiter lets through at most a full
  bucket and the rate times the time since the first of them; \<open>u\<close> measures the rounding of \<open>float64\<close>.
\<close>

theorem rate_limit_bound:
  assumes "limiter_run cfg ip e w0 n k w" "buckets w0 ip = None" "rounds_within u e" "mono (clock e)"
    and "0 \<le> rc_rate cfg" "0 \<le> rc_burst cfg"
    and "round64 e (of_int (rc_burst cfg)) \<le> rc_rate cfg * in_seconds (rc_cleanup cfg)"
  shows "of_nat n \<le> round64 e (of_int (rc_burst cfg)) +
    rc_rate cfg * (1 + u) ^ 5 * in_seconds (clock e (ticks w) - clock e (ticks w0)) +
    of_nat k * (2 * u * round64 e (of_int (rc_burst cfg)))"
proof -
  let ?B = "round64 e (of_int (rc_burst cfg))" and ?R = "rc_rate cfg * (1 + u) ^ 5" and ?start = "clock e (ticks w0)"
  have B: "0 \<le> ?B" using rounded [OF assms(3), of "of_int (rc_burst cfg)" "of_int (rc_burst cfg)"] assms(6) by simp
  have R: "0 \<le> ?R" using assms(3,5) by (simp add: rounds_within_def)
  have "within_rate u cfg ip e ?start n k w"
    using assms(1)
  proof (induction rule: limiter_run.induct)
    case run_start
    have "?start \<le> clock e m" if "ticks w0 \<le> m" for m using assms(4) that by (simp add: mono_def)
    then show ?case using assms(2) R by (simp add: within_rate_def Let_def in_seconds_simps)
  next
    case (run_request n k w ok w')
    then show ?case using within_request [OF assms(3-6)] by blast
  next
    case (run_sweep n k w)
    then show ?case using within_sweep [OF assms(3-7)] by blast
  next
    case (run_other n k w w')
    then show ?case by (auto simp: within_rate_def Let_def split: option.splits)
  qed
  then show ?thesis
  proof (cases "buckets w ip")
    case (Some b)
    with \<open>within_rate u cfg ip e ?start n k w\<close> have b: "0 \<le> bk_tokens b" "bk_lastFill b \<le> clock e (ticks w)"
      "of_nat n + bk_tokens b \<le> ?B + ?R * in_seconds (bk_lastFill b - ?start) + of_nat k * (2 * u * ?B)"
      by (simp_all add: within_rate_def Let_def)
    have "?R * in_seconds (bk_lastFill b - ?start) \<le> ?R * in_seconds (clock e (ticks w) - ?start)"
      using b(2) R by (intro mult_left_mono in_seconds_simps) simp_all
    with b show ?thesis by simp
  next
    case None
    with \<open>within_rate u cfg ip e ?start n k w\<close> B show ?thesis by (auto simp: within_rate_def Let_def dest: spec [of _ "ticks w"])
  qed
qed

definition app_limit :: rate_limit_config where
  "app_limit = \<lparr>rc_rate = 20, rc_burst = 40, rc_cleanup = 0, rc_trust = False, rc_skip = [''/healthz'', ''/readyz'', ''/metrics'']\<rparr>"

lemma app_limit_simps [simp]:
  "rc_rate (rate_limit_defaults app_limit) = 20" "rc_burst (rate_limit_defaults app_limit) = 40"
  "rc_cleanup (rate_limit_defaults app_limit) = 600 * second" "rc_trust (rate_limit_defaults app_limit) = False"
  "rc_skip (rate_limit_defaults app_limit) = [''/healthz'', ''/readyz'', ''/metrics'']"
  by (simp_all add: rate_limit_defaults_def app_limit_def)

lemma calm_rounds: "rounds_within 0 (calm d)" by (simp add: rounds_within_def mono_def)

lemma calm_clock: "mono (clock (calm d))" by (simp add: mono_def)

theorem rate_limit_bound_witness:
  "\<exists>ok w. allow (rate_limit_defaults app_limit) ''127.0.0.1'' (calm DriverSQLite) sample_world = (ok, w) \<and> ok \<and>
    of_nat (Suc 0) \<le> (40 :: rat) + 20 * in_seconds (clock (calm DriverSQLite) (ticks w))"
proof -
  let ?cfg = "rate_limit_defaults app_limit" and ?ip = "''127.0.0.1''" and ?e = "calm DriverSQLite"
  obtain w where a: "allow ?cfg ?ip ?e sample_world = (True, w)"
    by (simp add: allow_def Let_def sample_world_def refilled_def full_bucket_def Seconds_def time_sub_def trunc_div_def)
  from limiter_run.run_request [OF limiter_run.run_start a] have run: "limiter_run ?cfg ?ip ?e sample_world (Suc 0) (Suc 0) w" by simp
  have "buckets sample_world ?ip = None" by (simp add: sample_world_def)
  from rate_limit_bound [OF run this calm_rounds calm_clock] a show ?thesis by (auto simp: in_seconds_def)
qed

text \<open>A bucket a sweep drops would have been full at the next request.\<close>

lemma Seconds_lower:
  assumes "rounds_within u e" "u \<le> 1" "0 \<le> d"
  shows "(1 - u) ^ 3 * in_seconds d \<le> Seconds e d"
proof -
  let ?sec = "d div second" and ?nsec = "d mod second"
  have fl: "0 \<le> x \<Longrightarrow> 0 \<le> round64 e x \<and> (1 - u) * x \<le> round64 e x" for x using assms(1) by (simp add: rounds_within_def)
  have u: "0 \<le> 1 - u" "1 - u \<le> 1" using assms(1,2) by (simp_all add: rounds_within_def)
  have s: "Seconds e d = round64 e (round64 e (of_int ?sec) + round64 e (round64 e (of_int ?nsec) / 10 ^ 9))"
    using assms(3) by (rule Seconds_nonneg)
  have sec: "0 \<le> ?sec" and nsec: "0 \<le> ?nsec" using assms(3) by (simp_all add: pos_imp_zdiv_nonneg_iff)
  have a: "(1 - u) * of_int ?sec \<le> round64 e (of_int ?sec)" "0 \<le> round64 e (of_int ?sec)" using fl [of "of_int ?sec"] sec by simp_all
  have "(1 - u) * ((1 - u) * of_int ?sec) \<le> 1 * ((1 - u) * of_int ?sec)" using u sec by (intro mult_right_mono) auto
  with a(1) have a': "(1 - u) * ((1 - u) * of_int ?sec) \<le> round64 e (of_int ?sec)" by simp
  have n: "(1 - u) * in_seconds ?nsec \<le> round64 e (of_int ?nsec) / 10 ^ 9" "0 \<le> round64 e (of_int ?nsec) / 10 ^ 9"
    using fl [of "of_int ?nsec"] nsec by (simp_all add: in_seconds_def divide_right_mono)
  have "(1 - u) * ((1 - u) * in_seconds ?nsec) \<le> (1 - u) * (round64 e (of_int ?nsec) / 10 ^ 9)" using n(1) u(1) by (rule mult_left_mono)
  also have "\<dots> \<le> round64 e (round64 e (of_int ?nsec) / 10 ^ 9)" using fl [OF n(2)] by simp
  finally have "(1 - u) * ((1 - u) * (of_int ?sec + in_seconds ?nsec)) \<le> round64 e (of_int ?sec) + round64 e (round64 e (of_int ?nsec) / 10 ^ 9)"
    using a' by (simp add: distrib_left)
  then have m: "(1 - u) * ((1 - u) * in_seconds d) \<le> round64 e (of_int ?sec) + round64 e (round64 e (of_int ?nsec) / 10 ^ 9)"
    by (simp add: whole_and_part)
  have "(1 - u) ^ 3 * in_seconds d = (1 - u) * ((1 - u) * ((1 - u) * in_seconds d))" by (simp add: power3_eq_cube mult.assoc)
  also have "\<dots> \<le> (1 - u) * (round64 e (of_int ?sec) + round64 e (round64 e (of_int ?nsec) / 10 ^ 9))" using m u(1) by (rule mult_left_mono)
  also have "\<dots> \<le> Seconds e d" unfolding s using fl a(2) n(2) by (simp add: add_nonneg_nonneg)
  finally show ?thesis .
qed

lemma refilled_full:
  assumes r: "rounds_within u e" and g: "round64 e (of_int (rc_burst cfg)) \<le> bk_tokens b + Seconds e (time_sub now (bk_lastFill b)) * rc_rate cfg"
    and "0 \<le> bk_tokens b" "0 \<le> Seconds e (time_sub now (bk_lastFill b)) * rc_rate cfg"
    and "bk_tokens b = round64 e (of_int (rc_burst cfg)) \<or> round64 e (of_int (rc_burst cfg)) \<le> Seconds e (time_sub now (bk_lastFill b)) * rc_rate cfg"
  shows "refilled e cfg now b = round64 e (of_int (rc_burst cfg))"
proof -
  let ?B = "round64 e (of_int (rc_burst cfg))" and ?g = "Seconds e (time_sub now (bk_lastFill b)) * rc_rate cfg"
  have mono: "x \<le> y \<Longrightarrow> round64 e x \<le> round64 e y" for x y using r by (simp add: rounds_within_def mono_def)
  have same: "round64 e ?B = ?B" using r by (simp add: rounds_within_def)
  have "0 \<le> round64 e ?g" using r assms(4) by (simp add: rounds_within_def)
  moreover have "?B \<le> round64 e ?g" if "?B \<le> ?g" using mono [OF that] same by simp
  ultimately have "?B \<le> bk_tokens b + round64 e ?g" using assms(3,5) by auto
  from mono [OF this] same show ?thesis by (simp add: refilled_def)
qed

text \<open>
  The clean-up makes no difference to any client: a bucket it drops would have been full at his next
  request, so the same decision is taken and the same bucket is left.
\<close>

theorem sweep_unnoticed:
  assumes r: "rounds_within u e" "u \<le> 1" "mono (clock e)" and c: "0 \<le> rc_rate cfg" "0 \<le> rc_burst cfg" "0 \<le> rc_cleanup cfg" "rc_cleanup cfg < 2 ^ 63"
    and full: "round64 e (of_int (rc_burst cfg)) \<le> rc_rate cfg * ((1 - u) ^ 3 * in_seconds (rc_cleanup cfg))"
    and t: "\<forall>b. buckets w ip = Some b \<longrightarrow> 0 \<le> bk_tokens b" and n: "ticks w \<le> n"
  shows "fst (allow cfg ip e ((sweep cfg e w)\<lparr>ticks := n\<rparr>)) = fst (allow cfg ip e (w\<lparr>ticks := n\<rparr>)) \<and>
    buckets (snd (allow cfg ip e ((sweep cfg e w)\<lparr>ticks := n\<rparr>))) ip = buckets (snd (allow cfg ip e (w\<lparr>ticks := n\<rparr>))) ip"
proof (cases "buckets (sweep cfg e w) ip = buckets w ip")
  case True
  then show ?thesis by (simp add: allow_def Let_def)
next
  case False
  then obtain b where b: "buckets w ip = Some b" "buckets (sweep cfg e w) ip = None" "bk_lastFill b < clock e (ticks w) - rc_cleanup cfg"
    by (auto simp: sweep_def Let_def split: option.splits if_splits)
  let ?now = "clock e n" and ?B = "round64 e (of_int (rc_burst cfg))"
  let ?d = "time_sub ?now (bk_lastFill b)"
  have B: "0 \<le> ?B" using r(1) c(2) by (simp add: rounds_within_def)
  have zero: "round64 e 0 = 0" using r(1) by (auto simp: rounds_within_def dest: spec [of _ 0])
  have "clock e (ticks w) \<le> ?now" using r(3) n by (simp add: mono_def)
  then have d: "rc_cleanup cfg \<le> ?d" "0 \<le> ?d" using b(3) c(3,4) by (simp_all add: time_sub_def)
  have "(1 - u) ^ 3 * in_seconds (rc_cleanup cfg) \<le> (1 - u) ^ 3 * in_seconds ?d"
    using r(2) d(1) by (intro mult_left_mono in_seconds_simps) simp_all
  also have "\<dots> \<le> Seconds e ?d" by (rule Seconds_lower [OF r(1,2) d(2)])
  finally have "rc_rate cfg * ((1 - u) ^ 3 * in_seconds (rc_cleanup cfg)) \<le> Seconds e ?d * rc_rate cfg"
    using c(1) by (simp add: mult.commute mult_left_mono)
  with full have g: "?B \<le> Seconds e ?d * rc_rate cfg" by simp
  have "refilled e cfg ?now b = ?B" using t b(1) g B by (intro refilled_full [OF r(1)]) auto
  moreover have "refilled e cfg ?now (full_bucket e cfg ?now) = ?B"
    using B by (intro refilled_full [OF r(1)]) (simp_all add: full_bucket_def time_sub_def Seconds_def trunc_div_def zero)
  ultimately show ?thesis using b by (simp add: allow_def Let_def)
qed

theorem sweep_unnoticed_witness:
  defines "w \<equiv> (start_world empty_db)\<lparr>buckets := [''a'' \<mapsto> \<lparr>bk_tokens = 0, bk_lastFill = - 700 * second\<rparr>]\<rparr>"
  shows "buckets (sweep (rate_limit_defaults app_limit) (calm DriverSQLite) w) ''a'' = None \<and>
    fst (allow (rate_limit_defaults app_limit) ''a'' (calm DriverSQLite) ((sweep (rate_limit_defaults app_limit) (calm DriverSQLite) w)\<lparr>ticks := 5\<rparr>)) =
    fst (allow (rate_limit_defaults app_limit) ''a'' (calm DriverSQLite) (w\<lparr>ticks := 5\<rparr>))"
proof
  show "buckets (sweep (rate_limit_defaults app_limit) (calm DriverSQLite) w) ''a'' = None" by (simp add: w_def sweep_def Let_def)
  show "fst (allow (rate_limit_defaults app_limit) ''a'' (calm DriverSQLite) ((sweep (rate_limit_defaults app_limit) (calm DriverSQLite) w)\<lparr>ticks := 5\<rparr>)) =
    fst (allow (rate_limit_defaults app_limit) ''a'' (calm DriverSQLite) (w\<lparr>ticks := 5\<rparr>))"
    by (rule conjunct1 [OF sweep_unnoticed [OF calm_rounds _ calm_clock]]) (simp_all add: in_seconds_def w_def)
qed

end
