(* ===== verification/App.thy ===== *)
theory App
  imports Middleware Rate_Limit Iam_Handler Task_Handler Idempotency
begin

text \<open>
  The server (\<open>internal/app/app.go\<close>): the routes of both modules, and the chain of middlewares around
  them. The router is \<open>http.ServeMux\<close>: a pattern is a method and the segments of a path, \<open>GET\<close> also
  takes \<open>HEAD\<close>; the most specific pattern comes first in the list. What the router itself answers
  when no pattern matches (404, 405, a redirect to the clean path) is the argument \<open>other\<close>.
\<close>

section \<open>Routing\<close>

datatype segment = Literal string | Wildcard

type_synonym route = "string \<times> segment list \<times> handler"

definition path_segments :: "request \<Rightarrow> string list" where
  "path_segments r = tl (split_on CHR ''/'' (rq_path r))"

fun match_segments :: "segment list \<Rightarrow> string list \<Rightarrow> bool" where
  "match_segments [] [] = True"
| "match_segments (Literal s # ps) (x # xs) = (s = x \<and> match_segments ps xs)"
| "match_segments (Wildcard # ps) (x # xs) = (x \<noteq> [] \<and> match_segments ps xs)"
| "match_segments _ _ = False"

definition method_matches :: "string \<Rightarrow> string \<Rightarrow> bool" where
  "method_matches pattern_method method \<longleftrightarrow> method = pattern_method \<or> pattern_method = ''GET'' \<and> method = ''HEAD''"

definition route_matches :: "request \<Rightarrow> route \<Rightarrow> bool" where
  "route_matches r rt \<longleftrightarrow> (case rt of (m, ps, _) \<Rightarrow> method_matches m (rq_method r) \<and> match_segments ps (path_segments r))"

text \<open>\<open>r.PathValue("id")\<close>: the segment at the wildcard.\<close>

definition path_value :: "segment list \<Rightarrow> string list \<Rightarrow> string" where
  "path_value ps xs = (case filter (\<lambda>(p, _). p = Wildcard) (zip ps xs) of [] \<Rightarrow> [] | (_, x) # _ \<Rightarrow> x)"

definition serve_mux :: "handler \<Rightarrow> route list \<Rightarrow> handler" where
  "serve_mux other rs e r h w =
     (case find (route_matches r) rs of
        None \<Rightarrow> other e r h w
      | Some (_, ps, hdl) \<Rightarrow> hdl e (r\<lparr>rq_path_value := path_value ps (path_segments r)\<rparr>) h w)"

definition api :: "string list \<Rightarrow> segment list" where
  "api xs = map Literal (''api'' # ''v1'' # xs)"

section \<open>The routes\<close>

text \<open>\<open>iam.Handler.RegisterRoutes\<close> and \<open>tasks.Handler.RegisterRoutes\<close>.\<close>

definition iam_routes :: "iam_service \<Rightarrow> middleware list \<Rightarrow> route list" where
  "iam_routes s auth =
     [(''POST'', api [''auth'', ''register''], Handler_Register s),
      (''POST'', api [''auth'', ''login''], Handler_Login s),
      (''POST'', api [''auth'', ''logout''], Chain (Handler_Logout s) auth),
      (''GET'', api [''auth'', ''me''], Chain (Handler_Me s) auth)]"

definition task_routes :: "task_service \<Rightarrow> middleware list \<Rightarrow> route list" where
  "task_routes s ms =
     [(''GET'', api [''tasks''], Chain (Handler_List s) ms),
      (''GET'', api [''tasks'', ''statuses''], Chain Handler_Statuses ms),
      (''POST'', api [''tasks''], Chain (Handler_Create s) ms),
      (''GET'', api [''tasks''] @ [Wildcard], Chain (Handler_Get s) ms),
      (''PUT'', api [''tasks''] @ [Wildcard], Chain (Handler_Update s) ms),
      (''DELETE'', api [''tasks''] @ [Wildcard], Chain (Handler_Delete s) ms),
      (''POST'', api [''tasks''] @ [Wildcard, Literal ''assign''], Chain (Handler_Assign s) ms)]"

definition public_routes :: "int \<Rightarrow> route list" where
  "public_routes dropped =
     [(''GET'', [Literal ''healthz''], HealthLiveness), (''GET'', [Literal ''readyz''], HealthReadiness),
      (''GET'', [Literal ''metrics''], Metrics dropped)]"

definition app_tokens :: "config \<Rightarrow> token_manager" where
  "app_tokens cfg = NewTokenManager (cf_JWTSecret cfg) (15 * minute)"

definition app_iam :: "config \<Rightarrow> env \<Rightarrow> iam_service" where
  "app_iam cfg e = iam_NewService (iam_NewStore e) (app_tokens cfg)"

definition app_routes :: "config \<Rightarrow> int \<Rightarrow> env \<Rightarrow> route list" where
  "app_routes cfg dropped e =
     (let authMid = Authenticate (Service_Authenticate (app_iam cfg e)) in
      public_routes dropped @ iam_routes (app_iam cfg e) [authMid] @
      task_routes (NewService e) [authMid, Idempotency (cf_IdempotencyTTL cfg)])"

section \<open>The handler of the server\<close>

definition app_middlewares :: "config \<Rightarrow> middleware list" where
  "app_middlewares cfg =
     [Correlation, Recover, SecurityHeaders DefaultSecurityHeaders, CORS (cf_CORS cfg), RateLimit app_limit, BodyLimit (2 ^ 20), Logger]"

definition app_handler :: "config \<Rightarrow> int \<Rightarrow> handler \<Rightarrow> handler" where
  "app_handler cfg dropped other e = Chain (serve_mux other (app_routes cfg dropped e)) (app_middlewares cfg) e"

lemma path_examples:
  "path_segments (sample_request\<lparr>rq_path := ''/api/v1/tasks/7''\<rparr>) = [''api'', ''v1'', ''tasks'', ''7'']"
  "path_value (api [''tasks''] @ [Wildcard]) [''api'', ''v1'', ''tasks'', ''7''] = ''7''"
  by (simp_all add: path_segments_def path_value_def api_def)

end
