(* ===== verification/App_Responses.thy ===== *)
theory App_Responses
  imports App Task_Guarantees
begin

text \<open>What the middlewares around the router make of every response.\<close>

section \<open>Headers that stay\<close>

text \<open>Calls that leave the headers in \<open>K\<close> alone, and handlers that make only such calls.\<close>

definition op_leaves :: "string set \<Rightarrow> writer_op \<Rightarrow> bool" where
  "op_leaves K x \<longleftrightarrow> (case x of SetHeader k v \<Rightarrow> k \<notin> K | _ \<Rightarrow> True)"

definition leaves :: "string set \<Rightarrow> writer_op list \<Rightarrow> bool" where
  "leaves K xs \<longleftrightarrow> list_all (op_leaves K) xs"

definition handler_leaves :: "string set \<Rightarrow> handler \<Rightarrow> bool" where
  "handler_leaves K hdl \<longleftrightarrow> (\<forall>e r h w. leaves K (ops (fst (hdl e r h w))))"

lemma leaves_simps [simp]:
  "leaves K []" "leaves K (x # xs) \<longleftrightarrow> op_leaves K x \<and> leaves K xs" "leaves K (xs @ ys) \<longleftrightarrow> leaves K xs \<and> leaves K ys"
  "op_leaves K (SetHeader k v) \<longleftrightarrow> k \<notin> K" "op_leaves K (WriteHeader n)" "op_leaves K (WriteBody b)"
  by (simp_all add: leaves_def op_leaves_def)

lemma leaves_sent:
  assumes "leaves K xs" "k \<in> K"
  shows "rs_headers (send h xs) k = h k"
proof -
  let ?I = "\<lambda>c. cn_header c k = h k \<and> (cn_status c \<noteq> 0 \<longrightarrow> cn_sent c k = h k)"
  have step: "?I (conn_call x c)" if "op_leaves K x" "?I c" for x c
    using that assms(2) by (cases x) (auto simp: op_leaves_def)
  have "?I (fold conn_call xs c)" if "?I c" for c
    using assms(1) that
  proof (induction xs arbitrary: c)
    case (Cons x xs)
    from Cons.prems have "?I (conn_call x c)" by (intro step) simp_all
    with Cons show ?case by simp
  qed simp
  from this [of "open_conn\<lparr>cn_header := h\<rparr>"] show ?thesis by (simp add: send_def Let_def open_conn_def)
qed

lemma send_set_headers: "send h (map (\<lambda>(k, v). SetHeader k v) kvs @ xs) = send (set_headers h kvs) xs"
proof -
  have "fold conn_call (map (\<lambda>(k, v). SetHeader k v) kvs) (open_conn\<lparr>cn_header := h\<rparr>) =
      open_conn\<lparr>cn_header := headers_after h (map (\<lambda>(k, v). SetHeader k v) kvs)\<rparr>"
    by (induction kvs arbitrary: h) (auto simp: open_conn_def)
  then show ?thesis by (simp add: send_def set_headers_def Let_def)
qed

lemma set_headers_other: "k \<notin> fst ` set kvs \<Longrightarrow> set_headers h kvs k = h k"
  unfolding set_headers_def by (induction kvs arbitrary: h) auto

lemma set_headers_get: "(k, v) \<in> set kvs \<Longrightarrow> distinct (map fst kvs) \<Longrightarrow> set_headers h kvs k = v"
  unfolding set_headers_def
proof (induction kvs arbitrary: h)
  case (Cons kv kvs)
  have "fst kv \<notin> fst ` set kvs" using Cons.prems(2) by simp
  then have "k = fst kv \<Longrightarrow> headers_after (h(fst kv := snd kv)) (map (\<lambda>(k, v). SetHeader k v) kvs) k = snd kv"
    using set_headers_other [of k kvs "h(fst kv := snd kv)"] by (simp add: set_headers_def)
  with Cons show ?case by (cases kv) (auto simp: rev_image_eqI)
qed simp

section \<open>What the handlers write\<close>

lemma leaves_JSON [simp]: "leaves K (JSON_reply st d) \<longleftrightarrow> ''Content-Type'' \<notin> K"
  by (simp add: JSON_reply_def)

lemma leaves_Fail [simp]: "leaves K (fst (Fail st c m e w)) \<longleftrightarrow> ''Content-Type'' \<notin> K"
  by (simp add: Fail_def)

lemma leaves_replies [simp]:
  "leaves K (OK_reply d) \<longleftrightarrow> ''Content-Type'' \<notin> K" "leaves K (Created_reply d) \<longleftrightarrow> ''Content-Type'' \<notin> K" "leaves K NoContent_reply"
  by (simp_all add: OK_reply_def Created_reply_def NoContent_reply_def)

lemma ops_answered [simp]: "ops (fst (answered_with xw)) = fst xw"
  by (simp add: answered_with_def returns_def split: prod.splits)

lemma ops_returns [simp]: "ops (returns xs) = xs"
  by (simp add: returns_def)

lemma leaves_WriteAppError: "''Content-Type'' \<notin> K \<Longrightarrow> leaves K (fst (WriteAppError err fb e w))"
  by (simp add: WriteAppError_def split: option.splits)

lemma leaves_respond:
  assumes "''Content-Type'' \<notin> K" "\<And>a. leaves K (reply a)"
  shows "leaves K (ops (fst (respond fb reply m e w)))"
proof (cases "m e w")
  case (Pair res w1)
  then show ?thesis using assms leaves_WriteAppError by (cases res) (simp_all add: respond_def)
qed

lemma leaves_guarded:
  assumes "\<And>xs w1. p e w = (Inl xs, w1) \<Longrightarrow> leaves K xs" "\<And>a w1. leaves K (ops (fst (k a e w1)))"
  shows "leaves K (ops (fst (guarded_by p k e w)))"
proof (cases "p e w")
  case (Pair res w1)
  then show ?thesis using assms by (cases res) (simp_all add: guarded_by_def)
qed

lemma leaves_Decode:
  assumes "''Content-Type'' \<notin> K" "Decode dec r e w = (Inl xs, w1)"
  shows "leaves K xs"
  using assms by (auto simp: Decode_def Let_def Fail_def split: scan.splits option.splits if_splits)

lemma leaves_parseID:
  assumes "''Content-Type'' \<notin> K" "parseID r e w = (Inl xs, w1)"
  shows "leaves K xs"
  using assms by (auto simp: parseID_def Fail_def split: option.splits)

lemma leaves_parseListQuery:
  assumes "''Content-Type'' \<notin> K" "parseListQuery r e w = (Inl xs, w1)"
  shows "leaves K xs"
  using assms by (auto simp: parseListQuery_def invalid_def Fail_def split: checked.splits)

text \<open>The headers the handlers and the inner middlewares set.\<close>

definition inner_headers :: "string set" where
  "inner_headers =
     {''Content-Type'', ''Retry-After'', ''Idempotency-Replayed'', ''Vary'', ''Access-Control-Allow-Origin'',
      ''Access-Control-Allow-Credentials'', ''Access-Control-Expose-Headers'', ''Access-Control-Allow-Methods'',
      ''Access-Control-Allow-Headers'', ''Access-Control-Max-Age''}"

lemma inner_content: "K \<inter> inner_headers = {} \<Longrightarrow> ''Content-Type'' \<notin> K"
  by (auto simp: inner_headers_def)

lemma leaves_invalid [simp]: "leaves K (fst (invalid m e w)) \<longleftrightarrow> ''Content-Type'' \<notin> K"
  by (simp add: invalid_def)

lemma task_handlers_leave:
  assumes "''Content-Type'' \<notin> K"
  shows "handler_leaves K (Handler_List s) \<and> handler_leaves K Handler_Statuses \<and> handler_leaves K (Handler_Create s) \<and>
    handler_leaves K (Handler_Get s) \<and> handler_leaves K (Handler_Update s) \<and> handler_leaves K (Handler_Delete s) \<and>
    handler_leaves K (Handler_Assign s)"
  unfolding handler_leaves_def Handler_List_def Handler_Statuses_def Handler_Create_def Handler_Get_def Handler_Update_def
    Handler_Delete_def Handler_Assign_def
  by (intro conjI allI leaves_guarded leaves_respond; simp add: assms leaves_respond
      leaves_parseListQuery [OF assms] leaves_Decode [OF assms] leaves_parseID [OF assms])

lemma account_handlers_leave:
  assumes "''Content-Type'' \<notin> K"
  shows "handler_leaves K (Handler_Register s) \<and> handler_leaves K (Handler_Login s) \<and> handler_leaves K (Handler_Logout s) \<and>
    handler_leaves K (Handler_Me s)"
  unfolding handler_leaves_def Handler_Register_def Handler_Login_def Handler_Logout_def Handler_Me_def unauthorized_def Let_def
  by (intro conjI allI leaves_guarded leaves_respond; simp add: assms leaves_respond leaves_Decode [OF assms])

lemma public_handlers_leave:
  assumes "''Content-Type'' \<notin> K"
  shows "handler_leaves K HealthLiveness" "handler_leaves K HealthReadiness" "handler_leaves K (Metrics dropped)"
  using assms by (simp_all add: handler_leaves_def HealthLiveness_def HealthReadiness_def Metrics_def split: option.splits)

section \<open>What the middlewares write\<close>

lemma handler_leavesD: "handler_leaves K hdl \<Longrightarrow> hdl e r h w = (rep, w') \<Longrightarrow> leaves K (ops rep)"
  unfolding handler_leaves_def by (metis fst_conv)

lemma handler_leavesI: "(\<And>e r h w rep w'. hdl e r h w = (rep, w') \<Longrightarrow> leaves K (ops rep)) \<Longrightarrow> handler_leaves K hdl"
  unfolding handler_leaves_def by (metis prod.collapse)

lemma authenticate_leaves:
  assumes "''Content-Type'' \<notin> K" "handler_leaves K nxt"
  shows "handler_leaves K (Authenticate auth nxt)"
  using assms by (simp add: handler_leaves_def Authenticate_def Let_def split: prod.splits result.splits)

lemma captured_leaves: "leaves K xs \<Longrightarrow> leaves K (cap_forwarded (captured xs))"
proof (induction xs rule: rev_induct)
  case (snoc x xs)
  then show ?case by (cases x) (simp_all add: captured_snoc)
qed (simp add: captured_def new_capture_def)

lemma acquire_leaves:
  assumes "K \<inter> inner_headers = {}" "acquire store c e w = (Done (Inl xs), w')"
  shows "leaves K xs"
proof -
  have f: "leaves K ys" if "fail_ops st cd m e1 w1 = (Done ys, w2)" for ys st cd m e1 w1 w2
  proof -
    from that have "ys = fst (Fail st cd m e1 w1)" by (auto simp: fail_ops_def split: prod.splits)
    then show ?thesis using inner_content [OF assms(1)] by simp
  qed
  have co: "leaves K ys" if "concurrent_ops e1 w1 = (Done ys, w2)" for ys e1 w1 w2
    using that unfolding concurrent_ops_def by (rule f)
  have rep: "leaves K (replay_ops rec)" for rec using assms(1) by (auto simp: replay_ops_def inner_headers_def)
  have rec: "leaves K ys" if "resolveRecord store c rec now e1 w1 = (Done (ResolveHandled ys), w2)" for ys rec now e1 w1 w2
    using that rep
    by (auto simp: resolveRecord_def reclaimed_def act_simps elim!: bind_act_DoneD dest!: f co split: if_splits option.splits)
  have con: "leaves K ys" if "resolveConflict store c e1 w1 = (Done (ResolveHandled ys), w2)" for ys e1 w1 w2
    using that by (auto simp: resolveConflict_def act_simps elim!: bind_act_DoneD dest!: rec split: option.splits)
  show ?thesis using assms(2)
    by (auto simp: acquire_def act_simps elim!: bind_act_DoneD dest!: con co split: option.splits resolveState.splits)
qed

lemma idempotency_leaves:
  assumes "K \<inter> inner_headers = {}" "handler_leaves K nxt"
  shows "handler_leaves K (Idempotency ttl nxt)"
proof -
  have run: "leaves K (ops (fst (run_captured store i t nxt e r h w)))" for store i t e r h w
    using handler_leavesD [OF assms(2)] by (auto simp: run_captured_def captured_leaves split: prod.splits option.splits)
  have "leaves K (ops (fst (Idempotency ttl nxt e r h w)))" for e r h w
    using assms(2) run inner_content [OF assms(1)]
    by (simp add: Idempotency_def idempotency_def Let_def handler_leaves_def acquire_leaves [OF assms(1)]
        split: prod.splits result.splits sum.splits)
  then show ?thesis by (simp add: handler_leaves_def)
qed

lemma mux_leaves:
  assumes "handler_leaves K other" "\<forall>rt \<in> set rs. handler_leaves K (snd (snd rt))"
  shows "handler_leaves K (serve_mux other rs)"
proof -
  have "leaves K (ops (fst (serve_mux other rs e r h w)))" for e r h w
  proof (cases "find (route_matches r) rs")
    case None
    then show ?thesis using assms(1) by (simp add: serve_mux_def handler_leaves_def)
  next
    case (Some rt)
    then have "rt \<in> set rs" by (auto simp: find_Some_iff)
    with Some assms(2) show ?thesis by (cases rt) (force simp: serve_mux_def handler_leaves_def)
  qed
  then show ?thesis by (simp add: handler_leaves_def)
qed

lemma recover_leaves:
  assumes "''Content-Type'' \<notin> K" "handler_leaves K nxt"
  shows "handler_leaves K (Recover nxt)"
proof (rule handler_leavesI)
  fix e r h w rep w'
  assume "Recover nxt e r h w = (rep, w')"
  with assms(1) handler_leavesD [OF assms(2)] show "leaves K (ops rep)"
    by (auto simp: Recover_def Fail_def split: prod.splits option.splits)
qed

lemma with_headers_leaves:
  assumes "K \<inter> fst ` set kvs = {}" "handler_leaves K nxt"
  shows "handler_leaves K (with_headers kvs nxt)"
proof (rule handler_leavesI)
  fix e r h w rep w'
  assume "with_headers kvs nxt e r h w = (rep, w')"
  moreover have "leaves K (map (\<lambda>(k, v). SetHeader k v) kvs)" using assms(1) by (force simp: leaves_def op_leaves_def list_all_iff)
  ultimately show "leaves K (ops rep)"
    using handler_leavesD [OF assms(2)] by (auto simp: with_headers_def split: prod.splits)
qed

lemma limit_leaves:
  assumes "K \<inter> inner_headers = {}" "handler_leaves K nxt"
  shows "handler_leaves K (RateLimit c nxt)"
proof -
  have lim: "leaves K (ops (fst (limited_reply e w)))" for e w
    using assms(1) by (simp add: limited_reply_def Fail_def inner_headers_def)
  have "leaves K (ops (fst (RateLimit c nxt e r h w)))" for e r h w
  proof (cases "allow (rate_limit_defaults c) (clientIP r (rc_trust (rate_limit_defaults c))) e w")
    case (Pair ok w1)
    with lim assms(2) show ?thesis by (cases ok) (simp_all add: RateLimit_def Let_def handler_leaves_def)
  qed
  then show ?thesis by (simp add: handler_leaves_def)
qed

lemma inner_leave:
  assumes "handler_leaves K nxt"
  shows "handler_leaves K (BodyLimit n nxt) \<and> handler_leaves K (Logger nxt)"
proof (intro conjI handler_leavesI)
  fix e r h w rep w'
  assume "Logger nxt e r h w = (rep, w')"
  then show "leaves K (ops rep)" using handler_leavesD [OF assms] by (auto simp: Logger_def split: prod.splits)
next
  fix e r h w rep w'
  assume "BodyLimit n nxt e r h w = (rep, w')"
  then show "leaves K (ops rep)" unfolding BodyLimit_def by (rule handler_leavesD [OF assms])
qed

lemma cors_leaves:
  assumes "K \<inter> inner_headers = {}" "handler_leaves K nxt"
  shows "handler_leaves K (CORS c nxt)"
proof (rule handler_leavesI)
  fix e :: env and r :: request and h w rep w'
  let ?o = "rq_header r ''Origin''"
  let ?nxt = "if rq_method r = ''OPTIONS'' then preflight c (origin_accepted e c ?o) else nxt"
  assume run: "CORS c nxt e r h w = (rep, w')"
  show "leaves K (ops rep)"
  proof (cases "?o = []")
    case True
    with run show ?thesis by (intro handler_leavesD [OF assms(2)]) (simp add: CORS_def)
  next
    case False
    have "handler_leaves K (preflight c a)" for a using assms(1) by (simp add: handler_leaves_def preflight_def inner_headers_def)
    then have "handler_leaves K ?nxt" using assms(2) by simp
    then have hl: "handler_leaves K (with_headers (cors_values e c ?o) ?nxt)"
      by (rule with_headers_leaves [rotated]) (use assms(1) in \<open>auto simp: cors_values_def inner_headers_def\<close>)
    have "with_headers (cors_values e c ?o) ?nxt e r h w = (rep, w')"
      using run False by (simp only: CORS_def Let_def if_False)
    then show ?thesis by (rule handler_leavesD [OF hl])
  qed
qed

section \<open>Every response\<close>

lemma task_routes_leave:
  assumes "K \<inter> inner_headers = {}" "rt \<in> set (task_routes s [Authenticate auth, Idempotency ttl])"
  shows "handler_leaves K (snd (snd rt))"
proof -
  note c = inner_content [OF assms(1)]
  have w: "handler_leaves K (Authenticate auth (Idempotency ttl hdl))" if "handler_leaves K hdl" for hdl
    using that by (intro authenticate_leaves idempotency_leaves c assms(1))
  show ?thesis using assms(2) unfolding task_routes_def set_simps insert_iff empty_iff Chain_Cons Chain_Nil
    by (elim disjE; simp add: w task_handlers_leave [OF c])
qed

lemma iam_routes_leave:
  assumes "''Content-Type'' \<notin> K" "rt \<in> set (iam_routes s [Authenticate auth])"
  shows "handler_leaves K (snd (snd rt))"
  using assms(2) unfolding iam_routes_def set_simps insert_iff empty_iff Chain_Cons Chain_Nil
  by (elim disjE; simp add: authenticate_leaves account_handlers_leave assms(1))

lemma app_routes_leave:
  assumes "K \<inter> inner_headers = {}" "rt \<in> set (app_routes cfg dropped e)"
  shows "handler_leaves K (snd (snd rt))"
  using assms(2) unfolding app_routes_def Let_def set_append Un_iff
  by (elim disjE)
    (auto simp: public_routes_def public_handlers_leave inner_content [OF assms(1)]
      intro: iam_routes_leave [OF inner_content [OF assms(1)]] task_routes_leave [OF assms(1)])

text \<open>The handler inside the security headers.\<close>

definition inner_app :: "config \<Rightarrow> int \<Rightarrow> handler \<Rightarrow> env \<Rightarrow> handler" where
  "inner_app cfg dropped other e =
     CORS (cf_CORS cfg) (RateLimit app_limit (BodyLimit (2 ^ 20) (Logger (serve_mux other (app_routes cfg dropped e)))))"

lemma app_layers:
  "app_handler cfg dropped other e = Correlation (Recover (SecurityHeaders DefaultSecurityHeaders (inner_app cfg dropped other e))) e"
  by (simp add: app_handler_def app_middlewares_def inner_app_def)

lemma inner_app_leaves:
  assumes "K \<inter> inner_headers = {}" "handler_leaves K other"
  shows "handler_leaves K (inner_app cfg dropped other e)"
proof -
  have "handler_leaves K (serve_mux other (app_routes cfg dropped e))"
    using assms app_routes_leave by (intro mux_leaves) auto
  then show ?thesis unfolding inner_app_def
    using assms(1) by (intro cors_leaves limit_leaves) (simp_all add: inner_leave)
qed

definition security_names :: "string set" where
  "security_names =
     {''Content-Security-Policy'', ''Strict-Transport-Security'', ''X-Frame-Options'', ''Referrer-Policy'', ''Permissions-Policy'',
      ''X-Content-Type-Options''}"

lemma security_values_names:
  "fst ` set (security_values cfg r) \<subseteq> security_names" "distinct (map fst (security_values cfg r))"
proof -
  have u: "map fst (unless_empty k v) = (if v = [] then [] else [k])" "map fst (if b then [(k, v)] else []) = (if b then [k] else [])"
    for k v :: string and b by (simp_all add: unless_empty_def)
  have "set (map fst (security_values cfg r)) \<subseteq> security_names"
    unfolding security_values_def map_append u by (simp add: security_names_def subset_iff)
  then show "fst ` set (security_values cfg r) \<subseteq> security_names" by (simp only: set_map)
  show "distinct (map fst (security_values cfg r))" unfolding security_values_def map_append u by simp
qed

lemma names_apart:
  "security_names \<inter> inner_headers = {}" "{HeaderCorrelationID, HeaderRequestID} \<inter> inner_headers = {}"
  "{HeaderCorrelationID, HeaderRequestID} \<inter> security_names = {}"
  by (simp_all add: security_names_def inner_headers_def HeaderCorrelationID_def HeaderRequestID_def)

lemma with_headers_run:
  "with_headers kvs nxt e r h w = (rep, w') \<Longrightarrow>
    \<exists>rep1. nxt e r (set_headers h kvs) w = (rep1, w') \<and> ops rep = map (\<lambda>(k, v). SetHeader k v) kvs @ ops rep1 \<and> panicked rep = panicked rep1"
  by (auto simp: with_headers_def split: prod.splits)

lemma recover_run:
  "Recover nxt e r h w = (rep, w') \<Longrightarrow>
    panicked rep = None \<and> (\<exists>rep1 w1 zs. nxt e r h w = (rep1, w1) \<and> ops rep = ops rep1 @ zs \<and>
      (''Content-Type'' \<notin> K \<longrightarrow> leaves K zs))"
  by (auto simp: Recover_def Fail_def returns_def split: prod.splits option.splits)

lemma correlation_run:
  "Correlation nxt e r h w = (rep, w') \<Longrightarrow>
    \<exists>cid w1. cid = (if validCorrelationID (sent_correlation_id r) then sent_correlation_id r else new_uuid_at e (ticks w)) \<and>
      with_headers [(HeaderCorrelationID, cid), (HeaderRequestID, cid)] nxt e (r\<lparr>rq_ctx := WithCorrelationID (rq_ctx r) cid\<rparr>) h w1 = (rep, w')"
  by (cases "validCorrelationID (sent_correlation_id r)") (auto simp: Correlation_def)

text \<open>
  C22 (every_response_marked). Whatever the request and whatever the handlers do, a panic included, the client gets a response
  that carries the correlation id of the request in both headers, that of the client when it is
  admissible and else a new one, and all the security headers, with HSTS when the request came over TLS;
  no panic leaves the server. (The router's own answers are taken to leave these headers alone.)
\<close>

theorem every_response_marked:
  assumes "app_handler cfg dropped other e r h w = (rep, w')"
    and "handler_leaves ({HeaderCorrelationID, HeaderRequestID} \<union> security_names) other"
  shows "panicked rep = None \<and>
    (let cid = (if validCorrelationID (sent_correlation_id r) then sent_correlation_id r else new_uuid_at e (ticks w)) in
      rs_headers (send h (ops rep)) HeaderCorrelationID = cid \<and> rs_headers (send h (ops rep)) HeaderRequestID = cid) \<and>
    (\<forall>(k, v) \<in> set (security_values DefaultSecurityHeaders r). rs_headers (send h (ops rep)) k = v)"
proof -
  let ?K = "{HeaderCorrelationID, HeaderRequestID} \<union> security_names"
  let ?cid = "if validCorrelationID (sent_correlation_id r) then sent_correlation_id r else new_uuid_at e (ticks w)"
  let ?ids = "[(HeaderCorrelationID, ?cid), (HeaderRequestID, ?cid)]"
  let ?r = "r\<lparr>rq_ctx := WithCorrelationID (rq_ctx r) ?cid\<rparr>"
  let ?sec = "security_values DefaultSecurityHeaders r"
  let ?app = "inner_app cfg dropped other e"
  have ct: "''Content-Type'' \<notin> ?K" by (simp add: security_names_def HeaderCorrelationID_def HeaderRequestID_def)
  from correlation_run [OF assms(1) [unfolded app_layers]] obtain w1
    where 0: "with_headers ?ids (Recover (SecurityHeaders DefaultSecurityHeaders ?app)) e ?r h w1 = (rep, w')" by blast
  from with_headers_run [OF 0] obtain rep1 where 1: "Recover (SecurityHeaders DefaultSecurityHeaders ?app) e ?r (set_headers h ?ids) w1 = (rep1, w')"
    "ops rep = map (\<lambda>(k, v). SetHeader k v) ?ids @ ops rep1" "panicked rep = panicked rep1" by (elim exE conjE)
  from recover_run [OF 1(1), of ?K] ct obtain rep2 w2 zs where 2:
    "SecurityHeaders DefaultSecurityHeaders ?app e ?r (set_headers h ?ids) w1 = (rep2, w2)" "ops rep1 = ops rep2 @ zs" "leaves ?K zs"
    and p: "panicked rep1 = None" by blast
  have "security_values DefaultSecurityHeaders ?r = ?sec" by (simp add: security_values_def)
  with 2(1) have sh: "with_headers ?sec ?app e ?r (set_headers h ?ids) w1 = (rep2, w2)" by (simp only: SecurityHeaders_def)
  from with_headers_run [OF sh] obtain rep3 where 3: "?app e ?r (set_headers (set_headers h ?ids) ?sec) w1 = (rep3, w2)"
    "ops rep2 = map (\<lambda>(k, v). SetHeader k v) ?sec @ ops rep3" by (elim exE conjE)
  have "handler_leaves ?K ?app" using names_apart assms(2) by (intro inner_app_leaves) auto
  from handler_leavesD [OF this] 3(1) have l: "leaves ?K (ops rep3 @ zs)" using 2(3) by simp
  have s: "send h (ops rep) = send (set_headers (set_headers h ?ids) ?sec) (ops rep3 @ zs)"
    unfolding 1(2) 2(2) 3(2) append_assoc send_set_headers by (rule refl)
  have get: "rs_headers (send h (ops rep)) k = set_headers (set_headers h ?ids) ?sec k" if "k \<in> ?K" for k
    unfolding s by (rule leaves_sent [OF l that])
  have "set_headers (set_headers h ?ids) ?sec k = ?cid" if "k = HeaderCorrelationID \<or> k = HeaderRequestID" for k
  proof -
    have "k \<notin> security_names" using that names_apart(3) by auto
    then have "k \<notin> fst ` set ?sec" using security_values_names(1) [of DefaultSecurityHeaders r] by (rule contra_subsetD [rotated])
    then have "set_headers (set_headers h ?ids) ?sec k = set_headers h ?ids k" by (rule set_headers_other)
    also have "\<dots> = ?cid" using that by (intro set_headers_get) (auto simp: HeaderCorrelationID_def HeaderRequestID_def)
    finally show ?thesis .
  qed
  then have ids: "rs_headers (send h (ops rep)) HeaderCorrelationID = ?cid" "rs_headers (send h (ops rep)) HeaderRequestID = ?cid"
    using get by (simp_all del: if_split)
  have sec: "rs_headers (send h (ops rep)) k = v" if kv: "(k, v) \<in> set ?sec" for k v
  proof -
    have "k \<in> security_names" using security_values_names(1) [of DefaultSecurityHeaders r] kv by (force simp: image_subset_iff)
    then show ?thesis using get [of k] set_headers_get [OF kv security_values_names(2)] by simp
  qed
  then have "\<forall>(k, v) \<in> set ?sec. rs_headers (send h (ops rep)) k = v" by fast
  with p 1(3) ids show ?thesis unfolding Let_def by (simp only: simp_thms)
qed

text \<open>A router that panics on what it does not know.\<close>

definition broken_router :: handler where
  "broken_router e r h w = (\<lparr>ops = [], panicked = Some ''no route''\<rparr>, w)"

definition sample_config :: config where
  "sample_config = Config_Get (calm DriverSQLite) (\<lambda>_. None) (\<lambda>_. [])"

theorem every_response_marked_witness:
  "\<exists>rep w'. app_handler sample_config 0 broken_router (calm DriverSQLite) sample_request no_headers sample_world = (rep, w') \<and>
    panicked rep = None \<and> rs_headers (send no_headers (ops rep)) HeaderRequestID = new_uuid_at (calm DriverSQLite) (ticks sample_world) \<and>
    rs_headers (send no_headers (ops rep)) ''X-Frame-Options'' = ''DENY''"
proof -
  obtain rep w' where run: "app_handler sample_config 0 broken_router (calm DriverSQLite) sample_request no_headers sample_world = (rep, w')"
    by fastforce
  have l: "handler_leaves ({HeaderCorrelationID, HeaderRequestID} \<union> security_names) broken_router"
    by (simp add: handler_leaves_def broken_router_def)
  have v: "\<not> validCorrelationID (sent_correlation_id sample_request)"
    by (simp add: sent_correlation_id_def sample_request_def validCorrelationID_def HeaderCorrelationID_def HeaderRequestID_def)
  have x: "(''X-Frame-Options'', ''DENY'') \<in> set (security_values DefaultSecurityHeaders sample_request)"
    by (simp add: security_values_def unless_empty_def DefaultSecurityHeaders_def)
  from every_response_marked [OF run l] run v x show ?thesis by (auto simp: Let_def)
qed

section \<open>Origins\<close>

text \<open>
  C39 (cors_grants). To a request with an origin the response names \<open>*\<close> when that is on the list and credentials are off,
  and otherwise the origin itself when it is on the list, in any case of its letters, and nothing else;
  credentials are granted exactly to a listed origin when they are on, so that they come with \<open>*\<close> only
  to a request whose origin is the text \<open>*\<close>. A preflight is answered without the handlers, 204 where the
  origin is accepted and 403 elsewhere.
\<close>

theorem cors_grants:
  assumes "CORS c nxt e r h w = (rep, w')"
    and "handler_leaves {''Access-Control-Allow-Origin'', ''Access-Control-Allow-Credentials''} nxt"
    and "h ''Access-Control-Allow-Origin'' = []" "h ''Access-Control-Allow-Credentials'' = []"
  shows "let origin = rq_header r ''Origin''; sent = rs_headers (send h (ops rep));
      listed = allowed_origin e c (to_lower e origin); anyone = (allowed_origin e c ''*'' \<and> \<not> AllowCredentials c) in
    sent ''Access-Control-Allow-Origin'' =
      (if origin = [] then [] else if anyone then ''*'' else if listed then origin else []) \<and>
    sent ''Access-Control-Allow-Credentials'' = (if origin \<noteq> [] \<and> listed \<and> AllowCredentials c then ''true'' else []) \<and>
    (sent ''Access-Control-Allow-Credentials'' \<noteq> [] \<and> sent ''Access-Control-Allow-Origin'' = ''*'' \<longrightarrow> origin = ''*'') \<and>
    (origin \<noteq> [] \<and> rq_method r = ''OPTIONS'' \<longrightarrow>
      (\<forall>nxt2. CORS c nxt2 e r h w = (rep, w')) \<and>
      rs_status (send h (ops rep)) = (if anyone \<or> listed then 204 else 403))"
proof -
  let ?o = "rq_header r ''Origin''"
  let ?K = "{''Access-Control-Allow-Origin'', ''Access-Control-Allow-Credentials''}"
  let ?nxt = "if rq_method r = ''OPTIONS'' then preflight c (origin_accepted e c ?o) else nxt"
  show ?thesis
  proof (cases "?o = []")
    case True
    then have "nxt e r h w = (rep, w')" using assms(1) by (simp add: CORS_def)
    from leaves_sent [OF handler_leavesD [OF assms(2) this]] True assms(3,4) show ?thesis by (simp add: Let_def)
  next
    case False
    have wh: "with_headers (cors_values e c ?o) ?nxt e r h w = (rep, w')"
      using assms(1) False by (simp only: CORS_def Let_def if_False)
    from with_headers_run [OF wh] obtain rep1 where n: "?nxt e r (set_headers h (cors_values e c ?o)) w = (rep1, w')"
      "ops rep = map (\<lambda>(k, v). SetHeader k v) (cors_values e c ?o) @ ops rep1" by (elim exE conjE)
    have "handler_leaves ?K (preflight c a)" for a by (simp add: handler_leaves_def preflight_def)
    then have "handler_leaves ?K ?nxt" using assms(2) by simp
    from handler_leavesD [OF this] n(1) have l: "leaves ?K (ops rep1)" by blast
    have sent: "rs_headers (send h (ops rep)) k = set_headers h (cors_values e c ?o) k" if "k \<in> ?K" for k
      unfolding n(2) send_set_headers by (rule leaves_sent [OF l that])
    have "rs_status (send h (ops rep)) = (if origin_accepted e c ?o then 204 else 403)" if "rq_method r = ''OPTIONS''"
      unfolding n(2) send_set_headers using n(1) that
      by (auto simp: preflight_def returns_def send_def open_conn_def Let_def answered_with_def Fail_def JSON_reply_def split: if_splits)
    moreover have "CORS c nxt2 e r h w = (rep, w')" if "rq_method r = ''OPTIONS''" for nxt2
      using wh that False by (simp add: CORS_def)
    ultimately show ?thesis
      using sent assms(3,4) False
      by (simp add: Let_def set_headers_def cors_values_def wildcard_def origin_accepted_def split del: if_split cong: if_cong)
        (auto split: if_split)
  qed
qed

definition sample_cors :: cors_config where
  "sample_cors = \<lparr>AllowedOrigins = [], AllowedMethods = [''GET''], AllowedHeaders = [], AllowCredentials = True, MaxAge = 60\<rparr>"

definition from_origin :: "string \<Rightarrow> request" where
  "from_origin origin = sample_request\<lparr>rq_header := (\<lambda>k. if k = ''Origin'' then origin else [])\<rparr>"

theorem cors_grants_witness:
  "rs_headers (send no_headers (ops (fst (CORS sample_cors broken_router (calm DriverSQLite) (from_origin ''http://b'') no_headers sample_world))))
     ''Access-Control-Allow-Credentials'' = []"
proof -
  let ?e = "calm DriverSQLite" and ?r = "from_origin ''http://b''"
  obtain rep w' where run: "CORS sample_cors broken_router ?e ?r no_headers sample_world = (rep, w')" by fastforce
  have l: "handler_leaves K broken_router" for K by (simp add: handler_leaves_def broken_router_def)
  have n: "no_headers k = []" for k by (simp add: no_headers_def)
  have o: "rq_header ?r ''Origin'' = ''http://b''" by (simp add: from_origin_def)
  have n1: "\<not> allowed_origin ?e sample_cors (to_lower ?e ''http://b'')" by (simp add: allowed_origin_def sample_cors_def)
  from cors_grants [where h = no_headers, OF run l n n, unfolded Let_def o, THEN conjunct2, THEN conjunct1] n1
  show ?thesis unfolding run fst_conv by simp
qed

section \<open>Long correlation ids\<close>

text \<open>The outbox keeps 36 characters of a correlation id on PostgreSQL; the middleware admits 64.\<close>

lemma valid_id_ascii:
  assumes "validCorrelationID cid"
  shows "ascii cid"
proof -
  have "byte_of c < (0x80 :: nat)" if "correlation_char c" for c
    using that by (auto simp: correlation_char_def less_eq_char_def)
  with assms show ?thesis by (auto simp: validCorrelationID_def ascii_def list_all_iff)
qed

definition long_id :: "env \<Rightarrow> ctx \<Rightarrow> bool" where
  "long_id e c \<longleftrightarrow> driver_of e = DriverPostgres \<and> validCorrelationID (GetCorrelationID c) \<and> 36 < length (GetCorrelationID c)"

lemma long_id_Add:
  assumes "long_id e c"
  shows "Add c ty p e w \<noteq> (Done u, w')"
proof
  assume "Add c ty p e w = (Done u, w')"
  moreover have "GetCorrelationID c \<noteq> []" using assms by (auto simp: long_id_def)
  moreover have "\<not> varchar 36 (GetCorrelationID c)"
    using assms runes_ascii [OF valid_id_ascii] by (simp add: varchar_def long_id_def)
  ultimately show False using assms
    by (auto simp: new_outbox_row_def long_id_def dest!: Add_DoneD insert_outbox_InrD)
qed

text \<open>A call that does not succeed and leaves the tables alone, and the answer it gets.\<close>

definition declined :: "'a act \<Rightarrow> env \<Rightarrow> bool" where
  "declined m e \<longleftrightarrow> (\<forall>w. effect (\<lambda>_ _ _. False) (dbase w) (fst (m e w)) (dbase (snd (m e w))))"

lemma declined_throw: "declined (throw err) e"
  by (simp add: declined_def effect_def act_simps)

lemma declined_tx: "(\<And>w1 w2 a. fn e w1 \<noteq> (Done a, w2)) \<Longrightarrow> declined (map_error f (ExecTx fn)) e"
  unfolding declined_def using service_tx [OF surjective_pairing, where R = "\<lambda>_ _ _. False"] by blast

lemma long_id_services:
  assumes "long_id e c"
  shows "declined (Service_Create s c uid input) e \<and> declined (Service_Update s c uid pid input) e \<and>
    declined (Service_Assign s c uid pid a) e \<and> declined (Service_Delete s c uid pid) e"
proof -
  note no = long_id_Add [OF assms]
  have "create_tx s c uid i e w1 \<noteq> (Done t, w2)" for i t w1 w2 using no by (auto simp: create_tx_def elim!: bind_act_DoneD)
  moreover have "update_tx s c uid pid i e w1 \<noteq> (Done t, w2)" for i t w1 w2 using no by (auto simp: update_tx_def elim!: bind_act_DoneD)
  moreover have "assign_tx s c uid pid a e w1 \<noteq> (Done t, w2)" for t w1 w2 using no by (auto simp: assign_tx_def elim!: bind_act_DoneD)
  moreover have "delete_tx s c uid pid e w1 \<noteq> (Done t, w2)" for t w1 w2 using no by (auto simp: delete_tx_def elim!: bind_act_DoneD)
  ultimately show ?thesis
    by (simp add: Service_Create_def Service_Update_def Service_Assign_def Service_Delete_def Let_def declined_throw declined_tx)
qed

definition rejects :: "reply \<times> world \<Rightarrow> world \<Rightarrow> bool" where
  "rejects out w \<longleftrightarrow> dbase (snd out) = dbase w \<and> (\<forall>h. panicked (fst out) = None \<longrightarrow> 400 \<le> rs_status (send h (ops (fst out))))"

lemma HTTPStatus_error: "400 \<le> HTTPStatus c"
  by (simp add: HTTPStatus_def)

lemma rejects_Fail: "400 \<le> st \<Longrightarrow> rejects (answered_with (Fail st c m e w)) w"
  by (simp add: rejects_def answered_with_def send_Fail [unfolded fst_def] Fail_def returns_def)

lemma rejects_declined: "declined m e \<Longrightarrow> rejects (respond fb reply m e w) w"
proof -
  assume d: "declined m e"
  obtain res w1 where m: "m e w = (res, w1)" by fastforce
  with d have "\<forall>a. res \<noteq> Done a" "dbase w1 = dbase w" by (auto simp: declined_def effect_def dest!: spec [of _ w])
  moreover have "rejects (answered_with (WriteAppError err fb e w1)) w1" for err
    by (simp add: WriteAppError_def rejects_Fail HTTPStatus_error split: option.splits)
  ultimately show ?thesis using m by (cases res) (auto simp: respond_def rejects_def)
qed

definition task_changes :: "task_service \<Rightarrow> handler list" where
  "task_changes s = [Handler_Create s, Handler_Update s, Handler_Assign s, Handler_Delete s]"

lemma rejects_guarded:
  assumes "\<And>xs w1. p e w = (Inl xs, w1) \<Longrightarrow> rejects (returns xs, w1) w" "\<And>a w1. p e w = (Inr a, w1) \<Longrightarrow> w1 = w"
    and "\<And>a. rejects (k a e w) w"
  shows "rejects (guarded_by p k e w) w"
proof (cases "p e w")
  case (Pair res w1)
  then show ?thesis using assms by (cases res) (auto simp: guarded_by_def)
qed

lemma rejects_Decode:
  "Decode dec r e w = (Inl xs, w1) \<Longrightarrow> rejects (returns xs, w1) w" "Decode dec r e w = (Inr a, w1) \<Longrightarrow> w1 = w"
  by (auto simp: Decode_def Let_def Fail_def rejects_def returns_def split: scan.splits option.splits if_splits)

lemma rejects_parseID:
  "parseID r e w = (Inl xs, w1) \<Longrightarrow> rejects (returns xs, w1) w" "parseID r e w = (Inr a, w1) \<Longrightarrow> w1 = w"
  by (auto simp: parseID_def Fail_def rejects_def returns_def split: option.splits)

lemma long_id_handlers:
  assumes "long_id e (rq_ctx r)" "hdl \<in> set (task_changes s)"
  shows "rejects (hdl e r h w) w"
proof -
  note d = long_id_services [OF assms(1)]
  have "rejects (Handler_Create s e r h w) w" unfolding Handler_Create_def
    by (intro rejects_guarded rejects_declined; simp add: rejects_Decode d)
  moreover have "rejects (Handler_Update s e r h w) w" unfolding Handler_Update_def
    by (intro rejects_guarded rejects_declined; simp add: rejects_Decode rejects_parseID d)
  moreover have "rejects (Handler_Assign s e r h w) w" unfolding Handler_Assign_def
    by (intro rejects_guarded; simp add: rejects_Decode rejects_parseID d rejects_declined invalid_def rejects_Fail)
  moreover have "rejects (Handler_Delete s e r h w) w" unfolding Handler_Delete_def
    by (intro rejects_guarded rejects_declined; simp add: rejects_parseID d)
  ultimately show ?thesis using assms(2) by (auto simp: task_changes_def)
qed

text \<open>
  C38 (long_correlation_id_refused). On PostgreSQL a request that changes a task is answered with an error and changes nothing when its
  correlation id has 37 to 64 characters, although the middleware admits it: the column of the outbox
  is \<open>VARCHAR(36)\<close>, and the failing insert rolls the change back.
\<close>

theorem long_correlation_id_refused:
  assumes "driver_of e = DriverPostgres" "validCorrelationID (sent_correlation_id r)" "36 < length (sent_correlation_id r)"
    and "hdl \<in> set (task_changes s)" "Correlation hdl e r h w = (rep, w')"
  shows "dbase w' = dbase w \<and> (panicked rep = None \<longrightarrow> 400 \<le> rs_status (send h (ops rep)))"
proof -
  let ?cid = "sent_correlation_id r"
  let ?ids = "[(HeaderCorrelationID, ?cid), (HeaderRequestID, ?cid)]" and ?r = "r\<lparr>rq_ctx := WithCorrelationID (rq_ctx r) ?cid\<rparr>"
  have wh: "with_headers ?ids hdl e ?r h w = (rep, w')" using assms(2,5) by (simp add: Correlation_def)
  from with_headers_run [OF wh] obtain rep1 where n: "hdl e ?r (set_headers h ?ids) w = (rep1, w')"
    "ops rep = map (\<lambda>(k, v). SetHeader k v) ?ids @ ops rep1" "panicked rep = panicked rep1" by (elim exE conjE)
  have "long_id e (rq_ctx ?r)" using assms(1-3) by (simp add: long_id_def GetCorrelationID_def WithCorrelationID_def)
  from long_id_handlers [OF this assms(4), of "set_headers h ?ids" w] n show ?thesis
    unfolding n(2) send_set_headers by (simp add: rejects_def)
qed

definition long_id_request :: request where
  "long_id_request = sample_request\<lparr>rq_header := (\<lambda>k. if k = HeaderCorrelationID then replicate 37 CHR ''a'' else [])\<rparr>"

theorem long_correlation_id_refused_witness:
  "dbase (snd (Correlation (Handler_Create (NewService (calm DriverPostgres))) (calm DriverPostgres) long_id_request no_headers sample_world)) =
     dbase sample_world"
proof -
  let ?H = "Handler_Create (NewService (calm DriverPostgres))"
  obtain rep w' where run: "Correlation ?H (calm DriverPostgres) long_id_request no_headers sample_world = (rep, w')" by fastforce
  have s: "sent_correlation_id long_id_request = replicate 37 CHR ''a''"
    by (simp add: sent_correlation_id_def long_id_request_def validCorrelationID_def maxCorrelationBytes_def list_all_iff correlation_char_def)
  have v: "validCorrelationID (replicate 37 CHR ''a'')"
    by (simp add: validCorrelationID_def maxCorrelationBytes_def list_all_iff correlation_char_def)
  have m: "?H \<in> set (task_changes (NewService (calm DriverPostgres)))" by (simp add: task_changes_def)
  have "dbase w' = dbase sample_world"
    by (rule conjunct1 [OF long_correlation_id_refused [OF _ _ _ m run]]) (simp_all add: s v)
  then show ?thesis by (simp only: run snd_conv)
qed

end
