(* ===== verification/App_Guarantees.thy ===== *)
theory App_Guarantees
  imports App_Responses Account_Guarantees
begin

text \<open>What the server as a whole promises about every request.\<close>

section \<open>Who may change the tables\<close>

text \<open>The two requests that need no session, and the requests whose token is good when it is looked at.\<close>

definition signs_in :: "request \<Rightarrow> bool" where
  "signs_in r \<longleftrightarrow> rq_method r = ''POST'' \<and>
     path_segments r \<in> {[''api'', ''v1'', ''auth'', ''register''], [''api'', ''v1'', ''auth'', ''login'']}"

definition authority :: "config \<Rightarrow> env \<Rightarrow> request \<Rightarrow> world \<Rightarrow> bool" where
  "authority cfg e r w \<longleftrightarrow> signs_in r \<or>
     (\<exists>w1 u. dbase w1 = dbase w \<and> ticks w \<le> ticks w1 \<and> tx_now w1 = tx_now w \<and>
        has_prefix (rq_header r ''Authorization'') ''Bearer '' \<and>
        vouched store_now (app_tokens cfg) e w1 (bearer_token (rq_header r ''Authorization'')) u)"

definition changes_need_it :: "config \<Rightarrow> env \<Rightarrow> handler \<Rightarrow> bool" where
  "changes_need_it cfg e hdl \<longleftrightarrow>
     (\<forall>r h w rep w'. hdl e r h w = (rep, w') \<longrightarrow> dbase w' \<noteq> dbase w \<longrightarrow> authority cfg e r w)"

lemma changes_needD: "changes_need_it cfg e hdl \<Longrightarrow> hdl e r h w = (rep, w') \<Longrightarrow> dbase w' \<noteq> dbase w \<Longrightarrow> authority cfg e r w"
  by (simp add: changes_need_it_def)

text \<open>A middleware may change the context and the limit of a request, and let time pass.\<close>

lemma authority_before:
  assumes "authority cfg e r' w1" "rq_method r' = rq_method r" "rq_path r' = rq_path r" "rq_header r' = rq_header r"
    and "dbase w1 = dbase w" "ticks w \<le> ticks w1" "tx_now w1 = tx_now w"
  shows "authority cfg e r w"
proof (cases "signs_in r'")
  case True
  then show ?thesis using assms(2,3) by (simp add: authority_def signs_in_def path_segments_def)
next
  case False
  with assms(1) obtain w2 u where "dbase w2 = dbase w1" "ticks w1 \<le> ticks w2" "tx_now w2 = tx_now w1"
    "has_prefix (rq_header r' ''Authorization'') ''Bearer ''" "vouched store_now (app_tokens cfg) e w2 (bearer_token (rq_header r' ''Authorization'')) u"
    unfolding authority_def by blast
  with assms(4-7) have "dbase w2 = dbase w \<and> ticks w \<le> ticks w2 \<and> tx_now w2 = tx_now w \<and> has_prefix (rq_header r ''Authorization'') ''Bearer '' \<and>
      vouched store_now (app_tokens cfg) e w2 (bearer_token (rq_header r ''Authorization'')) u" by simp
  then show ?thesis unfolding authority_def by blast
qed

lemma with_headers_need: "changes_need_it cfg e nxt \<Longrightarrow> changes_need_it cfg e (with_headers kvs nxt)"
  by (auto simp: changes_need_it_def with_headers_def split: prod.splits)

lemma correlation_need:
  assumes "changes_need_it cfg e nxt"
  shows "changes_need_it cfg e (Correlation nxt)"
  unfolding changes_need_it_def
proof (intro allI impI)
  fix r h w rep w'
  assume run: "Correlation nxt e r h w = (rep, w')" and ch: "dbase w' \<noteq> dbase w"
  obtain cid w1 where run1: "with_headers [(HeaderCorrelationID, cid), (HeaderRequestID, cid)] nxt e
        (r\<lparr>rq_ctx := WithCorrelationID (rq_ctx r) cid\<rparr>) h w1 = (rep, w')"
    and w1: "dbase w1 = dbase w" "ticks w \<le> ticks w1" "tx_now w1 = tx_now w"
  proof (cases "validCorrelationID (sent_correlation_id r)")
    case True
    with run show ?thesis by (intro that [of "sent_correlation_id r" w]) (simp_all add: Correlation_def)
  next
    case False
    with run show ?thesis by (intro that [of "new_uuid_at e (ticks w)" "tick w"]) (simp_all add: Correlation_def)
  qed
  from ch w1(1) have "dbase w' \<noteq> dbase w1" by simp
  with run1 have "authority cfg e (r\<lparr>rq_ctx := WithCorrelationID (rq_ctx r) cid\<rparr>) w1"
    by (rule changes_needD [OF with_headers_need [OF assms]])
  then show "authority cfg e r w" by (rule authority_before) (simp_all add: w1)
qed

lemma recover_need: "changes_need_it cfg e nxt \<Longrightarrow> changes_need_it cfg e (Recover nxt)"
  by (auto simp: changes_need_it_def Recover_def Fail_def split: prod.splits option.splits)

lemma security_need: "changes_need_it cfg e nxt \<Longrightarrow> changes_need_it cfg e (SecurityHeaders s nxt)"
  using with_headers_need [of cfg e nxt] by (simp add: changes_need_it_def SecurityHeaders_def)

lemma preflight_need: "changes_need_it cfg e (preflight c a)"
  by (auto simp: changes_need_it_def preflight_def answered_with_def Fail_def split: if_splits)

lemma cors_need:
  assumes "changes_need_it cfg e nxt"
  shows "changes_need_it cfg e (CORS c nxt)"
  unfolding changes_need_it_def
proof (intro allI impI)
  fix r :: request and h w rep w'
  assume run: "CORS c nxt e r h w = (rep, w')" and ch: "dbase w' \<noteq> dbase w"
  show "authority cfg e r w"
  proof (cases "rq_header r ''Origin'' = []")
    case True
    with run have "nxt e r h w = (rep, w')" by (simp add: CORS_def)
    then show ?thesis using ch by (rule changes_needD [OF assms])
  next
    case False
    let ?o = "rq_header r ''Origin''"
    let ?nxt = "if rq_method r = ''OPTIONS'' then preflight c (origin_accepted e c ?o) else nxt"
    have need: "changes_need_it cfg e ?nxt" using assms preflight_need by simp
    have "with_headers (cors_values e c ?o) ?nxt e r h w = (rep, w')"
      using run False by (simp only: CORS_def Let_def if_False)
    then show ?thesis using ch by (rule changes_needD [OF with_headers_need [OF need]])
  qed
qed

lemma limit_need:
  assumes "changes_need_it cfg e nxt"
  shows "changes_need_it cfg e (RateLimit c nxt)"
  unfolding changes_need_it_def
proof (intro allI impI)
  fix r h w rep w'
  assume run: "RateLimit c nxt e r h w = (rep, w')" and ch: "dbase w' \<noteq> dbase w"
  obtain ok w1 where a: "allow (rate_limit_defaults c) (clientIP r (rc_trust (rate_limit_defaults c))) e w = (ok, w1)" by fastforce
  then have w1: "dbase w1 = dbase w" "ticks w \<le> ticks w1" "tx_now w1 = tx_now w" by (auto simp: allow_def Let_def split: if_splits)
  show "authority cfg e r w"
  proof (cases "list_ex (has_prefix (rq_path r)) (rc_skip (rate_limit_defaults c))")
    case True
    then show ?thesis using run ch changes_needD [OF assms] by (simp add: RateLimit_def Let_def)
  next
    case False
    with run a ch w1 have ok: "nxt e r h w1 = (rep, w')"
      by (cases ok) (auto simp: RateLimit_def Let_def limited_reply_def Fail_def)
    from changes_needD [OF assms this] ch w1(1) have "authority cfg e r w1" by simp
    then show ?thesis by (rule authority_before) (simp_all add: w1)
  qed
qed

lemma body_limit_need:
  assumes "changes_need_it cfg e nxt"
  shows "changes_need_it cfg e (BodyLimit n nxt)"
  unfolding changes_need_it_def
proof (intro allI impI)
  fix r h w rep w'
  assume "BodyLimit n nxt e r h w = (rep, w')" and ch: "dbase w' \<noteq> dbase w"
  then have "nxt e (r\<lparr>rq_limit := Some n\<rparr>) h w = (rep, w')" by (simp add: BodyLimit_def)
  from changes_needD [OF assms this ch] show "authority cfg e r w" by (rule authority_before) simp_all
qed

lemma logger_need:
  assumes "changes_need_it cfg e nxt"
  shows "changes_need_it cfg e (Logger nxt)"
  unfolding changes_need_it_def
proof (intro allI impI)
  fix r h w rep w'
  assume run: "Logger nxt e r h w = (rep, w')" and ch: "dbase w' \<noteq> dbase w"
  obtain rep1 w1 where n: "nxt e r h (tick w) = (rep1, w1)" by fastforce
  with run ch have "dbase w1 \<noteq> dbase (tick w)" by (auto simp: Logger_def split: if_splits)
  from changes_needD [OF assms n this] show "authority cfg e r w" by (rule authority_before) simp_all
qed

text \<open>The routes.\<close>

lemma authenticated_requests:
  assumes "Authenticate (Service_Authenticate (iam_NewService (iam_NewStore e) tm)) nxt e r h w = (rep, w')"
  shows "rs_status (send h (ops rep)) = 401 \<and> panicked rep = None \<and> dbase w' = dbase w \<or>
    (\<exists>u w1. has_prefix (rq_header r ''Authorization'') ''Bearer '' \<and>
      vouched store_now tm e w (bearer_token (rq_header r ''Authorization'')) u \<and> dbase w1 = dbase w \<and> tx_now w1 = tx_now w \<and>
      nxt e (r\<lparr>rq_ctx := WithUser (rq_ctx r) (Some u)\<rparr>) h w1 = (rep, w'))"
proof (cases "driver_of e = DriverSQLite")
  case True
  then have "iam_NewStore e = sqliteUserStore" "vouched store_now tm e w t u = vouched sqlite_now tm e w t u" for t u
    by (simp_all add: store_cases vouched_def)
  then show ?thesis using sqlite_accounts.service.authenticated assms by simp
next
  case False
  then have "iam_NewStore e = pgUserStore" "vouched store_now tm e w t u = vouched pg_now tm e w t u" for t u
    by (simp_all add: store_cases vouched_def)
  then show ?thesis using pg_accounts.service.authenticated assms by simp
qed

lemma authenticated_need: "changes_need_it cfg e (Authenticate (Service_Authenticate (app_iam cfg e)) nxt)"
  unfolding changes_need_it_def
proof (intro allI impI)
  fix r h w rep w'
  assume "Authenticate (Service_Authenticate (app_iam cfg e)) nxt e r h w = (rep, w')" and ch: "dbase w' \<noteq> dbase w"
  from authenticated_requests [OF this(1) [unfolded app_iam_def]] ch
  have "\<exists>u. has_prefix (rq_header r ''Authorization'') ''Bearer '' \<and>
      vouched store_now (app_tokens cfg) e w (bearer_token (rq_header r ''Authorization'')) u" by blast
  then show "authority cfg e r w" by (auto simp: authority_def)
qed

lemma match_literals: "match_segments (map Literal xs) ys \<longleftrightarrow> ys = xs"
  by (induction xs arbitrary: ys) (case_tac ys; auto)+

lemma open_routes:
  assumes "route_matches r (''POST'', api [''auth'', x], hdl)" "x = ''register'' \<or> x = ''login''"
  shows "authority cfg e r w"
proof -
  from assms(1) have "rq_method r = ''POST''" "path_segments r = [''api'', ''v1'', ''auth'', x]"
    by (simp_all add: route_matches_def method_matches_def api_def match_literals del: list.map)
  with assms(2) show ?thesis by (auto simp: authority_def signs_in_def)
qed

definition route_needs_it :: "config \<Rightarrow> env \<Rightarrow> route \<Rightarrow> bool" where
  "route_needs_it cfg e rt \<longleftrightarrow>
     (\<forall>r. route_matches r rt \<longrightarrow> (\<forall>h w rep w'. snd (snd rt) e r h w = (rep, w') \<longrightarrow> dbase w' \<noteq> dbase w \<longrightarrow> authority cfg e r w))"

lemma route_by_handler: "changes_need_it cfg e hdl \<Longrightarrow> route_needs_it cfg e (m, ps, hdl)"
  by (simp add: route_needs_it_def changes_need_it_def)

lemma route_by_path: "x = ''register'' \<or> x = ''login'' \<Longrightarrow> route_needs_it cfg e (''POST'', api [''auth'', x], hdl)"
  unfolding route_needs_it_def using open_routes by blast

lemma public_need: "rt \<in> set (public_routes dropped) \<Longrightarrow> route_needs_it cfg e rt"
proof -
  have "changes_need_it cfg e HealthLiveness" "changes_need_it cfg e HealthReadiness" "changes_need_it cfg e (Metrics dropped)"
    by (auto simp: changes_need_it_def HealthLiveness_def HealthReadiness_def Metrics_def answered_with_def Fail_def split: option.splits)
  then show "rt \<in> set (public_routes dropped) \<Longrightarrow> route_needs_it cfg e rt"
    by (auto simp: public_routes_def intro: route_by_handler)
qed

lemma guarded_need: "changes_need_it cfg e (Chain hdl (Authenticate (Service_Authenticate (app_iam cfg e)) # ms))"
  by (simp add: Chain_def authenticated_need)

lemma routes_need:
  assumes "rt \<in> set (app_routes cfg dropped e)"
  shows "route_needs_it cfg e rt"
proof -
  let ?auth = "Authenticate (Service_Authenticate (app_iam cfg e))"
  have "rt \<in> set (public_routes dropped) \<or> rt \<in> set (iam_routes (app_iam cfg e) [?auth]) \<or>
      rt \<in> set (task_routes (NewService e) [?auth, Idempotency (cf_IdempotencyTTL cfg)])"
    using assms by (simp only: app_routes_def Let_def set_append Un_iff)
  moreover have "route_needs_it cfg e rt" if "rt \<in> set (iam_routes (app_iam cfg e) [?auth])"
    using that unfolding iam_routes_def set_simps insert_iff empty_iff
    by (elim disjE; simp only: route_by_path route_by_handler [OF guarded_need] simp_thms)
  moreover have "route_needs_it cfg e rt" if "rt \<in> set (task_routes (NewService e) [?auth, Idempotency (cf_IdempotencyTTL cfg)])"
    using that unfolding task_routes_def set_simps insert_iff empty_iff
    by (elim disjE; simp only: route_by_handler [OF guarded_need] simp_thms)
  ultimately show ?thesis using public_need by blast
qed

lemma mux_need:
  assumes rs: "\<And>rt. rt \<in> set rs \<Longrightarrow> route_needs_it cfg e rt"
    and other: "\<forall>r h w. dbase (snd (other e r h w)) = dbase w"
  shows "changes_need_it cfg e (serve_mux other rs)"
  unfolding changes_need_it_def
proof (intro allI impI)
  fix r :: request and h w rep w'
  assume run: "serve_mux other rs e r h w = (rep, w')" and ch: "dbase w' \<noteq> dbase w"
  show "authority cfg e r w"
  proof (cases "find (route_matches r) rs")
    case None
    with run have "other e r h w = (rep, w')" by (simp add: serve_mux_def)
    with other ch show ?thesis by (metis snd_conv)
  next
    case (Some rt)
    obtain m ps hdl where rt: "rt = (m, ps, hdl)" by (cases rt) auto
    let ?r = "r\<lparr>rq_path_value := path_value ps (path_segments r)\<rparr>"
    have "hdl e ?r h w = (rep, w')" using run Some rt by (simp add: serve_mux_def)
    moreover have "route_matches ?r rt" "rt \<in> set rs"
      using Some by (auto simp: find_Some_iff route_matches_def path_segments_def intro: nth_mem)
    ultimately have "authority cfg e ?r w" using rs ch by (auto simp: route_needs_it_def rt)
    then show ?thesis by (rule authority_before) simp_all
  qed
qed

text \<open>C3 (changes_need_authority). Nothing but a request to register or to log in, or a request whose bearer token is
  signed by this server, names an unrevoked session and has not run out, changes
  any table: whatever the path, the method, the headers and the body, through all the middlewares, the
  router and both modules. (The router's own answers are taken to change no table.)\<close>

theorem changes_need_authority:
  assumes "app_handler cfg dropped other e r h w = (rep, w')"
    and "\<forall>r h w. dbase (snd (other e r h w)) = dbase w"
  shows "dbase w' = dbase w \<or> authority cfg e r w"
proof -
  have "changes_need_it cfg e (serve_mux other (app_routes cfg dropped e))"
    using routes_need assms(2) by (rule mux_need)
  then have "changes_need_it cfg e (Chain (serve_mux other (app_routes cfg dropped e)) (app_middlewares cfg))"
    by (simp add: app_middlewares_def correlation_need recover_need security_need cors_need limit_need body_limit_need logger_need)
  from changes_needD [OF this] assms(1) show ?thesis unfolding app_handler_def by blast
qed

definition anonymous_creation :: request where
  "anonymous_creation = sample_request\<lparr>rq_path := ''/api/v1/tasks''\<rparr>"

theorem changes_need_authority_witness:
  "dbase (snd (app_handler sample_config 0 broken_router (calm DriverSQLite) anonymous_creation no_headers sample_world)) = dbase sample_world"
proof -
  let ?r = anonymous_creation
  obtain rep w' where run: "app_handler sample_config 0 broken_router (calm DriverSQLite) ?r no_headers sample_world = (rep, w')"
    by fastforce
  have "path_segments ?r = [''api'', ''v1'', ''tasks'']" "rq_header ?r ''Authorization'' = []"
    by (simp_all add: path_segments_def anonymous_creation_def sample_request_def)
  then have "\<not> authority sample_config (calm DriverSQLite) ?r sample_world"
    by (simp add: authority_def signs_in_def has_prefix_def)
  moreover have "dbase w' = dbase sample_world \<or> authority sample_config (calm DriverSQLite) ?r sample_world"
    by (rule changes_need_authority [OF run]) (simp add: broken_router_def)
  ultimately show ?thesis by (simp add: run)
qed

end
