(* ===== verification/Sqlite_Time.thy ===== *)
theory Sqlite_Time
  imports Go_Time
begin

text \<open>
  Times as SQLite keeps them (\<open>internal/platform/db/sqlite_time.go\<close>): the text has a fixed width, so
  comparing texts is comparing times, and reading the text gives the time back. This is why the
  tables of this development keep numbers.
\<close>

section \<open>Texts of fixed width\<close>

lemma append_less_append:
  fixes xs :: "'a::linorder list"
  assumes "length xs = length xs'"
  shows "xs @ ys < xs' @ ys' \<longleftrightarrow> xs < xs' \<or> xs = xs' \<and> ys < ys'"
  using assms by (induction xs xs' rule: list_induct2) auto

lemma byte_less: "m < 256 \<Longrightarrow> n < 256 \<Longrightarrow> byte m < byte n \<longleftrightarrow> m < n"
  by (simp add: less_char_def)

lemma show_fixed_eq: "m < 10 ^ w \<Longrightarrow> n < 10 ^ w \<Longrightarrow> show_fixed w m = show_fixed w n \<longleftrightarrow> m = n"
  by (metis nat_of_show_fixed)

lemma digits_less:
  fixes m n k :: nat
  shows "m < n \<longleftrightarrow> m div k < n div k \<or> m div k = n div k \<and> m mod k < n mod k"
proof -
  have m: "m = k * (m div k) + m mod k" and n: "n = k * (n div k) + n mod k" by simp_all
  show ?thesis
  proof (cases "m div k = n div k")
    case True
    with m n have "m < n \<longleftrightarrow> m mod k < n mod k" by (metis add_less_cancel_left)
    with True show ?thesis by simp
  next
    case False
    then show ?thesis using div_le_mono [of m n k] div_le_mono [of n m k] by (metis le_antisym nat_le_linear not_le)
  qed
qed

lemma show_fixed_less: "m < 10 ^ w \<Longrightarrow> n < 10 ^ w \<Longrightarrow> show_fixed w m < show_fixed w n \<longleftrightarrow> m < n"
proof (induction w arbitrary: m n)
  case (Suc w)
  have b: "m div 10 < 10 ^ w" "n div 10 < 10 ^ w" using Suc.prems by (simp_all add: less_mult_imp_div_less mult.commute)
  have "byte (48 + a) < byte (48 + c) \<longleftrightarrow> a < c" if "a < 10" "c < 10" for a c using byte_less [of "48 + a" "48 + c"] that by linarith
  then have d: "byte (48 + m mod 10) < byte (48 + n mod 10) \<longleftrightarrow> m mod 10 < n mod 10" by (meson mod_less_divisor zero_less_numeral)
  have "m < n \<longleftrightarrow> m div 10 < n div 10 \<or> m div 10 = n div 10 \<and> m mod 10 < n mod 10" by (rule digits_less)
  then show ?case using Suc.IH [OF b] show_fixed_eq [OF b] d by (simp add: append_less_append)
qed simp

section \<open>The calendar\<close>

text \<open>The first day of a year, counted from the first of March of year 0 of its era.\<close>

definition year_start :: "int \<Rightarrow> int" where
  "year_start y = 365 * y + y div 4 - y div 100"

lemma minus_div_mono:
  fixes a b k :: int
  assumes "a \<le> b" "1 \<le> k"
  shows "a - a div k \<le> b - b div k"
proof -
  have "b \<le> a + (b - a) * k" using mult_left_mono [OF assms(2), of "b - a"] assms(1) by simp
  then have "b div k \<le> (a + (b - a) * k) div k" using assms(2) by (intro zdiv_mono1) simp_all
  also have "\<dots> = a div k + (b - a)" using assms(2) by simp
  finally show ?thesis by simp
qed

lemma year_of_era_mono:
  assumes "a \<le> b"
  shows "year_of_era a \<le> year_of_era b"
proof -
  have q: "x div 146096 = x div 36524 div 4" for x :: int by (simp add: zdiv_zmult2_eq [symmetric])
  have "a - a div 1460 \<le> b - b div 1460" by (rule minus_div_mono [OF assms]) simp
  moreover have "a div 36524 - a div 36524 div 4 \<le> b div 36524 - b div 36524 div 4"
    by (rule minus_div_mono) (simp_all add: zdiv_mono1 [OF assms])
  ultimately show ?thesis unfolding year_of_era_def q by (intro zdiv_mono1) simp_all
qed

lemma year_ends: "list_all (\<lambda>y. year_of_era (year_start y) = y \<and> year_of_era (year_start (y + 1) - 1) = y) [0..398]"
  by code_simp

lemma last_year: "year_of_era (year_start 399) = 399" "year_of_era 146096 = 399" "year_of_era 0 = 0" "year_start 0 = 0"
  by (simp_all add: year_of_era_def year_start_def)

lemma year_bounds:
  assumes "0 \<le> doe" "doe < 146097"
  shows "0 \<le> year_of_era doe" "year_of_era doe \<le> 399" "year_start (year_of_era doe) \<le> doe"
    "doe < year_start (year_of_era doe + 1) + (if year_of_era doe = 399 then 1 else 0)"
proof -
  let ?y = "year_of_era doe"
  have ends: "year_of_era (year_start y) = y" "year_of_era (year_start (y + 1) - 1) = y" if "0 \<le> y" "y \<le> 398" for y
    using bspec [OF year_ends [unfolded list_all_iff set_upto], of y] that by simp_all
  show y0: "0 \<le> ?y" using year_of_era_mono [OF assms(1)] last_year by simp
  show y1: "?y \<le> 399" using year_of_era_mono [of doe 146096] assms(2) last_year by simp
  show "year_start ?y \<le> doe"
  proof (rule ccontr)
    assume "\<not> year_start ?y \<le> doe"
    then have "doe \<le> year_start (?y - 1 + 1) - 1" by simp
    from year_of_era_mono [OF this] have "?y = 0" using ends(2) [of "?y - 1"] y0 y1 by (cases "?y = 0") simp_all
    with assms(1) last_year \<open>\<not> year_start ?y \<le> doe\<close> show False by simp
  qed
  show "doe < year_start (?y + 1) + (if ?y = 399 then 1 else 0)"
  proof (cases "?y = 399")
    case True
    then show ?thesis using assms(2) by (simp add: year_start_def)
  next
    case False
    have "year_of_era (year_start (?y + 1)) = ?y + 1"
    proof (cases "?y = 398")
      case True
      then show ?thesis using last_year by simp
    next
      case False
      then show ?thesis using \<open>?y \<noteq> 399\<close> y0 y1 by (intro ends) simp_all
    qed
    with year_of_era_mono [of "year_start (?y + 1)" doe] have "\<not> year_start (?y + 1) \<le> doe" by linarith
    then show ?thesis using False by simp
  qed
qed

text \<open>The steps of \<^const>\<open>civil_date\<close>: era, year, day of the year and month, all counted from the first of March.\<close>

definition march_year :: "int \<Rightarrow> int" where
  "march_year z = year_of_era (day_of_era z) + (z + 719468) div 146097 * 400"

definition march_day :: "int \<Rightarrow> int" where
  "march_day z = day_of_era z - year_start (year_of_era (day_of_era z))"

definition march_month :: "int \<Rightarrow> int" where
  "march_month z = (5 * march_day z + 2) div 153"

lemma day_of_era_bounds: "0 \<le> day_of_era z" "day_of_era z < 146097"
  by (simp_all add: day_of_era_def)

lemma march_day_bounds: "0 \<le> march_day z" "march_day z \<le> 365"
proof -
  let ?y = "year_of_era (day_of_era z)"
  note b = year_bounds [OF day_of_era_bounds, of z]
  show "0 \<le> march_day z" using b(3) by (simp add: march_day_def)
  have "?y div 100 \<le> (?y + 1) div 100" by (rule zdiv_mono1) simp_all
  with minus_div_mono [of ?y "?y + 1" 4] have "year_start (?y + 1) - year_start ?y \<le> 366" by (simp add: year_start_def)
  moreover have "?y = 399 \<Longrightarrow> year_start (?y + 1) - year_start ?y = 365" by (simp add: year_start_def)
  ultimately show "march_day z \<le> 365" using b(4) by (auto simp: march_day_def split: if_splits)
qed

lemma months: "list_all (\<lambda>x. let m = (5 * x + 2) div 153; d = x - (153 * m + 2) div 5 in 0 \<le> m \<and> m \<le> 11 \<and> 0 \<le> d \<and> d \<le> 30) [0..365 :: int]"
  by code_simp

lemma march_bounds:
  "0 \<le> march_month z" "march_month z \<le> 11"
  "0 \<le> march_day z - (153 * march_month z + 2) div 5" "march_day z - (153 * march_month z + 2) div 5 \<le> 30"
  using bspec [OF months [unfolded list_all_iff set_upto], of "march_day z"] march_day_bounds [of z] by (simp_all add: Let_def march_month_def)

lemma civil_date_march:
  "civil_date z =
     (if march_month z < 10 then march_year z else march_year z + 1,
      nat (if march_month z < 10 then march_month z + 3 else march_month z - 9),
      nat (march_day z - (153 * march_month z + 2) div 5 + 1))"
proof -
  have "civil_date z =
     (let mp = march_month z; d = march_day z - (153 * mp + 2) div 5 + 1; m = (if mp < 10 then mp + 3 else mp - 9)
      in (if m \<le> 2 then march_year z + 1 else march_year z, nat m, nat d))"
    by (simp only: civil_date_def Let_def march_year_def march_month_def march_day_def year_start_def diff_diff_eq2 [symmetric])
  then show ?thesis using march_bounds [of z] by (auto simp: Let_def)
qed

text \<open>Dates grow with the days.\<close>

lemma march_less:
  assumes "z < z'"
  shows "march_year z < march_year z' \<or> march_year z = march_year z' \<and> march_day z < march_day z'"
proof -
  let ?e = "(z + 719468) div 146097" and ?e' = "(z' + 719468) div 146097"
  have e: "?e \<le> ?e'" using assms by (intro zdiv_mono1) simp_all
  note b = year_bounds [OF day_of_era_bounds, of z] year_bounds [OF day_of_era_bounds, of z']
  show ?thesis
  proof (cases "?e = ?e'")
    case True
    have "day_of_era z < day_of_era z'"
      unfolding day_of_era_def
      using assms True div_mult_mod_eq [of "z + 719468" 146097] div_mult_mod_eq [of "z' + 719468" 146097] by linarith
    with year_of_era_mono [of "day_of_era z" "day_of_era z'"] True show ?thesis by (auto simp: march_year_def march_day_def)
  next
    case False
    with e b show ?thesis by (auto simp: march_year_def)
  qed
qed

lemma civil_date_fields:
  assumes "civil_date z = (y, m, d)"
  shows "y = (if march_month z < 10 then march_year z else march_year z + 1)"
    "int m = (if march_month z < 10 then march_month z + 3 else march_month z - 9)"
    "int d = march_day z - (153 * march_month z + 2) div 5 + 1"
proof -
  from assms have f: "y = (if march_month z < 10 then march_year z else march_year z + 1)"
    "m = nat (if march_month z < 10 then march_month z + 3 else march_month z - 9)"
    "d = nat (march_day z - (153 * march_month z + 2) div 5 + 1)"
    by (simp_all add: civil_date_march)
  show "y = (if march_month z < 10 then march_year z else march_year z + 1)" by (rule f(1))
  show "int m = (if march_month z < 10 then march_month z + 3 else march_month z - 9)" using f(2) march_bounds(1) [of z] by simp
  show "int d = march_day z - (153 * march_month z + 2) div 5 + 1" using f(3) march_bounds(3) [of z] by simp
qed

lemma month_order:
  fixes y y' mm mm' :: int
  assumes "y < y' \<or> y = y' \<and> mm < mm'" "0 \<le> mm" "mm \<le> 11" "0 \<le> mm'" "mm' \<le> 11"
  shows "(if mm < 10 then y else y + 1) < (if mm' < 10 then y' else y' + 1) \<or>
    (if mm < 10 then y else y + 1) = (if mm' < 10 then y' else y' + 1) \<and>
    (if mm < 10 then mm + 3 else mm - 9) < (if mm' < 10 then mm' + 3 else mm' - 9)"
  using assms by (cases "mm < 10"; cases "mm' < 10") auto

lemma civil_date_less:
  assumes "z < z'" "civil_date z = (y, m, d)" "civil_date z' = (y', m', d')"
  shows "y < y' \<or> y = y' \<and> (m < m' \<or> m = m' \<and> d < d')"
proof -
  note f = civil_date_fields [OF assms(2)] and f' = civil_date_fields [OF assms(3)]
  have mon: "y < y' \<or> y = y' \<and> int m < int m'" if "march_year z < march_year z' \<or> march_year z = march_year z' \<and> march_month z < march_month z'"
    unfolding f(1,2) f'(1,2) using that by (rule month_order) (rule march_bounds)+
  show ?thesis
  proof (cases "march_year z = march_year z' \<and> march_month z = march_month z'")
    case True
    with march_less [OF assms(1)] have "march_day z < march_day z'" by simp
    with True f f' have "y = y'" "int m = int m'" "int d < int d'" by simp_all
    then show ?thesis by simp
  next
    case False
    have "march_day z \<le> march_day z' \<Longrightarrow> march_month z \<le> march_month z'" unfolding march_month_def by (intro zdiv_mono1) simp_all
    with False march_less [OF assms(1)] have "march_year z < march_year z' \<or> march_year z = march_year z' \<and> march_month z < march_month z'" by linarith
    from mon [OF this] show ?thesis by auto
  qed
qed

section \<open>The order of the texts\<close>

text \<open>The fields of a time in the order of the text.\<close>

definition time_key :: "civil \<Rightarrow> nat list" where
  "time_key c = [nat (cv_year c), cv_month c, cv_day c, cv_hour c, cv_minute c, cv_second c, cv_nano c]"

text \<open>The years Go writes with four digits.\<close>

definition four_digit_year :: "time \<Rightarrow> bool" where
  "four_digit_year t \<longleftrightarrow> 0 \<le> cv_year (civil_of t) \<and> cv_year (civil_of t) \<le> 9999"

lemma int_digits_less:
  fixes m n k :: int
  assumes "m < n" "0 < k"
  shows "m div k < n div k \<or> m div k = n div k \<and> m mod k < n mod k"
proof (cases "m div k = n div k")
  case True
  then have "m - n = m mod k - n mod k" using minus_mod_eq_mult_div [of m k] minus_mod_eq_mult_div [of n k] by simp
  with True assms(1) show ?thesis by simp
next
  case False
  with zdiv_mono1 [of m n k] assms show ?thesis by linarith
qed

lemma civil_of_date:
  "civil_date (t div 86400000000000) = (y, m, d) \<Longrightarrow>
    civil_of t = \<lparr>cv_year = y, cv_month = m, cv_day = d, cv_hour = nat (t mod 86400000000000 div 3600000000000),
      cv_minute = nat (t mod 3600000000000 div 60000000000), cv_second = nat (t mod 60000000000 div 1000000000),
      cv_nano = nat (t mod 1000000000)\<rparr>"
  by (simp add: civil_of_def Let_def mod_mod_cancel)

lemma mod_div_less:
  fixes a k n :: int
  assumes "0 < k" "0 < n"
  shows "0 \<le> a mod (k * n) div k" "a mod (k * n) div k < n"
proof -
  have x: "0 \<le> a mod (k * n)" "a mod (k * n) < k * n" using assms by simp_all
  then show "0 \<le> a mod (k * n) div k" using assms by (simp add: pos_imp_zdiv_nonneg_iff)
  have "k * (a mod (k * n) div k) \<le> a mod (k * n)"
    using minus_mod_eq_mult_div [of "a mod (k * n)" k] pos_mod_sign [OF assms(1), of "a mod (k * n)"] by linarith
  with x(2) have "k * (a mod (k * n) div k) < k * n" by simp
  then show "a mod (k * n) div k < n" using assms(1) by simp
qed

lemma clock_bounds:
  fixes a :: int
  shows "0 \<le> a mod 86400000000000 div 3600000000000" "a mod 86400000000000 div 3600000000000 < 24"
    "0 \<le> a mod 3600000000000 div 60000000000" "a mod 3600000000000 div 60000000000 < 60"
    "0 \<le> a mod 60000000000 div 1000000000" "a mod 60000000000 div 1000000000 < 60"
    "0 \<le> a mod 1000000000" "a mod 1000000000 < 1000000000"
proof -
  have m: "(3600000000000 :: int) * 24 = 86400000000000" "(60000000000 :: int) * 60 = 3600000000000" "(1000000000 :: int) * 60 = 60000000000"
    by simp_all
  note l = mod_div_less [of 3600000000000 24 a, unfolded m, OF zero_less_numeral zero_less_numeral]
    mod_div_less [of 60000000000 60 a, unfolded m, OF zero_less_numeral zero_less_numeral]
    mod_div_less [of 1000000000 60 a, unfolded m, OF zero_less_numeral zero_less_numeral]
  show "0 \<le> a mod 86400000000000 div 3600000000000" "a mod 86400000000000 div 3600000000000 < 24"
    "0 \<le> a mod 3600000000000 div 60000000000" "a mod 3600000000000 div 60000000000 < 60"
    "0 \<le> a mod 60000000000 div 1000000000" "a mod 60000000000 div 1000000000 < 60"
    by (rule l)+
  show "0 \<le> a mod 1000000000" "a mod 1000000000 < 1000000000"
    by (rule pos_mod_sign pos_mod_bound, rule zero_less_numeral)+
qed

lemma civil_of_bounds:
  "cv_month (civil_of t) \<le> 12" "cv_day (civil_of t) \<le> 31" "cv_hour (civil_of t) < 24" "cv_minute (civil_of t) < 60"
  "cv_second (civil_of t) < 60" "cv_nano (civil_of t) < 1000000000"
proof -
  obtain y m d where c: "civil_date (t div 86400000000000) = (y, m, d)" by (cases "civil_date (t div 86400000000000)") auto
  note f = civil_date_fields [OF c] and b = march_bounds [of "t div 86400000000000"]
  have "int m \<le> 12" "int d \<le> 31" using f(2,3) b by (simp_all split: if_splits)
  then show "cv_month (civil_of t) \<le> 12" "cv_day (civil_of t) \<le> 31" by (simp_all add: civil_of_date [OF c])
  note cb = clock_bounds [of t]
  have n: "0 \<le> x \<Longrightarrow> x < numeral k \<Longrightarrow> nat x < numeral k" for x k by (simp add: nat_less_iff)
  show "cv_hour (civil_of t) < 24" using n [OF cb(1,2)] by (simp only: civil_of_date [OF c] civil.simps)
  show "cv_minute (civil_of t) < 60" using n [OF cb(3,4)] by (simp only: civil_of_date [OF c] civil.simps)
  show "cv_second (civil_of t) < 60" using n [OF cb(5,6)] by (simp only: civil_of_date [OF c] civil.simps)
  show "cv_nano (civil_of t) < 1000000000" using n [OF cb(7,8)] by (simp only: civil_of_date [OF c] civil.simps)
qed

lemma mixed_digits_less:
  fixes a b i j k :: int
  assumes "a < b" "0 < i" "0 < j" "0 < k" "j dvd i" "k dvd j"
  shows "a div i < b div i \<or> a div i = b div i \<and> (a mod i div j < b mod i div j \<or> a mod i div j = b mod i div j \<and>
    (a mod j div k < b mod j div k \<or> a mod j div k = b mod j div k \<and> a mod k < b mod k))"
  using int_digits_less [OF assms(1,2)] int_digits_less [of "a mod i" "b mod i" j] int_digits_less [of "a mod j" "b mod j" k] assms(3-6)
  by (auto simp: mod_mod_cancel)

lemma clock_less:
  assumes "t mod 86400000000000 < u mod (86400000000000 :: int)"
  shows "[nat (t mod 86400000000000 div 3600000000000), nat (t mod 3600000000000 div 60000000000), nat (t mod 60000000000 div 1000000000),
      nat (t mod 1000000000)] <
    [nat (u mod 86400000000000 div 3600000000000), nat (u mod 3600000000000 div 60000000000), nat (u mod 60000000000 div 1000000000),
      nat (u mod 1000000000)]"
proof -
  have d: "(3600000000000 :: int) dvd 86400000000000" "(60000000000 :: int) dvd 3600000000000" "(1000000000 :: int) dvd 60000000000"
    "(60000000000 :: int) dvd 86400000000000" "(1000000000 :: int) dvd 86400000000000" by simp_all
  note l = mixed_digits_less [OF assms zero_less_numeral zero_less_numeral zero_less_numeral d(2,3), unfolded mod_mod_cancel [OF d(1)] mod_mod_cancel [OF d(4)]
    mod_mod_cancel [OF d(5)]]
  have n: "nat x < nat y \<longleftrightarrow> x < y" "nat x = nat y \<longleftrightarrow> x = y" if "0 \<le> x" "0 \<le> y" for x y :: int using that by auto
  show ?thesis using l n [OF clock_bounds(1) clock_bounds(1)] n [OF clock_bounds(3) clock_bounds(3)] n [OF clock_bounds(5) clock_bounds(5)]
    n [OF clock_bounds(7) clock_bounds(7)] by (simp only: Cons_less_Cons) blast
qed

lemma time_key_less:
  assumes "t < u" "four_digit_year t" "four_digit_year u"
  shows "time_key (civil_of t) < time_key (civil_of u)"
proof -
  obtain y m d where c: "civil_date (t div 86400000000000) = (y, m, d)" by (cases "civil_date (t div 86400000000000)") auto
  obtain y' m' d' where c': "civil_date (u div 86400000000000) = (y', m', d')" by (cases "civil_date (u div 86400000000000)") auto
  note cc = civil_of_date [OF c] civil_of_date [OF c']
  have y: "0 \<le> y" "0 \<le> y'" using assms(2,3) by (simp_all only: four_digit_year_def cc civil.simps)
  show ?thesis
  proof (cases "t div 86400000000000 = u div 86400000000000")
    case False
    with zdiv_mono1 [of t u 86400000000000] assms(1) have "t div 86400000000000 < u div 86400000000000" by linarith
    from civil_date_less [OF this c c'] y have "nat y < nat y' \<or> nat y = nat y' \<and> (m < m' \<or> m = m' \<and> d < d')" by auto
    then show ?thesis unfolding time_key_def cc civil.simps Cons_less_Cons by blast
  next
    case True
    with c c' have same: "y' = y" "m' = m" "d' = d" by simp_all
    have "t mod 86400000000000 < u mod 86400000000000" using int_digits_less [OF assms(1), of 86400000000000] True by simp
    from clock_less [OF this] show ?thesis unfolding time_key_def cc civil.simps same Cons_less_Cons [of y] by (simp only: Cons_less_Cons simp_thms)
  qed
qed

lemma sqlite_time_key:
  assumes "four_digit_year t" "four_digit_year u"
  shows "sqlite_time t < sqlite_time u \<longleftrightarrow> time_key (civil_of t) < time_key (civil_of u)"
proof -
  have y: "nat (cv_year (civil_of t)) < 10 ^ 4" "nat (cv_year (civil_of u)) < 10 ^ 4" using assms by (simp_all add: four_digit_year_def nat_less_iff)
  have two: "n < 10 ^ 2" if "n < 60 \<or> n \<le> 31" for n :: nat using that by auto
  show ?thesis
    using civil_of_bounds [of t] civil_of_bounds [of u]
    by (simp add: sqlite_time_def format_seconds_def time_key_def append_less_append show_fixed_less show_fixed_eq show_fixed_less [OF y] show_fixed_eq [OF y] two
        del: show_fixed_numeral)
qed

text \<open>
  C25 (sqlite_time_order). The texts SQLite compares stand for the times: for years of four digits one text is before the
  other, byte by byte, exactly if its time is, and equal texts are equal times.
\<close>

theorem sqlite_time_order:
  assumes "four_digit_year t" "four_digit_year u"
  shows "(sqlite_time t < sqlite_time u \<longleftrightarrow> t < u) \<and> (sqlite_time t = sqlite_time u \<longleftrightarrow> t = u)"
proof -
  have "sqlite_time t < sqlite_time u" if "t < u" using time_key_less [OF that assms] sqlite_time_key [OF assms] by blast
  moreover have "sqlite_time u < sqlite_time t" if "u < t" using time_key_less [OF that assms(2,1)] sqlite_time_key [OF assms(2,1)] by blast
  ultimately show ?thesis by (metis less_irrefl less_linear less_asym)
qed

lemma sample_years: "four_digit_year 1725800000000000000" "four_digit_year 1725800000000000001"
  unfolding four_digit_year_def by code_simp+

theorem sqlite_time_order_witness:
  "sqlite_time 1725800000000000000 < sqlite_time 1725800000000000001"
  using sqlite_time_order [OF sample_years] by simp

section \<open>Reading the texts\<close>

definition leap_year :: "int \<Rightarrow> bool" where
  "leap_year y \<longleftrightarrow> 4 dvd y \<and> (\<not> 100 dvd y \<or> 400 dvd y)"

definition days_in :: "nat \<Rightarrow> int \<Rightarrow> nat" where
  "days_in m y = (if m = 2 then if leap_year y then 29 else 28 else if m \<in> {4, 6, 9, 11} then 30 else 31)"

text \<open>\<open>time.Date\<close> in UTC, for fields in their ranges.\<close>

definition days_of_civil :: "int \<Rightarrow> nat \<Rightarrow> nat \<Rightarrow> int" where
  "days_of_civil y m d =
     (let y' = (if m \<le> 2 then y - 1 else y); mp = (if m \<le> 2 then int m + 9 else int m - 3)
      in y' div 400 * 146097 + year_start (y' mod 400) + (153 * mp + 2) div 5 + int d - 1 - 719468)"

definition time_of :: "civil \<Rightarrow> time" where
  "time_of c =
     days_of_civil (cv_year c) (cv_month c) (cv_day c) * 86400000000000 + int (cv_hour c) * 3600000000000 +
     int (cv_minute c) * 60000000000 + int (cv_second c) * 1000000000 + int (cv_nano c)"

lemma days_of_civil_date:
  assumes "civil_date z = (y, m, d)"
  shows "days_of_civil y m d = z"
proof -
  note f = civil_date_fields [OF assms] and b = march_bounds [of z]
  have m: "m \<le> 2 \<longleftrightarrow> \<not> march_month z < 10" using f(2) b by (auto split: if_splits)
  have y: "(if m \<le> 2 then y - 1 else y) = march_year z" using f(1) m by simp
  have mp: "(if m \<le> 2 then int m + 9 else int m - 3) = march_month z" using f(2) m by simp
  have e: "march_year z div 400 = (z + 719468) div 146097" "march_year z mod 400 = year_of_era (day_of_era z)"
    using year_bounds(1,2) [OF day_of_era_bounds, of z] by (simp_all add: march_year_def)
  show ?thesis
    unfolding days_of_civil_def Let_def y mp e using f(3) div_mult_mod_eq [of "z + 719468" 146097]
    by (simp add: march_day_def day_of_era_def)
qed

lemma short_months:
  "list_all (\<lambda>x. let m = (5 * x + 2) div 153; d = x - (153 * m + 2) div 5 + 1 in
     (m \<in> {1, 3, 6, 8} \<longrightarrow> d \<le> 30) \<and> (m = 11 \<longrightarrow> d \<le> 29 \<and> (d = 29 \<longrightarrow> x = 365))) [0..365 :: int]"
  by code_simp

lemma long_years:
  "list_all (\<lambda>y. 365 < year_start (y + 1) - year_start y + (if y = 399 then 1 else 0) \<longrightarrow>
     (y + 1) mod 4 = 0 \<and> ((y + 1) mod 100 \<noteq> 0 \<or> y = 399)) [0..399]"
  by code_simp

lemma leap_yearI:
  assumes "y mod 400 = x mod 400" "x mod 4 = 0" "x mod 100 \<noteq> 0 \<or> x mod 400 = 0"
  shows "leap_year y"
proof -
  have d: "(4 :: int) dvd 400" "(100 :: int) dvd 400" by simp_all
  have "y mod 4 = x mod 4" using arg_cong [OF assms(1), of "\<lambda>k. k mod 4"] unfolding mod_mod_cancel [OF d(1)] .
  moreover have "y mod 100 = x mod 100" using arg_cong [OF assms(1), of "\<lambda>k. k mod 100"] unfolding mod_mod_cancel [OF d(2)] .
  ultimately show ?thesis unfolding leap_year_def dvd_eq_mod_eq_0 assms(1) using assms(2,3) by metis
qed

lemma leap_days:
  assumes "march_day z = 365"
  shows "leap_year (march_year z + 1)"
proof -
  let ?y = "year_of_era (day_of_era z)"
  note b = year_bounds [OF day_of_era_bounds, of z]
  have d: "day_of_era z = year_start ?y + 365" using assms by (simp add: march_day_def)
  have "365 < year_start (?y + 1) - year_start ?y + (if ?y = 399 then 1 else 0)" using b(4) d by linarith
  moreover have "?y \<in> set [0..399]" unfolding set_upto using b(1,2) by (simp only: atLeastAtMost_iff)
  ultimately have l: "(?y + 1) mod 4 = 0 \<and> ((?y + 1) mod 100 \<noteq> 0 \<or> ?y = 399)"
    by (rule bspec [OF long_years [unfolded list_all_iff], THEN mp, rotated])
  let ?k = "(z + 719468) div 146097"
  have y: "march_year z + 1 = ?y + 1 + ?k * 400" by (simp add: march_year_def)
  have "(march_year z + 1) mod 400 = (?y + 1) mod 400" unfolding y by simp
  then show ?thesis
  proof (rule leap_yearI)
    show "(?y + 1) mod 4 = 0" by (rule conjunct1 [OF l])
    show "(?y + 1) mod 100 \<noteq> 0 \<or> (?y + 1) mod 400 = 0" using conjunct2 [OF l]
    proof
      assume "?y = 399"
      then have "?y + 1 = 400" by linarith
      then show ?thesis by simp
    qed simp
  qed
qed

lemma civil_date_valid:
  assumes "civil_date z = (y, m, d)"
  shows "1 \<le> m" "m \<le> 12" "1 \<le> d" "d \<le> days_in m y"
proof -
  note f = civil_date_fields [OF assms] and b = march_bounds [of z]
  show "1 \<le> m" "m \<le> 12" "1 \<le> d" using f b by (auto split: if_splits)
  have s: "march_month z \<in> {1, 3, 6, 8} \<longrightarrow> int d \<le> 30" "march_month z = 11 \<longrightarrow> int d \<le> 29 \<and> (int d = 29 \<longrightarrow> march_day z = 365)"
    using bspec [OF short_months [unfolded list_all_iff set_upto], of "march_day z"] march_day_bounds [of z] unfolding f(3)
    by (simp_all add: Let_def march_month_def)
  have "int d \<le> 31" using f(3) b by simp
  moreover have "m = 2 \<Longrightarrow> march_month z = 11" "m \<in> {4, 6, 9, 11} \<Longrightarrow> march_month z \<in> {1, 3, 6, 8}"
    using f(2) b by (auto split: if_splits)
  moreover have "leap_year y" if "march_day z = 365" "march_month z = 11" using leap_days [OF that(1)] that(2) f(1) by simp
  ultimately show "d \<le> days_in m y" using s by (auto simp: days_in_def)
qed

lemma time_of_civil: "time_of (civil_of t) = t"
proof -
  obtain y m d where c: "civil_date (t div 86400000000000) = (y, m, d)" by (cases "civil_date (t div 86400000000000)") auto
  have n: "int (nat x) = x" if "0 \<le> x" for x using that by simp
  have split: "x div i * i + (x mod i div j * j + x mod i mod j) = x" for x i j :: int by simp
  have "t mod 3600000000000 = t mod 86400000000000 mod 3600000000000" "t mod 60000000000 = t mod 3600000000000 mod 60000000000"
    "t mod 1000000000 = t mod 60000000000 mod 1000000000" by (rule mod_mod_cancel [symmetric], simp)+
  then have "t mod 86400000000000 div 3600000000000 * 3600000000000 + t mod 3600000000000 = t mod 86400000000000"
    "t mod 3600000000000 div 60000000000 * 60000000000 + t mod 60000000000 = t mod 3600000000000"
    "t mod 60000000000 div 1000000000 * 1000000000 + t mod 1000000000 = t mod 60000000000"
    using div_mult_mod_eq [of "t mod 86400000000000" 3600000000000] div_mult_mod_eq [of "t mod 3600000000000" 60000000000]
      div_mult_mod_eq [of "t mod 60000000000" 1000000000] by argo+
  with div_mult_mod_eq [of t 86400000000000] show ?thesis
    unfolding time_of_def civil_of_date [OF c] civil.simps days_of_civil_date [OF c] n [OF clock_bounds(1)] n [OF clock_bounds(3)]
      n [OF clock_bounds(5)] n [OF clock_bounds(7)] by linarith
qed

end
