(* ===== verification/Sqlite_Parse.thy ===== *)
theory Sqlite_Parse
  imports Sqlite_Time
begin

text \<open>Reading times back (\<open>ParseSQLiteTime\<close> of \<open>internal/platform/db/sqlite_time.go\<close>).\<close>

text \<open>
  What \<open>time.Parse\<close> does on the layout of \<open>sqliteTimeFormat\<close>: \<open>getnum\<close> reads two digits, or one where
  \<open>fixed\<close> is off (the hour); a fraction of nine places may have a comma for its point and a sign before its digits.
\<close>

definition get_year :: "string \<Rightarrow> (nat \<times> string) option" where
  "get_year s = (if 4 \<le> length s \<and> list_all is_digit (take 4 s) then Some (nat_of_digits (take 4 s), drop 4 s) else None)"

definition get_num :: "bool \<Rightarrow> string \<Rightarrow> (nat \<times> string) option" where
  "get_num fixed s =
     (case s of
        c # d # rest \<Rightarrow>
          if \<not> is_digit c then None
          else if is_digit d then Some (nat_of_digits [c, d], rest)
          else if fixed then None else Some (digit_val c, d # rest)
      | [c] \<Rightarrow> if is_digit c \<and> \<not> fixed then Some (digit_val c, []) else None
      | [] \<Rightarrow> None)"

definition skip_literal :: "string \<Rightarrow> string \<Rightarrow> string option" where
  "skip_literal l s = (if has_prefix s l then Some (drop (length l) s) else None)"

definition get_fraction :: "string \<Rightarrow> (nat \<times> string) option" where
  "get_fraction s =
     (if length s < 10 \<or> hd s \<notin> {CHR ''.'', CHR '',''} then None
      else
        let f = take 9 (tl s); neg = (hd f = CHR ''-''); ds = (if neg \<or> hd f = CHR ''+'' then tl f else f)
        in if \<not> list_all is_digit ds \<or> neg \<and> 0 < nat_of_digits ds then None else Some (nat_of_digits ds, drop 10 s))"

definition parse_layout :: "string \<Rightarrow> time option" where
  "parse_layout s =
     Option.bind (get_year s) (\<lambda>(y, s).
     Option.bind (skip_literal ''-'' s) (\<lambda>s.
     Option.bind (get_num True s) (\<lambda>(mo, s). if mo < 1 \<or> 12 < mo then None else
     Option.bind (skip_literal ''-'' s) (\<lambda>s.
     Option.bind (get_num True s) (\<lambda>(d, s).
     Option.bind (skip_literal ''T'' s) (\<lambda>s.
     Option.bind (get_num False s) (\<lambda>(h, s). if 24 \<le> h then None else
     Option.bind (skip_literal '':'' s) (\<lambda>s.
     Option.bind (get_num True s) (\<lambda>(mi, s). if 60 \<le> mi then None else
     Option.bind (skip_literal '':'' s) (\<lambda>s.
     Option.bind (get_num True s) (\<lambda>(sec, s). if 60 \<le> sec then None else
     Option.bind (get_fraction s) (\<lambda>(ns, s).
     Option.bind (skip_literal ''Z'' s) (\<lambda>s.
       if s \<noteq> [] \<or> d < 1 \<or> days_in mo (int y) < d then None
       else Some (time_of \<lparr>cv_year = int y, cv_month = mo, cv_day = d, cv_hour = h, cv_minute = mi, cv_second = sec, cv_nano = ns\<rparr>))))))))))))))"

text \<open>\<open>ParseSQLiteTime\<close>; \<open>others\<close> is \<open>time.Parse\<close> on the three layouts it tries next.\<close>

definition ParseSQLiteTime :: "(string \<Rightarrow> time option) \<Rightarrow> string \<Rightarrow> time option" where
  "ParseSQLiteTime others s = (case parse_layout s of Some t \<Rightarrow> Some t | None \<Rightarrow> others s)"

lemma get_year_show: "n < 10 ^ 4 \<Longrightarrow> get_year (show_fixed 4 n @ r) = Some (n, r)"
  using show_fixed_digits [of 4 n] nat_of_show_fixed [of n 4] by (simp add: get_year_def del: show_fixed_numeral)

lemma get_num_show: "n < 100 \<Longrightarrow> get_num f (show_fixed 2 n @ r) = Some (n, r)"
  by (simp add: get_num_def nat_of_digits_def)

lemma get_fraction_digits:
  assumes "length ds = 9" "list_all is_digit ds"
  shows "get_fraction (''.'' @ ds @ r) = Some (nat_of_digits ds, r)"
proof -
  from assms obtain c cs where ds: "ds = c # cs" "is_digit c" by (cases ds) auto
  then have "c \<noteq> CHR ''-''" "c \<noteq> CHR ''+''" by (auto simp: is_digit_def less_eq_char_def)
  with ds assms show ?thesis by (simp add: get_fraction_def Let_def)
qed

lemma get_fraction_show: "n < 1000000000 \<Longrightarrow> get_fraction (''.'' @ show_fixed 9 n @ r) = Some (n, r)"
  unfolding get_fraction_digits [OF length_show_fixed show_fixed_digits] using nat_of_show_fixed [of n 9] by (simp del: show_fixed_numeral)

lemma skip_literal_Cons: "skip_literal [c] (c # s) = Some s"
  by (simp add: skip_literal_def has_prefix_def)

lemma civil_of_valid: "1 \<le> cv_month (civil_of t)" "1 \<le> cv_day (civil_of t)" "cv_day (civil_of t) \<le> days_in (cv_month (civil_of t)) (cv_year (civil_of t))"
proof -
  obtain y m d where c: "civil_date (t div 86400000000000) = (y, m, d)" by (cases "civil_date (t div 86400000000000)") auto
  show "1 \<le> cv_month (civil_of t)" "1 \<le> cv_day (civil_of t)" "cv_day (civil_of t) \<le> days_in (cv_month (civil_of t)) (cv_year (civil_of t))"
    unfolding civil_of_date [OF c] civil.simps by (rule civil_date_valid [OF c])+
qed

lemma parse_layout_civil:
  assumes y: "0 \<le> cv_year c" "cv_year c \<le> 9999" and m: "1 \<le> cv_month c" "cv_month c \<le> 12"
    and d: "1 \<le> cv_day c" "cv_day c \<le> 31" "cv_day c \<le> days_in (cv_month c) (cv_year c)"
    and t: "cv_hour c < 24" "cv_minute c < 60" "cv_second c < 60" "cv_nano c < 1000000000"
  shows "parse_layout (format_seconds c @ ''.'' @ show_fixed 9 (cv_nano c) @ ''Z'') = Some (time_of c)"
proof -
  have yy: "nat (cv_year c) < 10 ^ 4" "int (nat (cv_year c)) = cv_year c" using y by (simp_all add: nat_less_iff)
  have two: "get_num f (show_fixed 2 (cv_month c) @ r) = Some (cv_month c, r)" "get_num f (show_fixed 2 (cv_day c) @ r) = Some (cv_day c, r)"
    "get_num f (show_fixed 2 (cv_hour c) @ r) = Some (cv_hour c, r)" "get_num f (show_fixed 2 (cv_minute c) @ r) = Some (cv_minute c, r)"
    "get_num f (show_fixed 2 (cv_second c) @ r) = Some (cv_second c, r)" for f r
    using m d t by (simp_all add: get_num_show del: show_fixed_numeral)
  have f: "get_fraction (CHR ''.'' # show_fixed 9 (cv_nano c) @ r) = Some (cv_nano c, r)" for r
    using get_fraction_show [OF t(4)] by (simp del: show_fixed_numeral)
  have v: "\<not> (cv_month c < 1 \<or> 12 < cv_month c)" "\<not> 24 \<le> cv_hour c" "\<not> 60 \<le> cv_minute c" "\<not> 60 \<le> cv_second c"
    "\<not> (cv_day c < 1 \<or> days_in (cv_month c) (cv_year c) < cv_day c)"
    using m d t by linarith+
  show ?thesis
    unfolding parse_layout_def format_seconds_def append_assoc append.simps get_year_show [OF yy(1)] bind.simps prod.case
      skip_literal_Cons two f yy(2)
    using v by (simp add: time_of_def)
qed

lemma parse_layout_show: "four_digit_year t \<Longrightarrow> parse_layout (sqlite_time t) = Some t"
  unfolding sqlite_time_def
  using parse_layout_civil [of "civil_of t"] civil_of_bounds [of t] civil_of_valid [of t]
  by (simp add: four_digit_year_def time_of_civil del: show_fixed_numeral)

text \<open>
  C40 (sqlite_time_round_trip). A time written for SQLite is read back as the same time, to the nanosecond, for the years of
  four digits.
\<close>

theorem sqlite_time_round_trip:
  assumes "four_digit_year t"
  shows "ParseSQLiteTime others (sqlite_time t) = Some t"
  using parse_layout_show [OF assms] by (simp add: ParseSQLiteTime_def)

theorem sqlite_time_round_trip_witness:
  "ParseSQLiteTime (\<lambda>_. None) (sqlite_time 1725800000000000001) = Some 1725800000000000001"
  by (rule sqlite_time_round_trip [OF sample_years(2)])

end
