(* ===== verification/Janitor.thy ===== *)
theory Janitor
  imports Durations Iam_Store
begin

text \<open>
  The clean-up (\<open>internal/platform/janitor/janitor.go\<close>): one \<open>DELETE\<close> for the sessions, one for the
  outbox and one for the idempotency keys, each at its own time of the clock, and the report of a
  sweep.
\<close>

section \<open>Configuration and report\<close>

record janitor_config =
  jc_session :: duration
  jc_outbox :: duration

definition janitor_DefaultConfig :: janitor_config where
  "janitor_DefaultConfig = \<lparr>jc_session = 7 * 24 * hour, jc_outbox = 7 * 24 * hour\<rparr>"

definition janitor_New :: "janitor_config option \<Rightarrow> janitor_config" where
  "janitor_New cfg =
     (case cfg of
        None \<Rightarrow> janitor_DefaultConfig
      | Some c \<Rightarrow>
          \<lparr>jc_session = (if 0 < jc_session c then jc_session c else jc_session janitor_DefaultConfig),
           jc_outbox = (if 0 < jc_outbox c then jc_outbox c else jc_outbox janitor_DefaultConfig)\<rparr>)"

text \<open>The errors are named by their Go type, which for all three statements is that of \<open>fmt.Errorf\<close> with \<open>%w\<close>.\<close>

record report =
  rp_started :: time
  rp_finished :: time
  rp_ms :: int
  rp_sessions :: nat
  rp_outbox :: nat
  rp_keys :: nat
  rp_errors :: "string \<rightharpoonup> string"

section \<open>The statements\<close>

text \<open>What each \<open>WHERE\<close> clause accepts; a \<open>NULL\<close> time is before no other.\<close>

definition before_cutoff :: "time \<Rightarrow> time option \<Rightarrow> bool" where
  "before_cutoff cutoff t \<longleftrightarrow> (case t of None \<Rightarrow> False | Some u \<Rightarrow> u < cutoff)"

definition stale_session :: "time \<Rightarrow> time \<Rightarrow> session_row \<Rightarrow> bool" where
  "stale_session now cutoff r \<longleftrightarrow> se_expires r < now \<or> before_cutoff cutoff (se_revoked r)"

definition old_event :: "time \<Rightarrow> outbox_row \<Rightarrow> bool" where
  "old_event cutoff r \<longleftrightarrow> ob_status r = ''done'' \<and> before_cutoff cutoff (ob_published r)"

definition spent_key :: "time \<Rightarrow> idem_row \<Rightarrow> bool" where
  "spent_key now r \<longleftrightarrow> ik_expires r \<le> now \<and> ik_status r \<in> {''completed'', ''failed''}"

text \<open>The time of a statement, and the age given to it: PostgreSQL gets whole seconds.\<close>

definition purge_time :: "time act" where
  "purge_time e = (if driver_of e = DriverSQLite then time_now else db_now) e"

definition whole_seconds :: "env \<Rightarrow> duration \<Rightarrow> int" where
  "whole_seconds e d = (let s = Seconds e d in if 0 \<le> s then \<lfloor>s\<rfloor> else \<lceil>s\<rceil>)"

definition age_of :: "env \<Rightarrow> duration \<Rightarrow> duration" where
  "age_of e d = (if driver_of e = DriverSQLite then d else whole_seconds e d * second)"

definition PurgeExpiredSessions :: "duration \<Rightarrow> nat act" where
  "PurgeExpiredSessions olderThan e =
     bind_act purge_time (\<lambda>now.
       let p = stale_session now (now - age_of e olderThan)
       in map_error (Errorf ''purge expired sessions'')
            (stmt (\<lambda>e d. Inr (count_where p (sessions d), d\<lparr>sessions := delete_where p (sessions d)\<rparr>)))) e"

definition PurgeProcessedOutboxEvents :: "duration \<Rightarrow> nat act" where
  "PurgeProcessedOutboxEvents olderThan e =
     bind_act purge_time (\<lambda>now.
       let p = old_event (now - age_of e olderThan)
       in map_error (Errorf ''purge processed outbox events'')
            (stmt (\<lambda>e d. Inr (count_where p (outbox d), d\<lparr>outbox := delete_where p (outbox d)\<rparr>)))) e"

definition PurgeExpiredIdempotencyKeys :: "nat act" where
  "PurgeExpiredIdempotencyKeys =
     bind_act purge_time (\<lambda>now.
       let p = spent_key now
       in map_error (Errorf ''purge expired idempotency keys'')
            (stmt (\<lambda>e d. Inr (count_where p (idem_keys d), d\<lparr>idem_keys := delete_where p (idem_keys d)\<rparr>))))"

section \<open>A sweep\<close>

definition purged :: "go_error + nat \<Rightarrow> nat" where
  "purged r = (case r of Inl _ \<Rightarrow> 0 | Inr n \<Rightarrow> n)"

definition purge_error :: "string \<Rightarrow> go_error + nat \<Rightarrow> (string \<rightharpoonup> string) \<Rightarrow> string \<rightharpoonup> string" where
  "purge_error name r m = (case r of Inl _ \<Rightarrow> m(name \<mapsto> ''*fmt.wrapError'') | Inr _ \<Rightarrow> m)"

definition RunAll :: "janitor_config \<Rightarrow> report act" where
  "RunAll cfg =
     bind_act time_now (\<lambda>start.
     catch (PurgeExpiredSessions (jc_session cfg)) (\<lambda>s.
     catch (PurgeProcessedOutboxEvents (jc_outbox cfg)) (\<lambda>ob.
     catch PurgeExpiredIdempotencyKeys (\<lambda>k.
     bind_act time_now (\<lambda>finish.
       ret \<lparr>rp_started = start, rp_finished = finish, rp_ms = trunc_div (time_sub finish start) millisecond,
            rp_sessions = purged s, rp_outbox = purged ob, rp_keys = purged k,
            rp_errors = purge_error ''idempotency_keys'' k (purge_error ''outbox_events'' ob (purge_error ''sessions'' s Map.empty))\<rparr>)))))"

section \<open>What one statement does\<close>

text \<open>A deletion by \<open>p\<close> from the table read by \<open>get\<close> and written by \<open>put\<close>, or a failed statement.\<close>

definition purges :: "('r \<Rightarrow> bool) \<Rightarrow> (db \<Rightarrow> 'r list) \<Rightarrow> ('r list \<Rightarrow> db \<Rightarrow> db) \<Rightarrow> env \<Rightarrow> db \<Rightarrow> nat result \<Rightarrow> db \<Rightarrow> bool" where
  "purges p get put e d res d' \<longleftrightarrow>
     res = Done (count_where p (get d)) \<and> d' = put (delete_where p (get d)) d \<or>
     (\<exists>err n msg. res = Fail_with err \<and> d' = d \<and> failure e n = Some msg)"

lemma purge_stmt:
  assumes "tx_now w = None"
    and "bind_act purge_time (\<lambda>now. map_error f (stmt (\<lambda>e d. Inr (count_where (p now) (get d), put (delete_where (p now) (get d)) d)))) e w = (res, w')"
  shows "purges (p (stored_time e (clock e (ticks w)))) get put e (dbase w) res (dbase w') \<and> tx_now w' = None \<and> ticks w \<le> ticks w'"
  using assms
  by (auto simp: bind_act_def purge_time_def time_now_def db_now_def stored_time_def map_error_def stmt_def purges_def
      split: option.splits if_splits)

lemma purge_effects:
  assumes "tx_now w = None"
  shows "PurgeExpiredSessions a e w = (res, w') \<Longrightarrow>
      purges (stale_session (stored_time e (clock e (ticks w))) (stored_time e (clock e (ticks w)) - age_of e a)) sessions
        (\<lambda>rs. sessions_update (\<lambda>_. rs)) e (dbase w) res (dbase w') \<and> tx_now w' = None \<and> ticks w \<le> ticks w'"
    and "PurgeProcessedOutboxEvents a e w = (res, w') \<Longrightarrow>
      purges (old_event (stored_time e (clock e (ticks w)) - age_of e a)) outbox
        (\<lambda>rs. outbox_update (\<lambda>_. rs)) e (dbase w) res (dbase w') \<and> tx_now w' = None \<and> ticks w \<le> ticks w'"
    and "PurgeExpiredIdempotencyKeys e w = (res, w') \<Longrightarrow>
      purges (spent_key (stored_time e (clock e (ticks w)))) idem_keys
        (\<lambda>rs. idem_keys_update (\<lambda>_. rs)) e (dbase w) res (dbase w') \<and> tx_now w' = None \<and> ticks w \<le> ticks w'"
  unfolding PurgeExpiredSessions_def PurgeProcessedOutboxEvents_def PurgeExpiredIdempotencyKeys_def Let_def
  using purge_stmt [OF assms, where p = "\<lambda>now. stale_session now (now - age_of e a)" and get = sessions and put = "\<lambda>rs. sessions_update (\<lambda>_. rs)"]
    purge_stmt [OF assms, where p = "\<lambda>now. old_event (now - age_of e a)" and get = outbox and put = "\<lambda>rs. outbox_update (\<lambda>_. rs)"]
    purge_stmt [OF assms, where p = spent_key and get = idem_keys and put = "\<lambda>rs. idem_keys_update (\<lambda>_. rs)"]
  by blast+

section \<open>What a sweep does\<close>

definition outcome_of :: "nat result \<Rightarrow> go_error + nat" where
  "outcome_of r = (case r of Done n \<Rightarrow> Inr n | Fail_with err \<Rightarrow> Inl err | Panics p \<Rightarrow> Inr 0)"

lemma catch_outcome:
  assumes "m e w = (r, w1)" "\<forall>p. r \<noteq> Panics p"
  shows "catch m k e w = k (outcome_of r) e w1"
  using assms by (cases r) (simp_all add: catch_def outcome_of_def)

lemma purges_result: "purges p get put e d r d' \<Longrightarrow> \<forall>q. r \<noteq> Panics q"
  by (auto simp: purges_def)

lemma RunAll_steps:
  assumes "tx_now w = None" "RunAll cfg e w = (res, w')"
  obtains w1 w2 w3 :: world and r1 r2 r3 rep where "res = Done rep" "dbase w' = dbase w3"
    "ticks w < ticks w1" "ticks w1 \<le> ticks w2" "ticks w2 \<le> ticks w3" "ticks w3 \<le> ticks w'"
    "purges (stale_session (stored_time e (clock e (Suc (ticks w)))) (stored_time e (clock e (Suc (ticks w))) - age_of e (jc_session cfg)))
       sessions (\<lambda>rs. sessions_update (\<lambda>_. rs)) e (dbase w) r1 (dbase w1)"
    "purges (old_event (stored_time e (clock e (ticks w1)) - age_of e (jc_outbox cfg))) outbox (\<lambda>rs. outbox_update (\<lambda>_. rs)) e (dbase w1) r2 (dbase w2)"
    "purges (spent_key (stored_time e (clock e (ticks w2)))) idem_keys (\<lambda>rs. idem_keys_update (\<lambda>_. rs)) e (dbase w2) r3 (dbase w3)"
    "rp_sessions rep = purged (outcome_of r1)" "rp_outbox rep = purged (outcome_of r2)" "rp_keys rep = purged (outcome_of r3)"
    "rp_errors rep = purge_error ''idempotency_keys'' (outcome_of r3) (purge_error ''outbox_events'' (outcome_of r2)
       (purge_error ''sessions'' (outcome_of r1) Map.empty))"
proof -
  obtain r1 w1 where 1: "PurgeExpiredSessions (jc_session cfg) e (tick w) = (r1, w1)" by fastforce
  note p1 = purge_effects(1) [OF _ 1]
  have t1: "tx_now (tick w) = None" using assms(1) by simp
  obtain r2 w2 where 2: "PurgeProcessedOutboxEvents (jc_outbox cfg) e w1 = (r2, w2)" by fastforce
  have t2: "tx_now w1 = None" using p1 [OF t1] by blast
  note p2 = purge_effects(2) [OF t2 2]
  obtain r3 w3 where 3: "PurgeExpiredIdempotencyKeys e w2 = (r3, w3)" by fastforce
  have t3: "tx_now w2 = None" using p2 by blast
  note p3 = purge_effects(3) [OF t3 3]
  note c = catch_outcome [where m = "PurgeExpiredSessions (jc_session cfg)", OF 1 purges_result [OF conjunct1 [OF p1 [OF t1]]]] 
    catch_outcome [where m = "PurgeProcessedOutboxEvents (jc_outbox cfg)", OF 2 purges_result [OF conjunct1 [OF p2]]]
    catch_outcome [where m = PurgeExpiredIdempotencyKeys, OF 3 purges_result [OF conjunct1 [OF p3]]]
  let ?rep = "\<lparr>rp_started = clock e (ticks w), rp_finished = clock e (ticks w3),
      rp_ms = trunc_div (time_sub (clock e (ticks w3)) (clock e (ticks w))) millisecond, rp_sessions = purged (outcome_of r1),
      rp_outbox = purged (outcome_of r2), rp_keys = purged (outcome_of r3),
      rp_errors = purge_error ''idempotency_keys'' (outcome_of r3) (purge_error ''outbox_events'' (outcome_of r2)
       (purge_error ''sessions'' (outcome_of r1) Map.empty))\<rparr>"
  from assms(2) have "res = Done ?rep" "w' = tick w3"
    by (simp_all add: RunAll_def bind_act_def time_now_def ret_def c)
  then show ?thesis using p1 [OF t1] p2 p3 by (intro that [of ?rep w3 w1 w2 r1 r2 r3]) simp_all
qed

lemma filter_kept: "(\<And>r. q r \<Longrightarrow> \<not> p r) \<Longrightarrow> filter q (delete_where p rs) = filter q rs"
  by (auto simp: delete_where_def intro: filter_cong)

text \<open>A purge leaves the rows alone that its clause does not accept.\<close>

lemma purges_keep:
  assumes "purges p get put e d res d'" "\<And>rs. get (put rs d) = rs" "\<And>r. q r \<Longrightarrow> \<not> p r"
  shows "filter q (get d') = filter q (get d)"
  using assms filter_kept [of q p "get d"] by (auto simp: purges_def)

lemma stored_time_mono: "t \<le> u \<Longrightarrow> stored_time e t \<le> stored_time e u"
proof -
  have m: "truncate_micro t = t div microsecond * microsecond" for t by (simp add: truncate_micro_def minus_mod_eq_div_mult)
  assume "t \<le> u"
  then show ?thesis by (simp add: stored_time_def m zdiv_mono1)
qed

lemma clauses_mono:
  assumes "t \<le> u"
  shows "stale_session t (t - a) r \<Longrightarrow> stale_session u (u - a) r" "old_event (t - a) x \<Longrightarrow> old_event (u - a) x" "spent_key t y \<Longrightarrow> spent_key u y"
  using assms by (auto simp: stale_session_def old_event_def spent_key_def before_cutoff_def split: option.splits)

text \<open>
  C24 (janitor_harmless). A sweep always returns a report, whichever of its statements fail. By any time \<open>t\<close> after it, it
  has removed only sessions that have expired or were revoked longer ago than the session retention,
  so none that a later request could use; only events that are done and were published longer ago than
  the outbox retention; and only idempotency keys that have expired and are completed or failed, so
  that a replay still gets its answer and a running request keeps its key. Every other row of the
  three tables stays, in its order, and no other table changes.
\<close>

theorem janitor_harmless:
  assumes "mono (clock e)" "tx_now w = None" "RunAll cfg e w = (res, w')" "clock e (ticks w') \<le> t"
  shows "(\<exists>rep. res = Done rep) \<and>
    (let kept = (\<lambda>r. t \<le> se_expires r \<and> (\<forall>u. se_revoked r = Some u \<longrightarrow> t - age_of e (jc_session cfg) \<le> u))
      in filter kept (sessions (dbase w')) = filter kept (sessions (dbase w))) \<and>
    filter (live_session h t) (sessions (dbase w')) = filter (live_session h t) (sessions (dbase w)) \<and>
    (let kept = (\<lambda>r. ob_status r \<noteq> ''done'' \<or> (\<forall>u. ob_published r = Some u \<longrightarrow> t - age_of e (jc_outbox cfg) \<le> u))
      in filter kept (outbox (dbase w')) = filter kept (outbox (dbase w))) \<and>
    (let kept = (\<lambda>r. t < ik_expires r \<or> ik_status r \<notin> {''completed'', ''failed''})
      in filter kept (idem_keys (dbase w')) = filter kept (idem_keys (dbase w))) \<and>
    (\<exists>ss os ks. dbase w' = (dbase w)\<lparr>sessions := ss, outbox := os, idem_keys := ks\<rparr>)"
proof -
  obtain w1 w2 w3 :: world and r1 r2 r3 rep where r: "res = Done rep" "dbase w' = dbase w3"
    and k: "ticks w < ticks w1" "ticks w1 \<le> ticks w2" "ticks w2 \<le> ticks w3" "ticks w3 \<le> ticks w'"
    and p: "purges (stale_session (stored_time e (clock e (Suc (ticks w)))) (stored_time e (clock e (Suc (ticks w))) - age_of e (jc_session cfg)))
       sessions (\<lambda>rs. sessions_update (\<lambda>_. rs)) e (dbase w) r1 (dbase w1)"
    "purges (old_event (stored_time e (clock e (ticks w1)) - age_of e (jc_outbox cfg))) outbox (\<lambda>rs. outbox_update (\<lambda>_. rs)) e (dbase w1) r2 (dbase w2)"
    "purges (spent_key (stored_time e (clock e (ticks w2)))) idem_keys (\<lambda>rs. idem_keys_update (\<lambda>_. rs)) e (dbase w2) r3 (dbase w3)"
    using assms(2,3) by (rule RunAll_steps) (rule that; assumption)
  have t: "stored_time e (clock e n) \<le> t" if "n \<le> ticks w'" for n
    using order_trans [OF stored_time_le order_trans [OF monoD [OF assms(1) that] assms(4)]] .
  have "\<exists>ss. dbase w1 = (dbase w)\<lparr>sessions := ss\<rparr>" using p(1) by (auto simp: purges_def intro: exI [of _ "sessions (dbase w)"])
  moreover have "\<exists>os. dbase w2 = (dbase w1)\<lparr>outbox := os\<rparr>" using p(2) by (auto simp: purges_def intro: exI [of _ "outbox (dbase w1)"])
  moreover have "\<exists>ks. dbase w3 = (dbase w2)\<lparr>idem_keys := ks\<rparr>" using p(3) by (auto simp: purges_def intro: exI [of _ "idem_keys (dbase w2)"])
  ultimately obtain ss os ks where d: "dbase w1 = (dbase w)\<lparr>sessions := ss\<rparr>" "dbase w2 = (dbase w)\<lparr>sessions := ss, outbox := os\<rparr>"
    "dbase w' = (dbase w)\<lparr>sessions := ss, outbox := os, idem_keys := ks\<rparr>" using r(2) by auto
  have kept_sessions: "filter q (sessions (dbase w1)) = filter q (sessions (dbase w))"
    if "\<And>x. q x \<Longrightarrow> \<not> stale_session t (t - age_of e (jc_session cfg)) x" for q
    by (rule purges_keep [OF p(1)]) (use that clauses_mono(1) [OF t [of "Suc (ticks w)"]] k in auto)
  have kept_events: "filter q (outbox (dbase w2)) = filter q (outbox (dbase w1))"
    if "\<And>x. q x \<Longrightarrow> \<not> old_event (t - age_of e (jc_outbox cfg)) x" for q
    by (rule purges_keep [OF p(2)]) (use that clauses_mono(2) [OF t [of "ticks w1"]] k in auto)
  have kept_keys: "filter q (idem_keys (dbase w3)) = filter q (idem_keys (dbase w2))"
    if "\<And>x. q x \<Longrightarrow> \<not> spent_key t x" for q
    by (rule purges_keep [OF p(3)]) (use that clauses_mono(3) [OF t [of "ticks w2"]] k in auto)
  have 1: "filter (live_session h t) (sessions (dbase w1)) = filter (live_session h t) (sessions (dbase w))"
    by (rule purges_keep [OF p(1)]) (use t [of "Suc (ticks w)"] k in \<open>auto simp: live_session_def stale_session_def before_cutoff_def\<close>)
  have 2: "let kept = (\<lambda>r. t \<le> se_expires r \<and> (\<forall>u. se_revoked r = Some u \<longrightarrow> t - age_of e (jc_session cfg) \<le> u))
      in filter kept (sessions (dbase w1)) = filter kept (sessions (dbase w))"
    unfolding Let_def by (rule kept_sessions) (auto simp: stale_session_def before_cutoff_def split: option.splits)
  have 3: "let kept = (\<lambda>r. ob_status r \<noteq> ''done'' \<or> (\<forall>u. ob_published r = Some u \<longrightarrow> t - age_of e (jc_outbox cfg) \<le> u))
      in filter kept (outbox (dbase w2)) = filter kept (outbox (dbase w1))"
    unfolding Let_def by (rule kept_events) (auto simp: old_event_def before_cutoff_def split: option.splits)
  have 4: "let kept = (\<lambda>r. t < ik_expires r \<or> ik_status r \<notin> {''completed'', ''failed''})
      in filter kept (idem_keys (dbase w3)) = filter kept (idem_keys (dbase w2))"
    unfolding Let_def by (rule kept_keys) (auto simp: spent_key_def)
  from 1 2 3 4 d r show ?thesis by auto
qed

text \<open>A database with a session that has run out, one in use, an expired key in processing and a done event.\<close>

definition dusty_db :: db where
  "dusty_db = empty_db
     \<lparr>sessions :=
        [\<lparr>se_id = 1, se_public = ''s-1'', se_user = 1, se_token_hash = ''old'', se_expires = 0, se_created = 0, se_revoked = None\<rparr>,
         \<lparr>se_id = 2, se_public = ''s-2'', se_user = 1, se_token_hash = ''new'', se_expires = 900 * second, se_created = 0, se_revoked = None\<rparr>],
      idem_keys :=
        [\<lparr>ik_id = 1, ik_key = ''k-1'', ik_user = 1, ik_path = ''/'', ik_method = ''POST'', ik_hash = [], ik_status = ''processing'',
          ik_resp_status = None, ik_resp_body = None, ik_resp_ctype = None, ik_expires = 0, ik_created = 0\<rparr>]\<rparr>"

theorem janitor_harmless_witness:
  "\<exists>rep w'. RunAll (janitor_New None) (calm DriverSQLite) (start_world dusty_db) = (Done rep, w') \<and>
    length (filter (live_session ''new'' (100 * second)) (sessions (dbase w'))) = 1 \<and> length (idem_keys (dbase w')) = 1"
proof -
  let ?e = "calm DriverSQLite" and ?w = "start_world dusty_db"
  obtain res w' where run: "RunAll (janitor_New None) ?e ?w = (res, w')" by fastforce
  have m: "mono (clock ?e)" by (simp add: mono_def)
  have t: "tx_now ?w = None" by simp
  have "ticks w' \<le> 100" using run
    by (simp add: RunAll_def bind_act_def time_now_def ret_def catch_def PurgeExpiredSessions_def PurgeProcessedOutboxEvents_def
        PurgeExpiredIdempotencyKeys_def purge_time_def stmt_def map_error_def Let_def) auto
  then have "clock ?e (ticks w') \<le> 100 * second" by simp
  from janitor_harmless [OF m t run this, of "''new''"] obtain rep where "res = Done rep"
    "filter (live_session ''new'' (100 * second)) (sessions (dbase w')) = filter (live_session ''new'' (100 * second)) (sessions dusty_db)"
    by auto
  moreover have "length (idem_keys (dbase w')) = 1" using run
    by (simp add: RunAll_def bind_act_def time_now_def ret_def catch_def PurgeExpiredSessions_def PurgeProcessedOutboxEvents_def
        PurgeExpiredIdempotencyKeys_def purge_time_def stmt_def map_error_def Let_def dusty_db_def spent_key_def) auto
  ultimately show ?thesis using run by (auto simp: dusty_db_def live_session_def)
qed

lemma purges_all:
  assumes "purges p get put e d r d'" "\<forall>n. failure e n = None"
  shows "r = Done (count_where p (get d))" "d' = put (delete_where p (get d)) d"
  using assms by (auto simp: purges_def)

lemma count_delete: "count_where p rs + length (delete_where p rs) = length rs"
  by (simp add: count_where_def delete_where_def sum_length_filter_compl)

text \<open>
  When no statement fails the sweep leaves no row behind that one of its clauses accepted when it began,
  and its report counts the rows removed from each table and names no error.
\<close>

theorem janitor_thorough:
  assumes "mono (clock e)" "tx_now w = None" "RunAll cfg e w = (res, w')" "\<forall>n. failure e n = None"
  shows "\<exists>rep. res = Done rep \<and> rp_errors rep = Map.empty \<and>
    rp_sessions rep + length (sessions (dbase w')) = length (sessions (dbase w)) \<and>
    rp_outbox rep + length (outbox (dbase w')) = length (outbox (dbase w)) \<and>
    rp_keys rep + length (idem_keys (dbase w')) = length (idem_keys (dbase w)) \<and>
    (let t = stored_time e (clock e (ticks w)) in
      (\<forall>r \<in> set (sessions (dbase w')). \<not> stale_session t (t - age_of e (jc_session cfg)) r) \<and>
      (\<forall>r \<in> set (outbox (dbase w')). \<not> old_event (t - age_of e (jc_outbox cfg)) r) \<and>
      (\<forall>r \<in> set (idem_keys (dbase w')). \<not> spent_key t r))"
proof -
  obtain w1 w2 w3 :: world and r1 r2 r3 rep where r: "res = Done rep" "dbase w' = dbase w3"
    and k: "ticks w < ticks w1" "ticks w1 \<le> ticks w2" "ticks w2 \<le> ticks w3" "ticks w3 \<le> ticks w'"
    and p: "purges (stale_session (stored_time e (clock e (Suc (ticks w)))) (stored_time e (clock e (Suc (ticks w))) - age_of e (jc_session cfg)))
       sessions (\<lambda>rs. sessions_update (\<lambda>_. rs)) e (dbase w) r1 (dbase w1)"
    "purges (old_event (stored_time e (clock e (ticks w1)) - age_of e (jc_outbox cfg))) outbox (\<lambda>rs. outbox_update (\<lambda>_. rs)) e (dbase w1) r2 (dbase w2)"
    "purges (spent_key (stored_time e (clock e (ticks w2)))) idem_keys (\<lambda>rs. idem_keys_update (\<lambda>_. rs)) e (dbase w2) r3 (dbase w3)"
    and q: "rp_sessions rep = purged (outcome_of r1)" "rp_outbox rep = purged (outcome_of r2)" "rp_keys rep = purged (outcome_of r3)"
    "rp_errors rep = purge_error ''idempotency_keys'' (outcome_of r3) (purge_error ''outbox_events'' (outcome_of r2)
       (purge_error ''sessions'' (outcome_of r1) Map.empty))"
    using assms(2,3) by (rule RunAll_steps) (rule that; assumption)
  note a1 = purges_all [OF p(1) assms(4)] and a2 = purges_all [OF p(2) assms(4)] and a3 = purges_all [OF p(3) assms(4)]
  have t: "stored_time e (clock e (ticks w)) \<le> stored_time e (clock e n)" if "ticks w \<le> n" for n
    using that assms(1) by (intro stored_time_mono) (simp add: mono_def)
  have rows: "\<forall>r \<in> set (sessions (dbase w')). \<not> stale_session (stored_time e (clock e (ticks w))) (stored_time e (clock e (ticks w)) - age_of e (jc_session cfg)) r"
    "\<forall>r \<in> set (outbox (dbase w')). \<not> old_event (stored_time e (clock e (ticks w)) - age_of e (jc_outbox cfg)) r"
    "\<forall>r \<in> set (idem_keys (dbase w')). \<not> spent_key (stored_time e (clock e (ticks w))) r"
    using clauses_mono(1) [OF t [of "Suc (ticks w)"]] clauses_mono(2) [OF t [of "ticks w1"]] clauses_mono(3) [OF t [of "ticks w2"]] k
    by (auto simp: r(2) a1 a2 a3)
  have counts: "rp_sessions rep + length (sessions (dbase w')) = length (sessions (dbase w))"
    "rp_outbox rep + length (outbox (dbase w')) = length (outbox (dbase w))"
    "rp_keys rep + length (idem_keys (dbase w')) = length (idem_keys (dbase w))"
    by (simp_all add: q r(2) a1 a2 a3 outcome_of_def purged_def count_delete)
  have "rp_errors rep = Map.empty" by (simp add: q a1 a2 a3 outcome_of_def purge_error_def)
  with rows counts r(1) show ?thesis unfolding Let_def by blast
qed

theorem janitor_thorough_witness:
  "\<exists>rep w'. RunAll (janitor_New None) (calm DriverPostgres) (start_world dusty_db) = (Done rep, w') \<and>
    rp_errors rep = Map.empty \<and> rp_keys rep + length (idem_keys (dbase w')) = 1"
proof -
  obtain res w' where run: "RunAll (janitor_New None) (calm DriverPostgres) (start_world dusty_db) = (res, w')" by fastforce
  have "mono (clock (calm DriverPostgres))" "tx_now (start_world dusty_db) = None" by (simp_all add: mono_def)
  from janitor_thorough [OF this run] run show ?thesis by (auto simp: dusty_db_def)
qed

end
