(* ===== verification/Logging.thy ===== *)
theory Logging
  imports Redact Middleware Durations
begin

text \<open>
  The log: the redaction of attributes (\<open>pkg/slogx/redact.go\<close>), the handler that adds what the context
  knows (\<open>handler.go\<close>, \<open>context.go\<close>, \<open>logger.go\<close>, \<open>mid/correlation.go\<close>), the lines of the access log
  (\<open>mid/logger.go\<close>) and of the database (\<open>internal/platform/dblog\<close>). A line is a value; the text the
  writer makes of it is left out.
\<close>

section \<open>Attributes\<close>

text \<open>
  The kinds of \<open>slog.Value\<close> told apart here: the scalar kinds, groups, and \<open>KindAny\<close>, which holds nil, maps and slices
  of JSON values, errors or values of other types (named by what is printed of them).
\<close>

datatype log_value =
    Text string
  | Number int
  | Any_data json
  | Any_error go_error
  | Any_other string
  | Group "(string \<times> log_value) list"

type_synonym attr = "string \<times> log_value"

text \<open>\<^term>\<open>None\<close> is the nil slice.\<close>

definition attr_keys :: "(string \<Rightarrow> string) \<Rightarrow> string list option \<Rightarrow> string list option \<Rightarrow> string set" where
  "attr_keys lower keys extra =
     (if keys = None \<and> extra = None then defaultSensitiveSet lower
      else keySet lower (case keys of None \<Rightarrow> DefaultSensitiveKeys | Some ks \<Rightarrow> ks)
        (case extra of None \<Rightarrow> [] | Some ks \<Rightarrow> ks))"

definition RedactAttr :: "(string \<Rightarrow> string) \<Rightarrow> string list option \<Rightarrow> string list option \<Rightarrow> string list \<Rightarrow> attr \<Rightarrow> attr" where
  "RedactAttr lower keys extra groups a =
     (let ks = attr_keys lower keys extra in
      if lower (fst a) \<in> ks then (fst a, Text DefaultMask)
      else (case snd a of
              Any_data j \<Rightarrow> (case redactValue lower ks j of Some r \<Rightarrow> (fst a, Any_data r) | None \<Rightarrow> a)
            | _ \<Rightarrow> a))"

text \<open>
  How the handlers of \<open>slog\<close> go through the attributes of a record: the replacement is called for
  everything but groups, which are entered; an attribute without key and value and a group that has
  nothing to print are left out; the members of a group without name are printed in its place.
\<close>

fun print_attr :: "(string list \<Rightarrow> attr \<Rightarrow> attr) \<Rightarrow> string list \<Rightarrow> string \<Rightarrow> log_value \<Rightarrow> attr list" where
  "print_attr rep groups k (Group as) =
     (let printed = concat (map (\<lambda>a. print_attr rep (if k = [] then groups else groups @ [k]) (fst a) (snd a)) as)
      in if printed = [] then [] else if k = [] then printed else [(k, Group printed)])"
| "print_attr rep groups k v = (let a = rep groups (k, v) in if a = ([], Any_data JNull) then [] else [a])"

definition print_attrs :: "(string list \<Rightarrow> attr \<Rightarrow> attr) \<Rightarrow> attr list \<Rightarrow> attr list" where
  "print_attrs rep as = concat (map (\<lambda>a. print_attr rep [] (fst a) (snd a)) as)"

section \<open>Records, extractors and the handler\<close>

record log_record =
  lr_level :: log_level
  lr_message :: string
  lr_attrs :: "attr list"

fun level_number :: "log_level \<Rightarrow> int" where
  "level_number LevelDebug = -4" | "level_number LevelInfo = 0"
| "level_number LevelWarn = 4" | "level_number LevelError = 8"

text \<open>An \<open>ExtractorFunc\<close>, perhaps nil.\<close>

type_synonym extractor = "(ctx option \<Rightarrow> attr list) option"

definition Extract :: "extractor \<Rightarrow> ctx option \<Rightarrow> attr list" where
  "Extract f c = (case f of None \<Rightarrow> [] | Some g \<Rightarrow> g c)"

definition LogAttrs :: "ctx option \<Rightarrow> attr list" where
  "LogAttrs c =
     (case c of
        None \<Rightarrow> []
      | Some x \<Rightarrow>
          (if GetCorrelationID x \<noteq> [] then [(''cid'', Text (GetCorrelationID x))] else []) @
          (if GetUserID x \<noteq> 0 then [(''user_id'', Number (GetUserID x))] else []))"

definition Handle :: "extractor list \<Rightarrow> (log_record \<Rightarrow> 'r) \<Rightarrow> ctx option \<Rightarrow> log_record \<Rightarrow> 'r" where
  "Handle extractors inner c r =
     (if c \<noteq> None \<and> extractors \<noteq> [] then
        (let added = concat (map (\<lambda>x. Extract x c) extractors)
         in inner (if added \<noteq> [] then r\<lparr>lr_attrs := lr_attrs r @ added\<rparr> else r))
      else inner r)"

record log_config =
  lc_level :: log_level
  lc_text :: bool
  lc_source :: bool
  lc_extractors :: "extractor list"

text \<open>What the logger of \<open>New\<close> prints of a record: nothing below its level.\<close>

definition slogx_New :: "(string \<Rightarrow> string) \<Rightarrow> log_config \<Rightarrow> ctx option \<Rightarrow> log_record \<Rightarrow> log_record option" where
  "slogx_New lower cfg c r =
     (if level_number (lc_level cfg) \<le> level_number (lr_level r)
      then Handle (lc_extractors cfg) (\<lambda>r. Some (r\<lparr>lr_attrs := print_attrs (RedactAttr lower None None) (lr_attrs r)\<rparr>)) c r
      else None)"

text \<open>The logger of the server (\<open>cmd/api/main.go\<close>).\<close>

definition parseLogLevel :: "(string \<Rightarrow> string) \<Rightarrow> string \<Rightarrow> log_level" where
  "parseLogLevel lower s =
     (let v = lower (trim_space s) in
      if v = ''debug'' then LevelDebug
      else if v = ''warn'' \<or> v = ''warning'' then LevelWarn
      else if v = ''error'' then LevelError
      else LevelInfo)"

definition api_logger :: "(string \<Rightarrow> string) \<Rightarrow> (string \<Rightarrow> string \<Rightarrow> bool) \<Rightarrow> string \<Rightarrow> string \<Rightarrow> log_config" where
  "api_logger lower equal_fold level appenv =
     \<lparr>lc_level = parseLogLevel lower level, lc_text = False, lc_source = (\<not> equal_fold appenv ''production''),
      lc_extractors = [Some LogAttrs]\<rparr>"

section \<open>The access log\<close>

text \<open>The line \<open>Logger\<close> writes for a request whose handler made the calls \<open>xs\<close> between two times.\<close>

definition access_message :: "nat \<Rightarrow> string" where
  "access_message status =
     (if 500 \<le> status then ''http request error'' else if 400 \<le> status then ''http request client error''
      else ''http request completed'')"

definition access_line :: "request \<Rightarrow> writer_op list \<Rightarrow> time \<Rightarrow> time \<Rightarrow> log_record" where
  "access_line r xs start finish =
     (let rec = recorded xs in
      \<lparr>lr_level = access_level (rec_status rec), lr_message = access_message (rec_status rec), lr_attrs =
        [(''request_id'', Text (GetCorrelationID (rq_ctx r))), (''method'', Text (rq_method r)), (''path'', Text (rq_path r)),
         (''status'', Number (int (rec_status rec))), (''bytes'', Number (int (rec_bytes rec))),
         (''duration_ms'', Number (trunc_div (time_sub finish start) millisecond)), (''remote_ip'', Text (rq_remote r))]\<rparr>)"

section \<open>The database log\<close>

text \<open>What \<open>errors.As\<close> finds of a \<open>*pgconn.PgError\<close>; how it is found (\<open>as_pg\<close>) and the name of an error's type
  (\<open>type_name\<close>) are arguments.\<close>

record pg_error =
  pg_code :: string
  pg_severity :: string
  pg_constraint :: string
  pg_table :: string

definition slow_threshold :: "duration \<Rightarrow> duration" where
  "slow_threshold d = (if d \<le> 0 then 200 * millisecond else d)"

definition text_unless_empty :: "string \<Rightarrow> string \<Rightarrow> attr list" where
  "text_unless_empty k s = (if s = [] then [] else [(k, Text s)])"

definition Logger_Log :: "(go_error \<Rightarrow> pg_error option) \<Rightarrow> (go_error \<Rightarrow> string) \<Rightarrow> duration \<Rightarrow> string \<Rightarrow> duration \<Rightarrow> go_error option \<Rightarrow> log_record" where
  "Logger_Log as_pg type_name slow operation d err =
     (let ms = (''duration_ms'', Number (trunc_div d millisecond)) in
      case err of
        Some x \<Rightarrow>
          \<lparr>lr_level = LevelError, lr_message = ''db query error'', lr_attrs =
            [(''op'', Text operation), ms, (''error_type'', Text (type_name x))] @
            (case as_pg x of
               None \<Rightarrow> []
             | Some p \<Rightarrow> [(''pg_code'', Text (pg_code p)), (''pg_severity'', Text (pg_severity p))] @
                 text_unless_empty ''pg_table'' (pg_table p) @ text_unless_empty ''pg_constraint'' (pg_constraint p))\<rparr>
      | None \<Rightarrow>
          if slow \<le> d then
            \<lparr>lr_level = LevelWarn, lr_message = ''slow db query detected'', lr_attrs =
              [(''op'', Text operation), ms, (''threshold_ms'', Number (trunc_div slow millisecond))]\<rparr>
          else \<lparr>lr_level = LevelDebug, lr_message = ''db query executed'', lr_attrs = [(''op'', Text operation), ms]\<rparr>)"

text \<open>
  The frames of the stack, from \<open>runtime.Caller(0)\<close> on: the file, the line, and the name of the function where it is known.
\<close>

type_synonym stack = "(string \<times> int \<times> string option) list"

definition library_file :: "string \<Rightarrow> bool" where
  "library_file f \<longleftrightarrow> contains f ''runtime/'' \<or> contains f ''database/sql'' \<or> contains f ''jackc/pgx'' \<or>
     contains f ''internal/platform/dblog'' \<or> contains f ''internal/platform/db/''"

text \<open>The rest of a text from the first place a word begins.\<close>

fun from_word :: "string \<Rightarrow> string \<Rightarrow> string" where
  "from_word w [] = []"
| "from_word w (c # cs) = (if has_prefix (c # cs) w then c # cs else from_word w cs)"

definition caller_text :: "string \<times> int \<times> string option \<Rightarrow> string" where
  "caller_text fr =
     (case fr of (file, line, fn) \<Rightarrow>
        (let name = (case fn of None \<Rightarrow> [] | Some n \<Rightarrow> last (split_on CHR ''.'' n));
             short = (if contains file ''malaka/'' then from_word ''malaka/'' file else file)
         in if name \<noteq> [] then short @ '':'' @ show_int line @ '' ('' @ name @ '')''
            else short @ '':'' @ show_int line))"

fun first_app_frame :: "stack \<Rightarrow> string" where
  "first_app_frame [] = []"
| "first_app_frame (fr # frs) = (if library_file (fst fr) then first_app_frame frs else caller_text fr)"

definition findAppCaller :: "stack \<Rightarrow> string" where
  "findAppCaller st = first_app_frame (drop 3 (take 25 st))"

record query_tracer =
  qt_slow :: duration
  qt_all :: bool

definition NewQueryTracer :: "duration \<Rightarrow> query_tracer" where
  "NewQueryTracer d = \<lparr>qt_slow = slow_threshold d, qt_all = False\<rparr>"

definition SetLogAllQueries :: "bool \<Rightarrow> query_tracer \<Rightarrow> query_tracer" where
  "SetLogAllQueries enabled t = t\<lparr>qt_all := enabled\<rparr>"

record trace_data =
  td_sql :: string
  td_start :: time

definition TraceQueryStart :: "string \<Rightarrow> time \<Rightarrow> trace_data" where
  "TraceQueryStart query now = \<lparr>td_sql = query, td_start = now\<rparr>"

text \<open>What \<open>TraceQueryEnd\<close> logs, if anything: \<open>td\<close> is what the context holds, \<open>now\<close> the time, \<open>affected\<close> the rows of the
  command tag, \<open>debug\<close> whether the default logger takes debug lines.\<close>

definition TraceQueryEnd :: "(go_error \<Rightarrow> pg_error option) \<Rightarrow> (go_error \<Rightarrow> string) \<Rightarrow> query_tracer \<Rightarrow> bool \<Rightarrow> stack \<Rightarrow>
    trace_data option \<Rightarrow> time \<Rightarrow> int \<Rightarrow> go_error option \<Rightarrow> log_record option" where
  "TraceQueryEnd as_pg type_name t debug st td now affected err =
     (case td of
        None \<Rightarrow> None
      | Some d \<Rightarrow>
          (let spent = time_sub now (td_start d);
               head = [(''query'', Text (trim_space (td_sql d))), (''duration_ms'', Number (trunc_div spent millisecond))];
               caller = text_unless_empty ''caller'' (findAppCaller st)
           in case err of
                Some x \<Rightarrow>
                  if errors_is x ''sql: no rows in result set'' then None
                  else Some \<lparr>lr_level = LevelError, lr_message = ''database query execution failed'', lr_attrs =
                    head @ [(''error_type'', Text (type_name x))] @
                    (case as_pg x of
                       None \<Rightarrow> []
                     | Some p \<Rightarrow> [(''pg_code'', Text (pg_code p)), (''pg_severity'', Text (pg_severity p))] @
                         text_unless_empty ''pg_constraint'' (pg_constraint p) @ text_unless_empty ''pg_table'' (pg_table p)) @ caller\<rparr>
              | None \<Rightarrow>
                  if qt_slow t \<le> spent then
                    Some \<lparr>lr_level = LevelWarn, lr_message = ''slow database query detected'', lr_attrs =
                      head @ [(''threshold_ms'', Number (trunc_div (qt_slow t) millisecond))] @ caller\<rparr>
                  else if qt_all t \<or> debug then
                    Some \<lparr>lr_level = LevelDebug, lr_message = ''database query executed'', lr_attrs =
                      head @ (if 0 < affected then [(''rows_affected'', Number affected)] else []) @ caller\<rparr>
                  else None))"

lemma Handle_added:
  "Handle extractors inner c r =
    inner (r\<lparr>lr_attrs := lr_attrs r @ (if c = None then [] else concat (map (\<lambda>x. Extract x c) extractors))\<rparr>)"
  by (cases "concat (map (\<lambda>x. Extract x c) extractors) = []")
    (simp_all only: Handle_def Let_def, auto)

section \<open>What a line can hold\<close>

text \<open>A printed attribute is safe when nothing but the mask stands under a sensitive key, in groups, maps and
  slices at any depth. (What an error or a value of another type prints of itself is its own affair, and the name of a
  group is not looked at.)\<close>

fun safe_attr :: "(string \<Rightarrow> string) \<Rightarrow> string \<Rightarrow> log_value \<Rightarrow> bool" where
  "safe_attr lower k (Group as) \<longleftrightarrow> list_all (\<lambda>a. safe_attr lower (fst a) (snd a)) as"
| "safe_attr lower k (Any_data j) \<longleftrightarrow> lower k \<notin> defaultSensitiveSet lower \<and> clean lower (defaultSensitiveSet lower) j"
| "safe_attr lower k v \<longleftrightarrow> (lower k \<in> defaultSensitiveSet lower \<longrightarrow> v = Text DefaultMask)"


text \<open>What reading the printed attributes gives: the groups without name dissolved, what has nothing to print left out.\<close>

definition shown_attrs :: "attr list \<Rightarrow> attr list" where
  "shown_attrs as = print_attrs (\<lambda>_ a. a) as"

lemma attr_keys_default [simp]: "attr_keys lower None None = defaultSensitiveSet lower"
  by (simp add: attr_keys_def)

lemma redacted_clean_json: "redactValue lower ks j = Some r \<Longrightarrow> clean lower ks r"
  using clean_redacted [of lower ks j] by (simp add: redacted_def)

lemma not_redacted_clean: "redactValue lower ks j = None \<Longrightarrow> clean lower ks j"
  using clean_redacted [of lower ks j] by (simp add: redacted_def)


lemma RedactAttr_atom:
  assumes "\<forall>as. v \<noteq> Group as"
  shows "RedactAttr lower None None g (k, v) = (k, v) \<and> safe_attr lower k v \<or>
    (\<exists>u. RedactAttr lower None None g (k, v) = (k, u) \<and> (\<forall>as. u \<noteq> Group as) \<and> safe_attr lower k u \<and> \<not> safe_attr lower k v)"
proof (cases "lower k \<in> defaultSensitiveSet lower")
  case True
  then show ?thesis using assms by (cases v) (auto simp: RedactAttr_def)
next
  case False
  show ?thesis
  proof (cases v)
    case (Any_data j)
    show ?thesis
    proof (cases "clean lower (defaultSensitiveSet lower) j")
      case True
      then have "redacted lower (defaultSensitiveSet lower) j = j" by (rule clean_fixed)
      with True False Any_data show ?thesis by (auto simp: RedactAttr_def redacted_def split: option.splits)
    next
      case unclean: False
      with not_redacted_clean obtain x where "redactValue lower (defaultSensitiveSet lower) j = Some x" by fastforce
      with False Any_data unclean redacted_clean_json [OF this] show ?thesis by (simp add: RedactAttr_def)
    qed
  qed (use False assms in \<open>simp_all add: RedactAttr_def\<close>)
qed

abbreviation safe_attrs :: "(string \<Rightarrow> string) \<Rightarrow> attr list \<Rightarrow> bool" where
  "safe_attrs lower as \<equiv> list_all (\<lambda>a. safe_attr lower (fst a) (snd a)) as"

lemma print_atom:
  "\<forall>as. v \<noteq> Group as \<Longrightarrow> print_attr rep g k v = (let a = rep g (k, v) in if a = ([], Any_data JNull) then [] else [a])"
  by (cases v) simp_all

lemma print_group:
  "print_attr rep g k (Group as) =
    (let printed = concat (map (\<lambda>a. print_attr rep (if k = [] then g else g @ [k]) (fst a) (snd a)) as)
     in if printed = [] then [] else if k = [] then printed else [(k, Group printed)])"
  by (simp only: print_attr.simps)


lemma atom_same:
  assumes "\<forall>as. v \<noteq> Group as" "safe_attr lower k v"
  shows "print_attr (RedactAttr lower None None) g k v = print_attr (\<lambda>_ a. a) g k v"
  using RedactAttr_atom [OF assms(1), of lower g k] assms(2) by (auto simp: print_atom [OF assms(1)] Let_def)


lemma print_attr_same:
  assumes "safe_attr lower k v"
  shows "print_attr (RedactAttr lower None None) g k v = print_attr (\<lambda>_ a. a) g k v"
  using assms
proof (induction v arbitrary: g k)
  case (Group as)
  then have "map (\<lambda>a. print_attr (RedactAttr lower None None) (if k = [] then g else g @ [k]) (fst a) (snd a)) as =
      map (\<lambda>a. print_attr (\<lambda>_ a. a) (if k = [] then g else g @ [k]) (fst a) (snd a)) as"
    by (auto simp: list_all_iff snds.simps)
  then show ?case by (simp only: print_group)
qed (rule atom_same, simp, assumption)+


lemma print_attrs_same: "safe_attrs lower as \<Longrightarrow> print_attrs (RedactAttr lower None None) as = shown_attrs as"
  unfolding print_attrs_def shown_attrs_def by (intro arg_cong [where f = concat] map_cong refl print_attr_same) (auto simp: list_all_iff)









section \<open>The lines of this program\<close>

text \<open>On the keys the program logs under, \<open>strings.ToLower\<close> is that of ASCII.\<close>

definition logged_keys :: "string list" where
  "logged_keys =
     [''cid'', ''user_id'', ''request_id'', ''method'', ''path'', ''status'', ''bytes'', ''duration_ms'', ''remote_ip'', ''op'', ''error_type'',
      ''pg_code'', ''pg_severity'', ''pg_table'', ''pg_constraint'', ''threshold_ms'', ''query'', ''caller'', ''rows_affected'']"

lemma own_keys: "list_all (\<lambda>k. ascii_lower k \<notin> set (map ascii_lower DefaultSensitiveKeys)) logged_keys"
  by code_simp

lemma sensitive_ascii: "list_all ascii (DefaultSensitiveKeys @ logged_keys)"
  by code_simp

lemma own_key_safe:
  assumes "\<forall>s. ascii s \<longrightarrow> lower s = ascii_lower s" "k \<in> set logged_keys"
  shows "lower k \<notin> defaultSensitiveSet lower"
proof -
  have "map lower DefaultSensitiveKeys = map ascii_lower DefaultSensitiveKeys" "lower k = ascii_lower k"
    using assms sensitive_ascii by (auto simp: list_all_iff)
  with own_keys assms(2) show ?thesis by (simp add: defaultSensitiveSet_def keySet_def list_all_iff del: set_map map_eq_conv)
qed

definition plain_attrs :: "attr list \<Rightarrow> bool" where
  "plain_attrs as = list_all (\<lambda>a. fst a \<in> set logged_keys \<and> (\<exists>s. snd a = Text s \<or> (\<exists>n. snd a = Number n))) as"

lemma plain_simps [simp]:
  "plain_attrs []" "plain_attrs (as @ bs) \<longleftrightarrow> plain_attrs as \<and> plain_attrs bs"
  "plain_attrs ((k, Text s) # as) \<longleftrightarrow> k \<in> set logged_keys \<and> plain_attrs as"
  "plain_attrs ((k, Number n) # as) \<longleftrightarrow> k \<in> set logged_keys \<and> plain_attrs as"
  by (auto simp: plain_attrs_def)

lemma plain_safe:
  assumes "\<forall>s. ascii s \<longrightarrow> lower s = ascii_lower s" "plain_attrs as"
  shows "safe_attrs lower as"
  unfolding list_all_iff
proof
  fix a assume "a \<in> set as"
  with assms(2) have "fst a \<in> set logged_keys" and v: "(\<exists>s. snd a = Text s) \<or> (\<exists>n. snd a = Number n)"
    by (auto simp: plain_attrs_def list_all_iff)
  from own_key_safe [OF assms(1) this(1)] v show "safe_attr lower (fst a) (snd a)" by (elim disjE exE) simp_all
qed

lemma plain_shown: "plain_attrs as \<Longrightarrow> shown_attrs as = as"
  by (induction as) (auto simp: plain_attrs_def shown_attrs_def print_attrs_def)

lemma plain_printed:
  assumes "\<forall>s. ascii s \<longrightarrow> lower s = ascii_lower s" "plain_attrs as"
  shows "print_attrs (RedactAttr lower None None) as = as"
  using print_attrs_same [OF plain_safe [OF assms]] plain_shown [OF assms(2)] by simp

lemma LogAttrs_plain: "plain_attrs (LogAttrs c)"
  by (simp add: LogAttrs_def logged_keys_def split: option.split)

lemma text_unless_empty_plain [simp]: "k \<in> set logged_keys \<Longrightarrow> plain_attrs (text_unless_empty k s)"
  by (simp add: text_unless_empty_def)

lemma lines_plain:
  "plain_attrs (lr_attrs (access_line q xs t t'))"
  "plain_attrs (lr_attrs (Logger_Log as_pg type_name slow operation d err))"
  "TraceQueryEnd as_pg type_name qt debug st td now affected err = Some l \<Longrightarrow> plain_attrs (lr_attrs l)"
  by (auto simp: access_line_def Logger_Log_def TraceQueryEnd_def Let_def logged_keys_def text_unless_empty_def split: option.splits if_splits)

text \<open>
  The lines of the access log and of the database that reach the level of the server's
  logger are printed as they are, with the correlation id and the user of the context, where known, behind them: the redaction
  hides nothing of them.
\<close>

theorem own_lines_printed:
  assumes "\<forall>s. ascii s \<longrightarrow> lower s = ascii_lower s"
    and "r = access_line q xs t t' \<or> r = Logger_Log as_pg type_name slow operation d err \<or>
      TraceQueryEnd as_pg type_name qt debug st td now affected err = Some r"
    and "level_number (parseLogLevel lower level) \<le> level_number (lr_level r)"
  shows "slogx_New lower (api_logger lower equal_fold level appenv) c r = Some (r\<lparr>lr_attrs := lr_attrs r @ LogAttrs c\<rparr>)"
proof -
  have "plain_attrs (lr_attrs r)" using assms(2) lines_plain by blast
  then have "print_attrs (RedactAttr lower None None) (lr_attrs r @ LogAttrs c) = lr_attrs r @ LogAttrs c"
    by (intro plain_printed [OF assms(1)]) (simp add: LogAttrs_plain)
  moreover have "LogAttrs None = []" by (simp add: LogAttrs_def)
  ultimately show ?thesis using assms(3) by (cases c) (simp_all add: slogx_New_def api_logger_def Handle_added Extract_def)
qed

text \<open>What the database log leaves out: rows that are not found, and, below debug, queries in time.\<close>

lemma silent_queries:
  "errors_is x ''sql: no rows in result set'' \<Longrightarrow> TraceQueryEnd as_pg type_name qt debug st td now affected (Some x) = None"
  "time_sub now (td_start d) < qt_slow qt \<Longrightarrow> \<not> qt_all qt \<Longrightarrow> TraceQueryEnd as_pg type_name qt False st (Some d) now affected None = None"
  by (simp_all add: TraceQueryEnd_def Let_def split: option.split)

text \<open>The caller is the first frame outside the libraries, from the third of the stack up to the twenty-fifth.\<close>

lemma findAppCaller_found:
  assumes "i < length st" "3 \<le> i" "i < 25" "\<not> library_file (fst (st ! i))" "\<forall>j. 3 \<le> j \<and> j < i \<longrightarrow> library_file (fst (st ! j))"
  shows "findAppCaller st = caller_text (st ! i)"
proof -
  have skip: "first_app_frame (xs @ fr # ys) = caller_text fr"
    if "\<forall>x \<in> set xs. library_file (fst x)" "\<not> library_file (fst fr)" for xs ys fr
    using that by (induction xs) auto
  let ?l = "drop 3 (take 25 st)"
  have "?l = take (i - 3) ?l @ ?l ! (i - 3) # drop (Suc (i - 3)) ?l" using assms(1-3) by (intro id_take_nth_drop) simp
  moreover have "?l ! (i - 3) = st ! i" using assms(1-3) by simp
  moreover have "\<forall>x \<in> set (take (i - 3) ?l). library_file (fst x)"
  proof
    fix x assume "x \<in> set (take (i - 3) ?l)"
    then obtain j where "j < i - 3" "x = st ! (3 + j)" using assms(1-3) by (auto simp: in_set_conv_nth)
    with assms(5) show "library_file (fst x)" by simp
  qed
  ultimately show ?thesis unfolding findAppCaller_def using skip assms(4) by metis
qed

section \<open>Sample lines\<close>





theorem own_lines_printed_witness:
  "slogx_New ascii_lower (api_logger ascii_lower (=) ''warn'' ''production'') (Some (WithCorrelationID background ''c-1''))
     (Logger_Log (\<lambda>_. None) (\<lambda>_. ''*errors.errorString'') second ''get'' (2 * second) None) =
   Some ((Logger_Log (\<lambda>_. None) (\<lambda>_. ''*errors.errorString'') second ''get'' (2 * second) None)\<lparr>lr_attrs :=
     [(''op'', Text ''get''), (''duration_ms'', Number 2000), (''threshold_ms'', Number 1000), (''cid'', Text ''c-1'')]\<rparr>)"
proof -
  let ?r = "Logger_Log (\<lambda>_. None) (\<lambda>_. ''*errors.errorString'') second ''get'' (2 * second) None"
  have r: "lr_level ?r = LevelWarn" "lr_attrs ?r @ LogAttrs (Some (WithCorrelationID background ''c-1'')) =
      [(''op'', Text ''get''), (''duration_ms'', Number 2000), (''threshold_ms'', Number 1000), (''cid'', Text ''c-1'')]"
    by code_simp+
  have l: "parseLogLevel ascii_lower ''warn'' = LevelWarn" by code_simp
  from own_lines_printed [of ascii_lower ?r undefined undefined undefined undefined "\<lambda>_. None" "\<lambda>_. ''*errors.errorString''" second "''get''" "2 * second" None]
  show ?thesis using r l by simp
qed

end
