(* ===== verification/App_Life.thy ===== *)
theory App_Life
  imports Event_Bus
begin

text \<open>
  The life of the process (\<open>Run\<close> and \<open>close\<close> of \<open>internal/app/app.go\<close>): the relay, the HTTP server and the
  main goroutine side by side, over the event bus. The relay is the only publisher; the handlers of requests do not touch
  the bus.
\<close>

section \<open>States\<close>

text \<open>
  The relay waits for its ticker, works on a batch, waits in \<open>PublishAndWait\<close> for the reply on a channel, or has returned.
  \<open>Run\<close> is at its \<open>select\<close>, in \<open>Shutdown\<close>, at \<open><-relayDone\<close>, in \<open>bus.Close\<close>, before \<open>db.Close\<close>, or has
  returned; what it will return is kept.
\<close>

datatype relay_phase = Relay_idle | Relay_batch | Relay_waits nat | Relay_done

datatype run_phase =
    Selecting
  | Shutting_down
  | Joining "go_error option"
  | Closing_bus "go_error option"
  | Closing_db "go_error option"
  | Returned "go_error option"

text \<open>\<open>lf_signal\<close>: the context of \<open>Run\<close> is done; \<open>lf_cancelled\<close>: \<open>cancelRun\<close> was called; \<open>lf_err\<close>: the buffered
  error of the server; \<open>lf_serving\<close>: connections may still bring requests, which ends when \<open>Shutdown\<close> returns in time;
  \<open>lf_requests\<close>: handlers that are running; \<open>lf_gave_up\<close>: the bus was not drained in 30 seconds.\<close>

record 's life =
  lf_run :: run_phase
  lf_relay :: relay_phase
  lf_signal :: bool
  lf_cancelled :: bool
  lf_listening :: bool
  lf_err :: "go_error option"
  lf_serving :: bool
  lf_requests :: nat
  lf_bus :: "'s bus"
  lf_db_open :: bool
  lf_gave_up :: bool

definition started :: "'s \<Rightarrow> 's life" where
  "started s =
     \<lparr>lf_run = Selecting, lf_relay = Relay_idle, lf_signal = False, lf_cancelled = False, lf_listening = True, lf_err = None,
      lf_serving = True, lf_requests = 0, lf_bus = NewBus 4 s, lf_db_open = True, lf_gave_up = False\<rparr>"

text \<open>The context the relay runs under is done.\<close>

definition stopping :: "'s life \<Rightarrow> bool" where
  "stopping a \<longleftrightarrow> lf_signal a \<or> lf_cancelled a"

section \<open>Steps\<close>

text \<open>A step shows what happens on the bus, if anything.\<close>

inductive life_step :: "'s handlers \<Rightarrow> 's life \<Rightarrow> label option \<Rightarrow> 's life \<Rightarrow> bool" for m where
  signal: "life_step m a None (a\<lparr>lf_signal := True\<rparr>)"
| relay_tick: "lf_relay a = Relay_idle \<Longrightarrow> life_step m a None (a\<lparr>lf_relay := Relay_batch\<rparr>)"
| relay_send: "lf_relay a = Relay_batch \<Longrightarrow> PublishAndWait_send (stopping a) pd c ev (lf_bus a) = (ok, b') \<Longrightarrow>
    life_step m a (Some (if ok then Accepted (last (b_ch b')) else Refused))
      (a\<lparr>lf_bus := b', lf_relay := (if ok then Relay_waits (b_next (lf_bus a)) else Relay_batch)\<rparr>)"
| relay_reply: "lf_relay a = Relay_waits k \<Longrightarrow> k \<in> set (b_waiting (lf_bus a)) \<Longrightarrow> b_results (lf_bus a) k = Some r \<Longrightarrow>
    life_step m a (Some (Reply k r))
      (a\<lparr>lf_bus := (lf_bus a)\<lparr>b_results := (b_results (lf_bus a))(k := None), b_waiting := removeAll k (b_waiting (lf_bus a))\<rparr>,
         lf_relay := Relay_batch\<rparr>)"
| relay_give_up: "lf_relay a = Relay_waits k \<Longrightarrow> stopping a \<Longrightarrow> k \<in> set (b_waiting (lf_bus a)) \<Longrightarrow>
    life_step m a (Some (Gave_up k))
      (a\<lparr>lf_bus := (lf_bus a)\<lparr>b_waiting := removeAll k (b_waiting (lf_bus a))\<rparr>, lf_relay := Relay_batch\<rparr>)"
| relay_batch_ends: "lf_relay a = Relay_batch \<Longrightarrow> life_step m a None (a\<lparr>lf_relay := Relay_idle\<rparr>)"
| relay_returns: "lf_relay a = Relay_idle \<Longrightarrow> stopping a \<Longrightarrow> life_step m a None (a\<lparr>lf_relay := Relay_done\<rparr>)"
| worker: "bus_step m (lf_bus a) l b' \<Longrightarrow> by_worker l \<Longrightarrow> life_step m a (Some l) (a\<lparr>lf_bus := b'\<rparr>)"
| request_begins: "lf_serving a \<Longrightarrow> life_step m a None (a\<lparr>lf_requests := Suc (lf_requests a)\<rparr>)"
| request_ends: "lf_requests a = Suc n \<Longrightarrow> life_step m a None (a\<lparr>lf_requests := n\<rparr>)"
| server_fails: "lf_listening a \<Longrightarrow> life_step m a None (a\<lparr>lf_listening := False, lf_err := Some err\<rparr>)"
| select_signal: "lf_run a = Selecting \<Longrightarrow> lf_signal a \<Longrightarrow>
    life_step m a None (a\<lparr>lf_run := Shutting_down, lf_listening := False\<rparr>)"
| select_error: "lf_run a = Selecting \<Longrightarrow> lf_err a = Some err \<Longrightarrow>
    life_step m a None (a\<lparr>lf_run := Joining (Some err), lf_cancelled := True\<rparr>)"
| shut_down: "lf_run a = Shutting_down \<Longrightarrow> lf_requests a = 0 \<Longrightarrow>
    life_step m a None (a\<lparr>lf_run := Joining None, lf_serving := False\<rparr>)"
| shut_down_late: "lf_run a = Shutting_down \<Longrightarrow> life_step m a None (a\<lparr>lf_run := Joining None\<rparr>)"
| joined: "lf_run a = Joining r \<Longrightarrow> lf_relay a = Relay_done \<Longrightarrow>
    life_step m a (Some Closing) (a\<lparr>lf_run := Closing_bus r, lf_bus := Close (lf_bus a)\<rparr>)"
| bus_drained: "lf_run a = Closing_bus r \<Longrightarrow> drained (lf_bus a) \<Longrightarrow> life_step m a None (a\<lparr>lf_run := Closing_db r\<rparr>)"
| bus_left: "lf_run a = Closing_bus r \<Longrightarrow> \<not> drained (lf_bus a) \<Longrightarrow>
    life_step m a None (a\<lparr>lf_run := Closing_db r, lf_gave_up := True\<rparr>)"
| db_closed: "lf_run a = Closing_db r \<Longrightarrow>
    life_step m a None (a\<lparr>lf_run := Returned r, lf_db_open := False, lf_cancelled := True\<rparr>)"

text \<open>A run and what it shows of the bus.\<close>

inductive life_run :: "'s handlers \<Rightarrow> 's life \<Rightarrow> label list \<Rightarrow> 's life \<Rightarrow> bool" for m a0 where
  begins: "life_run m a0 [] a0"
| goes_on: "life_run m a0 tr a \<Longrightarrow> life_step m a ol a' \<Longrightarrow> life_run m a0 (tr @ (case ol of None \<Rightarrow> [] | Some l \<Rightarrow> [l])) a'"

inductive_cases life_stepE: "life_step m a ol a'"

lemma life_one: "life_step m a ol a' \<Longrightarrow> life_run m a (case ol of None \<Rightarrow> [] | Some l \<Rightarrow> [l]) a'"
  using life_run.goes_on [OF life_run.begins] by fastforce

lemma life_run_trans: "life_run m a0 tr a \<Longrightarrow> life_run m a tr' a' \<Longrightarrow> life_run m a0 (tr @ tr') a'"
proof (rotate_tac, induction rule: life_run.induct)
  case (goes_on tr' a1 ol a2)
  then show ?case using life_run.goes_on [of m a0 "tr @ tr'" a1 ol a2] by simp
qed simp

section \<open>The bus of the process is the bus\<close>

lemma life_bus_step:
  assumes "life_step m a ol a'"
  shows "case ol of None \<Rightarrow> lf_bus a' = lf_bus a | Some l \<Rightarrow> bus_step m (lf_bus a) l (lf_bus a')"
  using assms
proof cases
  case (relay_send pd c ev ok b')
  then show ?thesis using bus_step.publish_wait [OF relay_send(4), of m] by simp
qed (auto intro: bus_step.intros)

lemma life_bus_run: "life_run m (started s) tr a \<Longrightarrow> bus_run m (NewBus 4 s) tr (lf_bus a)"
proof (induction rule: life_run.induct)
  case begins
  show ?case by (simp add: started_def bus_run.start)
next
  case (goes_on tr a ol a')
  with life_bus_step [OF goes_on.hyps(2)] show ?case by (auto split: option.splits intro: bus_run.more)
qed

section \<open>The order of things\<close>

text \<open>How far \<open>Run\<close> has come.\<close>

fun closing_phase :: "run_phase \<Rightarrow> bool" where
  "closing_phase (Closing_bus r) \<longleftrightarrow> True" | "closing_phase (Closing_db r) \<longleftrightarrow> True" | "closing_phase (Returned r) \<longleftrightarrow> True"
| "closing_phase _ \<longleftrightarrow> False"

fun phase_result :: "run_phase \<Rightarrow> go_error option option" where
  "phase_result Selecting = None" | "phase_result Shutting_down = Some None"
| "phase_result (Joining r) = Some r" | "phase_result (Closing_bus r) = Some r"
| "phase_result (Closing_db r) = Some r" | "phase_result (Returned r) = Some r"

fun bus_behind :: "run_phase \<Rightarrow> bool" where
  "bus_behind (Closing_db r) \<longleftrightarrow> True" | "bus_behind (Returned r) \<longleftrightarrow> True" | "bus_behind _ \<longleftrightarrow> False"

definition life_ok :: "'s life \<Rightarrow> bool" where
  "life_ok a \<longleftrightarrow>
     (b_closed (lf_bus a) \<longleftrightarrow> closing_phase (lf_run a)) \<and>
     (closing_phase (lf_run a) \<longrightarrow> lf_relay a = Relay_done) \<and>
     (lf_relay a = Relay_done \<longrightarrow> stopping a) \<and>
     (bus_behind (lf_run a) \<and> \<not> lf_gave_up a \<longrightarrow> drained (lf_bus a)) \<and>
     (lf_gave_up a \<longrightarrow> bus_behind (lf_run a)) \<and>
     (lf_db_open a \<longleftrightarrow> (\<forall>r. lf_run a \<noteq> Returned r)) \<and>
     (phase_result (lf_run a) = Some None \<longrightarrow> lf_signal a) \<and>
     (\<forall>err. phase_result (lf_run a) = Some (Some err) \<longrightarrow> lf_err a = Some err \<and> lf_cancelled a) \<and>
     (\<not> lf_serving a \<longrightarrow> lf_requests a = 0) \<and>
     (lf_err a \<noteq> None \<or> lf_run a \<noteq> Selecting \<longrightarrow> \<not> lf_listening a) \<and>
     (\<forall>k. lf_relay a = Relay_waits k \<longrightarrow> k \<in> set (b_waiting (lf_bus a)))"

lemma send_bus:
  assumes "PublishAndWait_send cd pd c ev b = (okk, b')"
  shows "b_closed b' = b_closed b" "okk \<Longrightarrow> b_next b \<in> set (b_waiting b') \<and> \<not> b_closed b"
proof -
  obtain b1 where e: "enqueue cd pd c \<lparr>q_event = ev, q_result = Some (b_next b)\<rparr> (b\<lparr>b_next := Suc (b_next b)\<rparr>) = (okk, b1)"
    and b': "b' = (if okk then b1\<lparr>b_waiting := b_waiting b1 @ [b_next b]\<rparr> else b1)"
    using assms by (auto simp: PublishAndWait_send_def Let_def split: prod.splits bool.splits)
  from e b' show "b_closed b' = b_closed b" "okk \<Longrightarrow> b_next b \<in> set (b_waiting b') \<and> \<not> b_closed b"
    by (cases rule: enqueue_cases; simp)+
qed

lemma drained_stuck: "drained b \<Longrightarrow> bus_step m b l b' \<Longrightarrow> by_worker l \<Longrightarrow> False"
  by (erule bus_step.cases) (auto simp: drained_def split: if_splits)

lemma drained_replies [simp]: "drained (b\<lparr>b_results := f\<rparr>) = drained b" "drained (b\<lparr>b_waiting := ks\<rparr>) = drained b"
  by (simp_all add: drained_def)

lemma worker_waiting: "bus_step m b l b' \<Longrightarrow> by_worker l \<Longrightarrow> b_waiting b' = b_waiting b"
  by (erule bus_step.cases) (auto split: if_splits)

lemma life_ok_started: "life_ok (started s)"
  by (simp add: life_ok_def started_def NewBus_def)

lemma life_ok_step:
  assumes "life_step m a ol a'" "life_ok a"
  shows "life_ok a'"
  using assms(1)
proof cases
  case (relay_send pd c ev ok b')
  with assms(2) send_bus [OF relay_send(4)] show ?thesis
    by (cases "lf_run a") (auto simp: life_ok_def stopping_def)
next
  case (worker l b')
  with assms(2) worker_step_work [of m "lf_bus a" l b'] drained_stuck [of "lf_bus a" m l b'] worker_waiting [of m "lf_bus a" l b']
  show ?thesis by (auto simp: life_ok_def stopping_def)
next
  case (server_fails err)
  with assms(2) have "lf_run a = Selecting" by (auto simp: life_ok_def)
  with assms(2) server_fails show ?thesis by (simp add: life_ok_def stopping_def)
qed (use assms(2) in \<open>simp_all add: life_ok_def stopping_def Close_def\<close>)

lemma life_ok_run: "life_run m a0 tr a \<Longrightarrow> life_ok a0 \<Longrightarrow> life_ok a"
  by (induction rule: life_run.induct) (auto intro: life_ok_step)

section \<open>Shutting down\<close>

text \<open>Nothing is offered to the bus once it is closed.\<close>

lemma closing_closes: "life_step m a ol a' \<Longrightarrow> b_closed (lf_bus a) \<Longrightarrow> b_closed (lf_bus a')"
  by (erule life_stepE) (auto simp: send_bus Close_def dest: worker_step_work)

lemma closed_bus_quiet:
  assumes "life_run m (started s) tr a" "tr = tr1 @ Closing # tr2"
  shows "b_closed (lf_bus a) \<and> list_all by_worker tr2"
  using assms
proof (induction arbitrary: tr2 rule: life_run.induct)
  case begins
  then show ?case by simp
next
  case (goes_on tr a ol a')
  have ok: "life_ok a" using goes_on.hyps(1) life_ok_started by (rule life_ok_run)
  show ?case
  proof (cases "ol = None \<or> tr2 = []")
    case True
    then show ?thesis
    proof
      assume "ol = None"
      with goes_on.IH [of tr2] goes_on.prems closing_closes [OF goes_on.hyps(2)] show ?thesis by simp
    next
      assume "tr2 = []"
      show ?thesis
      proof (cases ol)
        case None
        with goes_on.IH [of tr2] goes_on.prems closing_closes [OF goes_on.hyps(2)] show ?thesis by simp
      next
        case (Some l)
        with goes_on.prems \<open>tr2 = []\<close> have "l = Closing" by simp
        with goes_on.hyps(2) Some \<open>tr2 = []\<close> show ?thesis
          by (auto elim!: life_stepE simp: Close_def split: if_splits)
      qed
    qed
  next
    case False
    then obtain l where l: "ol = Some l" by auto
    with False goes_on.prems obtain tr3 where "tr2 = tr3 @ [l]" "tr = tr1 @ Closing # tr3"
      by (cases tr2 rule: rev_cases) auto
    with goes_on.IH [of tr3] have c: "b_closed (lf_bus a)" "list_all by_worker tr3" by simp_all
    then have "lf_relay a = Relay_done" "closing_phase (lf_run a)" using ok by (simp_all add: life_ok_def)
    with goes_on.hyps(2) l have "by_worker l" by (auto elim!: life_stepE)
    with c closing_closes [OF goes_on.hyps(2)] \<open>tr2 = tr3 @ [l]\<close> show ?thesis by simp
  qed
qed

text \<open>From every state after a signal or a failure of the server on, \<open>Run\<close> can be brought to its end, and the bus is drained first.\<close>

lemma relay_can_stop:
  assumes "life_ok a" "stopping a"
  shows "\<exists>tr a'. life_run m a tr a' \<and> lf_relay a' = Relay_done \<and> lf_run a' = lf_run a \<and> lf_gave_up a' = lf_gave_up a"
proof -
  have idle: "\<exists>tr a'. life_run m x tr a' \<and> lf_relay a' = Relay_done \<and> lf_run a' = lf_run x \<and> lf_gave_up a' = lf_gave_up x"
    if "lf_relay x = Relay_idle" "stopping x" for x
    by (intro exI conjI, rule life_one [OF life_step.relay_returns [OF that]]) simp_all
  have batch: "\<exists>tr a'. life_run m x tr a' \<and> lf_relay a' = Relay_done \<and> lf_run a' = lf_run x \<and> lf_gave_up a' = lf_gave_up x"
    if "lf_relay x = Relay_batch" "stopping x" for x
    using life_run_trans [OF life_one [OF life_step.relay_batch_ends [OF that(1), of m]]] idle [of "x\<lparr>lf_relay := Relay_idle\<rparr>"] that(2)
    by (simp add: stopping_def) blast
  show ?thesis
  proof (cases "lf_relay a")
    case (Relay_waits k)
    then have w: "k \<in> set (b_waiting (lf_bus a))" using assms(1) by (simp add: life_ok_def)
    show ?thesis
      using life_run_trans [OF life_one [OF life_step.relay_give_up [OF Relay_waits assms(2) w, of m]]]
        batch [of "a\<lparr>lf_bus := (lf_bus a)\<lparr>b_waiting := removeAll k (b_waiting (lf_bus a))\<rparr>, lf_relay := Relay_batch\<rparr>"] assms(2)
      by (simp add: stopping_def) blast
  next
    case Relay_done
    then show ?thesis using life_run.begins by blast
  qed (use idle batch assms(2) in blast)+
qed

lemma workers_can_finish: "worker_run m (lf_bus a) tr b' \<Longrightarrow> life_run m a tr (a\<lparr>lf_bus := b'\<rparr>)"
proof (induction rule: worker_run.induct)
  case idle
  show ?case using life_run.begins [of m a] by simp
next
  case (work tr b1 l b2)
  from life_run.goes_on [OF work.IH life_step.worker [of m "a\<lparr>lf_bus := b1\<rparr>" l b2]] work.hyps(2,3) show ?case by simp
qed

text \<open>How the phases follow each other.\<close>

definition can_end :: "'s handlers \<Rightarrow> 's life \<Rightarrow> bool" where
  "can_end m a \<longleftrightarrow> (\<exists>tr a' r. life_run m a tr a' \<and> lf_run a' = Returned r \<and> \<not> lf_gave_up a')"

lemma can_end_step: "life_run m a tr a' \<Longrightarrow> can_end m a' \<Longrightarrow> can_end m a"
  using life_run_trans unfolding can_end_def by blast

lemma closing_can_end:
  assumes "\<not> lf_gave_up a"
  shows "lf_run a = Closing_db r \<Longrightarrow> can_end m a"
    and "lf_run a = Closing_bus r \<Longrightarrow> bus_ok 4 (lf_bus a) \<Longrightarrow> b_closed (lf_bus a) \<Longrightarrow> can_end m a"
proof -
  have db: "can_end m x" if "lf_run x = Closing_db r" "\<not> lf_gave_up x" for x
    unfolding can_end_def by (intro exI conjI, rule life_one [OF life_step.db_closed [OF that(1)]]) (simp_all add: that)
  show "lf_run a = Closing_db r \<Longrightarrow> can_end m a" using db assms by blast
  assume a: "lf_run a = Closing_bus r" "bus_ok 4 (lf_bus a)" "b_closed (lf_bus a)"
  from worker_run_to_end [OF a(2) _ a(3), of m] obtain tr b' where w: "worker_run m (lf_bus a) tr b'" "drained b'" by auto
  let ?a = "a\<lparr>lf_bus := b'\<rparr>"
  have "life_step m ?a None (?a\<lparr>lf_run := Closing_db r\<rparr>)" by (rule life_step.bus_drained) (simp_all add: a w)
  from life_one [OF this] have "can_end m ?a" by (rule can_end_step) (rule db; simp add: assms)
  with workers_can_finish [OF w(1)] show "can_end m a" by (rule can_end_step)
qed

lemma joining_can_end:
  assumes "lf_run a = Joining r" "life_ok a" "bus_ok 4 (lf_bus a)"
  shows "can_end m a"
proof -
  have "stopping a" "\<not> lf_gave_up a" using assms(1,2) by (cases r; auto simp: life_ok_def stopping_def)+
  with relay_can_stop [OF assms(2), of m] obtain tr a' where
    1: "life_run m a tr a'" "lf_relay a' = Relay_done" "lf_run a' = Joining r" "\<not> lf_gave_up a'" using assms(1) by auto
  let ?a = "a'\<lparr>lf_run := Closing_bus r, lf_bus := Close (lf_bus a')\<rparr>"
  have "bus_run m (lf_bus a) tr (lf_bus a')"
    using 1(1)
  proof (induction rule: life_run.induct)
    case (goes_on tr a1 ol a2)
    with life_bus_step [OF goes_on.hyps(2)] show ?case by (auto split: option.splits intro: bus_run.more)
  qed (rule bus_run.start)
  from bus_run.more [OF this bus_step.closing] assms(3) have "bus_ok 4 (Close (lf_bus a'))" by (rule bus_ok_run)
  then have "can_end m ?a" by (intro closing_can_end(2) [of ?a r]) (simp_all add: 1 Close_def)
  with life_one [OF life_step.joined [OF 1(3,2)]] have "can_end m a'" by (rule can_end_step)
  with 1(1) show ?thesis by (rule can_end_step)
qed

lemma stopped_can_end:
  assumes "life_run m (started s) tr a" "lf_signal a \<or> lf_err a \<noteq> None" "\<not> lf_gave_up a"
  shows "can_end m a"
proof -
  have ok: "life_ok a" using assms(1) life_ok_started by (rule life_ok_run)
  have bus: "bus_ok 4 (lf_bus a)"
    using bus_ok_run [OF life_bus_run [OF assms(1)] bus_ok_NewBus] by (simp add: worker_count_def)
  have join: "can_end m a" if "life_step m a None a'" "lf_run a' = Joining r" "lf_bus a' = lf_bus a" for a' r
    using can_end_step [OF life_one [OF that(1)] joining_can_end [OF that(2) life_ok_step [OF that(1) ok]]] bus that(3) by simp
  have down: "can_end m x" if "lf_run x = Shutting_down" "life_ok x" "bus_ok 4 (lf_bus x)" for x
  proof -
    have s: "life_step m x None (x\<lparr>lf_run := Joining None\<rparr>)" by (rule life_step.shut_down_late [OF that(1)])
    show ?thesis
      by (rule can_end_step [OF life_one [OF s] joining_can_end [OF _ life_ok_step [OF s that(2)]]]) (simp_all add: that(3))
  qed
  show ?thesis
  proof (cases "lf_run a")
    case Selecting
    show ?thesis
    proof (cases "lf_signal a")
      case True
      note s = life_step.select_signal [OF Selecting True, of m]
      show ?thesis by (rule can_end_step [OF life_one [OF s] down [OF _ life_ok_step [OF s ok]]]) (simp_all add: bus)
    next
      case False
      with assms(2) obtain err where "lf_err a = Some err" by auto
      from join [OF life_step.select_error [OF Selecting this]] show ?thesis by simp
    qed
  next
    case Shutting_down
    then show ?thesis using down ok bus by blast
  next
    case (Joining r)
    then show ?thesis using joining_can_end ok bus by blast
  next
    case (Closing_bus r)
    with ok have "b_closed (lf_bus a)" by (simp add: life_ok_def)
    with closing_can_end(2) [OF assms(3) Closing_bus bus] show ?thesis by blast
  next
    case (Closing_db r)
    with closing_can_end(1) [OF assms(3)] show ?thesis by blast
  next
    case (Returned r)
    then show ?thesis using life_run.begins assms(3) unfolding can_end_def by blast
  qed
qed

text \<open>
  C11 (shutdown_in_order). The database is closed only when the relay has returned, the bus is closed and either every accepted
  event has been handled and its workers have left or the 30 seconds for that have passed; nothing is offered to the bus after it was
  closed; and \<open>Run\<close> returns nil only after a signal and otherwise the error the server failed with.
\<close>

theorem shutdown_in_order:
  assumes "life_run m (started s) tr a"
  shows "(lf_db_open a \<or> lf_relay a = Relay_done \<and> b_closed (lf_bus a) \<and> (\<not> lf_serving a \<longrightarrow> lf_requests a = 0) \<and>
      (lf_gave_up a \<or> drained (lf_bus a) \<and> mset (accepted tr) = mset (finished tr))) \<and>
    (\<forall>tr1 tr2. tr = tr1 @ Closing # tr2 \<longrightarrow> list_all by_worker tr2) \<and>
    (\<forall>r. lf_run a = Returned r \<longrightarrow> \<not> lf_db_open a \<and> (case r of None \<Rightarrow> lf_signal a | Some err \<Rightarrow> lf_err a = Some err))"
proof -
  have ok: "life_ok a" using assms life_ok_started by (rule life_ok_run)
  have acc: "accepted tr = took tr @ b_ch (lf_bus a) \<and> mset (took tr) = mset (map fst (b_busy (lf_bus a))) + mset (finished tr)"
    by (rule bus_accounting [OF life_bus_run [OF assms]])
  have 1: "lf_relay a = Relay_done \<and> b_closed (lf_bus a) \<and> (\<not> lf_serving a \<longrightarrow> lf_requests a = 0) \<and>
      (lf_gave_up a \<or> drained (lf_bus a) \<and> mset (accepted tr) = mset (finished tr))" if db: "\<not> lf_db_open a"
  proof -
    obtain r where r: "lf_run a = Returned r" using db ok unfolding life_ok_def by blast
    have p: "closing_phase (lf_run a)" "bus_behind (lf_run a)" by (simp_all add: r)
    with ok have "lf_relay a = Relay_done" "b_closed (lf_bus a)" "\<not> lf_serving a \<longrightarrow> lf_requests a = 0" "lf_gave_up a \<or> drained (lf_bus a)"
      unfolding life_ok_def by blast+
    moreover have "mset (accepted tr) = mset (finished tr)" if "drained (lf_bus a)" using acc that by (simp add: drained_def)
    ultimately show ?thesis by blast
  qed
  have 2: "list_all by_worker tr2" if "tr = tr1 @ Closing # tr2" for tr1 tr2 using closed_bus_quiet [OF assms that] by simp
  have 3: "\<not> lf_db_open a \<and> (case r of None \<Rightarrow> lf_signal a | Some err \<Rightarrow> lf_err a = Some err)" if "lf_run a = Returned r" for r
    using ok that by (cases r) (simp_all add: life_ok_def)
  show ?thesis using 1 2 3 by blast
qed


text \<open>A process that is stopped while its relay waits for its ticker.\<close>

lemma sample_stop:
  "life_run m (started s) [] ((started s)\<lparr>lf_signal := True\<rparr>)"
  using life_one [OF life_step.signal [of m "started s"]] by simp


theorem shutdown_in_order_witness:
  "\<exists>tr a r. life_run (\<lambda>_. []) (started ()) tr a \<and> lf_run a = Returned r \<and> lf_relay a = Relay_done \<and> mset (accepted tr) = mset (finished tr)"
  (is "\<exists>tr a r. life_run ?m _ tr a \<and> _")
proof -
  have "can_end ?m ((started ())\<lparr>lf_signal := True\<rparr>)"
    by (rule stopped_can_end [OF sample_stop]) (simp_all add: started_def)
  then obtain tr a r where a: "life_run ?m ((started ())\<lparr>lf_signal := True\<rparr>) tr a" "lf_run a = Returned r" "\<not> lf_gave_up a"
    unfolding can_end_def by blast
  have run: "life_run ?m (started ()) tr a" using life_run_trans [OF sample_stop a(1)] by simp
  from shutdown_in_order [OF run] a(2,3) have "lf_relay a = Relay_done \<and> mset (accepted tr) = mset (finished tr)" by blast
  with run a(2) show ?thesis by blast
qed

end
