(* ===== verification/Sql_Split.thy ===== *)
theory Sql_Split
  imports Go_Strings
begin

text \<open>
  The splitting of a migration into statements (\<open>internal/platform/db/sql_split.go\<close>). The loop is a
  scanner with one mode for each kind of text in which a semicolon is no separator; in the code the
  modes are four flags and the tag of a dollar quote.
\<close>

section \<open>The scanner\<close>

datatype sql_mode = Top | In_Line | In_Block | In_Quote | In_Ident | In_Dollar string

definition tag_letter :: "char \<Rightarrow> bool" where
  "tag_letter c \<longleftrightarrow> c = CHR ''_'' \<or> CHR ''a'' \<le> c \<and> c \<le> CHR ''z'' \<or> CHR ''A'' \<le> c \<and> c \<le> CHR ''Z''"

text \<open>The rest of a tag behind its first \<open>$\<close>.\<close>

fun tag_rest :: "bool \<Rightarrow> string \<Rightarrow> string option" where
  "tag_rest first [] = None"
| "tag_rest first (c # cs) =
     (if c = CHR ''$'' then Some [c]
      else if tag_letter c \<or> is_digit c \<and> \<not> first then map_option ((#) c) (tag_rest False cs)
      else None)"

definition scanDollarTag :: "string \<Rightarrow> string option" where
  "scanDollarTag s =
     (case s of [] \<Rightarrow> None | c # cs \<Rightarrow> if length s < 2 \<or> c \<noteq> CHR ''$'' then None else map_option ((#) c) (tag_rest True cs))"

text \<open>One round of the loop at \<open>c\<close> with \<open>cs\<close> behind it: the next mode, and how many bytes of \<open>cs\<close> it takes
  with it; \<^term>\<open>None\<close> where a statement ends.\<close>

definition sql_step :: "sql_mode \<Rightarrow> char \<Rightarrow> string \<Rightarrow> (sql_mode \<times> nat) option" where
  "sql_step m c cs =
     (case m of
        In_Line \<Rightarrow> Some (if c = byte 10 then Top else In_Line, 0)
      | In_Block \<Rightarrow> Some (if c = CHR ''*'' \<and> has_prefix cs ''/'' then (Top, 1) else (In_Block, 0))
      | In_Quote \<Rightarrow> Some (if c = CHR 0x27 then Top else In_Quote, 0)
      | In_Ident \<Rightarrow> Some (if c = CHR ''\"'' then Top else In_Ident, 0)
      | In_Dollar tag \<Rightarrow> Some (if has_prefix (c # cs) tag then (Top, length tag - 1) else (In_Dollar tag, 0))
      | Top \<Rightarrow>
          if c = CHR ''-'' \<and> has_prefix cs ''-'' then Some (In_Line, 0)
          else if c = CHR ''/'' \<and> has_prefix cs ''*'' then Some (In_Block, 0)
          else if c = CHR 0x27 then Some (In_Quote, 0)
          else if c = CHR ''\"'' then Some (In_Ident, 0)
          else if c = CHR ''$'' then
            (case scanDollarTag (c # cs) of Some tag \<Rightarrow> Some (In_Dollar tag, length tag - 1) | None \<Rightarrow> Some (Top, 0))
          else if c = CHR '';'' then None
          else Some (Top, 0))"

text \<open>A statement goes out trimmed, unless nothing is left of it.\<close>

definition put_statement :: "string \<Rightarrow> string list \<Rightarrow> string list" where
  "put_statement cur out = (if trim_space cur \<noteq> [] then out @ [trim_space cur] else out)"

function split_loop :: "sql_mode \<Rightarrow> string \<Rightarrow> string list \<Rightarrow> string \<Rightarrow> string list" where
  "split_loop m cur out [] = put_statement cur out"
| "split_loop m cur out (c # cs) =
     (case sql_step m c cs of
        None \<Rightarrow> split_loop Top [] (put_statement cur out) cs
      | Some (m', k) \<Rightarrow> split_loop m' (cur @ c # take k cs) out (drop k cs))"
  by pat_completeness auto
termination by (relation "measure (\<lambda>(m, cur, out, s). length s)") auto

definition SplitSQLStatements :: "string \<Rightarrow> string list" where
  "SplitSQLStatements sql = split_loop Top [] [] sql"

declare split_loop.simps [simp del]

lemma split_loop_Nil [simp]: "split_loop m cur out [] = put_statement cur out"
  by (simp add: split_loop.simps)

section \<open>Nothing is lost\<close>

definition kept :: "string list \<Rightarrow> string list" where
  "kept ps = filter (\<lambda>p. p \<noteq> []) (map trim_space ps)"

lemma kept_simps [simp]: "kept [] = []" "kept (p # ps) = put_statement p [] @ kept ps"
  by (simp_all add: kept_def put_statement_def)

lemma put_statement_append: "put_statement p out = out @ put_statement p []"
  by (simp add: put_statement_def)

lemma split_loop_pieces: "\<exists>ps. ps \<noteq> [] \<and> split_loop m cur out s = out @ kept ps \<and> join_with '';'' ps = cur @ s"
proof (induction m cur out s rule: split_loop.induct)
  case (1 m cur out)
  show ?case by (intro exI [of _ "[cur]"]) (simp add: put_statement_append [of cur out])
next
  case (2 m cur out c cs)
  show ?case
  proof (cases "sql_step m c cs")
    case None
    then have c: "c = CHR '';''" by (auto simp: sql_step_def split: sql_mode.splits if_splits option.splits)
    from 2(1) [OF None] obtain ps where "ps \<noteq> []" "split_loop Top [] (put_statement cur out) cs = put_statement cur out @ kept ps"
      "join_with '';'' ps = cs" by auto
    then show ?thesis using None c
      by (intro exI [of _ "cur # ps"]) (cases ps, simp_all add: split_loop.simps put_statement_append [of cur out])
  next
    case (Some mk)
    obtain m' k where mk: "mk = (m', k)" by (cases mk)
    from 2(2) [OF Some mk [symmetric]] obtain ps where "ps \<noteq> []" "split_loop m' (cur @ c # take k cs) out (drop k cs) = out @ kept ps"
      "join_with '';'' ps = (cur @ c # take k cs) @ drop k cs" by blast
    then show ?thesis using Some mk by (intro exI [of _ ps]) (simp add: split_loop.simps)
  qed
qed

text \<open>
  The statements are the pieces of the text between some of its semicolons, trimmed, in order, without
  the empty ones: nothing else is dropped, moved or changed.
\<close>

theorem split_keeps_text:
  "\<exists>ps. join_with '';'' ps = sql \<and> SplitSQLStatements sql = filter (\<lambda>p. p \<noteq> []) (map trim_space ps)"
  using split_loop_pieces [of Top "[]" "[]" sql] by (auto simp: SplitSQLStatements_def kept_def)

section \<open>The right semicolons\<close>

text \<open>
  SQL text as a sequence of complete tokens. A minus, a slash or a dollar sign that opens nothing is taken
  with the character behind it.
\<close>

datatype sql_token =
    Plain char
  | Sign char char
  | Line_Comment string
  | Block_Comment string
  | Quoted string
  | Identifier string
  | Dollar_Quoted string string

fun token_text :: "sql_token \<Rightarrow> string" where
  "token_text (Plain c) = [c]"
| "token_text (Sign c d) = [c, d]"
| "token_text (Line_Comment b) = ''--'' @ b @ [byte 10]"
| "token_text (Block_Comment b) = ''/*'' @ b @ ''*/''"
| "token_text (Quoted b) = CHR 0x27 # b @ [CHR 0x27]"
| "token_text (Identifier b) = CHR ''\"'' # b @ [CHR ''\"'']"
| "token_text (Dollar_Quoted tag b) = tag @ b @ tag"

definition plain_char :: "char \<Rightarrow> bool" where
  "plain_char c \<longleftrightarrow> c \<notin> {CHR ''-'', CHR ''/'', CHR 0x27, CHR ''\"'', CHR ''$'', CHR '';''}"

text \<open>The body of a block comment: not closed early. (A body that begins with a slash is closed at once by this
  scanner, see \<open>slash_closes_comment\<close> below.)\<close>

fun no_close :: "string \<Rightarrow> bool" where
  "no_close [] = True"
| "no_close (c # cs) = (\<not> (c = CHR ''*'' \<and> has_prefix cs ''/'') \<and> no_close cs)"

fun no_tag :: "string \<Rightarrow> string \<Rightarrow> bool" where
  "no_tag tag [] = True"
| "no_tag tag (c # cs) = (\<not> has_prefix (c # cs @ tag) tag \<and> no_tag tag cs)"

fun token_ok :: "sql_token \<Rightarrow> bool" where
  "token_ok (Plain c) = plain_char c"
| "token_ok (Sign c d) = (if c = CHR ''$'' then is_digit d else c \<in> {CHR ''-'', CHR ''/''} \<and> plain_char d \<and> d \<noteq> CHR ''*'')"
| "token_ok (Line_Comment b) = (byte 10 \<notin> set b)"
| "token_ok (Block_Comment b) = (\<not> has_prefix b ''/'' \<and> no_close b)"
| "token_ok (Quoted b) = (CHR 0x27 \<notin> set b)"
| "token_ok (Identifier b) = (CHR ''\"'' \<notin> set b)"
| "token_ok (Dollar_Quoted tag b) = (scanDollarTag tag = Some tag \<and> no_tag tag b)"

definition statement_text :: "sql_token list \<Rightarrow> string" where
  "statement_text ts = concat (map token_text ts)"

lemma line_loop: "byte 10 \<notin> set b \<Longrightarrow> split_loop In_Line cur out (b @ byte 10 # r) = split_loop Top (cur @ b @ [byte 10]) out r"
  by (induction b arbitrary: cur) (auto simp: split_loop.simps sql_step_def)

lemma quote_loop: "CHR 0x27 \<notin> set b \<Longrightarrow> split_loop In_Quote cur out (b @ CHR 0x27 # r) = split_loop Top (cur @ b @ [CHR 0x27]) out r"
  by (induction b arbitrary: cur) (auto simp: split_loop.simps sql_step_def)

lemma ident_loop: "CHR ''\"'' \<notin> set b \<Longrightarrow> split_loop In_Ident cur out (b @ CHR ''\"'' # r) = split_loop Top (cur @ b @ [CHR ''\"'']) out r"
  by (induction b arbitrary: cur) (auto simp: split_loop.simps sql_step_def)

lemma block_loop: "no_close b \<Longrightarrow> split_loop In_Block cur out (b @ ''*/'' @ r) = split_loop Top (cur @ b @ ''*/'') out r"
proof (induction b arbitrary: cur)
  case (Cons c b)
  have "\<not> (c = CHR ''*'' \<and> has_prefix (b @ ''*/'' @ r) ''/'')" using Cons.prems by (cases b) (auto simp: has_prefix_def)
  then have "sql_step In_Block c (b @ ''*/'' @ r) = Some (In_Block, 0)" by (simp only: sql_step_def sql_mode.case if_False)
  with Cons show ?case by (simp add: split_loop.simps)
qed (simp add: split_loop.simps sql_step_def has_prefix_def)

lemma tag_rest_append: "tag_rest f s = Some t \<Longrightarrow> tag_rest f (s @ r) = Some t"
  by (induction f s arbitrary: t rule: tag_rest.induct) (auto split: if_splits)

lemma scanDollarTag_append: "scanDollarTag s = Some t \<Longrightarrow> scanDollarTag (s @ r) = Some t"
  by (auto simp: scanDollarTag_def tag_rest_append split: list.splits if_splits)

lemma has_prefix_longer: "length p \<le> length s \<Longrightarrow> has_prefix (s @ r) p = has_prefix s p"
  by (simp add: has_prefix_def)

lemma dollar_open:
  assumes "scanDollarTag tag = Some tag"
  shows "split_loop Top cur out (tag @ s) = split_loop (In_Dollar tag) (cur @ tag) out s"
proof -
  from assms obtain cs where t: "tag = CHR ''$'' # cs" by (auto simp: scanDollarTag_def split: list.splits if_splits)
  have "sql_step Top (CHR ''$'') (cs @ s) = Some (In_Dollar tag, length tag - 1)"
    using scanDollarTag_append [OF assms, of s] by (simp add: sql_step_def t)
  then show ?thesis by (simp add: t split_loop.simps)
qed

lemma dollar_loop: "no_tag tag b \<Longrightarrow> tag \<noteq> [] \<Longrightarrow> split_loop (In_Dollar tag) cur out (b @ tag @ r) = split_loop Top (cur @ b @ tag) out r"
proof (induction b arbitrary: cur)
  case Nil
  then obtain t ts where t: "tag = t # ts" by (cases tag) auto
  then have "sql_step (In_Dollar tag) t (ts @ r) = Some (Top, length ts)" by (simp add: sql_step_def has_prefix_def)
  then show ?case by (simp add: t split_loop.simps)
next
  case (Cons c b)
  have "\<not> has_prefix (c # b @ tag @ r) tag" using Cons.prems(1) has_prefix_longer [of tag "c # b @ tag" r] by simp
  then have "sql_step (In_Dollar tag) c (b @ tag @ r) = Some (In_Dollar tag, 0)" by (simp add: sql_step_def)
  with Cons show ?case by (simp add: split_loop.simps)
qed

lemma plain_step: "plain_char c \<Longrightarrow> sql_step Top c s = Some (Top, 0)"
  by (simp add: sql_step_def plain_char_def)

lemma token_loop:
  assumes "token_ok t"
  shows "split_loop Top cur out (token_text t @ r) = split_loop Top (cur @ token_text t) out r"
proof (cases t)
  case (Plain c)
  with assms show ?thesis by (simp add: split_loop.simps plain_step)
next
  case (Sign c d)
  have d: "plain_char d" using assms Sign by (auto simp: plain_char_def is_digit_def less_eq_char_def split: if_splits)
  have "sql_step Top c (d # r) = Some (Top, 0)"
    using assms Sign by (auto simp: sql_step_def has_prefix_def plain_char_def scanDollarTag_def tag_letter_def is_digit_def less_eq_char_def split: if_splits)
  with Sign d show ?thesis by (simp add: split_loop.simps plain_step)
next
  case (Line_Comment b)
  have dash: "CHR ''-'' \<noteq> byte 10" by code_simp
  have "split_loop Top cur out (CHR ''-'' # CHR ''-'' # b @ byte 10 # r) = split_loop In_Line (cur @ ''--'') out (b @ byte 10 # r)"
    using dash by (simp add: split_loop.simps sql_step_def has_prefix_def)
  with Line_Comment assms show ?thesis by (simp add: line_loop)
next
  case (Block_Comment b)
  have "sql_step In_Block (CHR ''*'') (b @ ''*/'' @ r) = Some (In_Block, 0)"
    using assms Block_Comment by (cases b) (auto simp: sql_step_def has_prefix_def)
  moreover have "sql_step Top (CHR ''/'') (CHR ''*'' # b @ ''*/'' @ r) = Some (In_Block, 0)" by (simp add: sql_step_def has_prefix_def)
  ultimately have "split_loop Top cur out (''/*'' @ b @ ''*/'' @ r) = split_loop In_Block (cur @ ''/*'') out (b @ ''*/'' @ r)"
    by (simp add: split_loop.simps)
  with Block_Comment assms block_loop [of b "cur @ ''/*''" out r] show ?thesis by simp
next
  case (Quoted b)
  have "sql_step Top (CHR 0x27) (b @ CHR 0x27 # r) = Some (In_Quote, 0)" by (simp add: sql_step_def)
  with Quoted assms show ?thesis by (simp add: split_loop.simps quote_loop)
next
  case (Identifier b)
  have "sql_step Top (CHR ''\"'') (b @ CHR ''\"'' # r) = Some (In_Ident, 0)" by (simp add: sql_step_def)
  with Identifier assms show ?thesis by (simp add: split_loop.simps ident_loop)
next
  case (Dollar_Quoted tag b)
  then have "scanDollarTag tag = Some tag" "no_tag tag b" "tag \<noteq> []" using assms by (auto simp: scanDollarTag_def)
  with Dollar_Quoted show ?thesis by (simp add: dollar_open dollar_loop)
qed

lemma statement_loop: "list_all token_ok ts \<Longrightarrow> split_loop Top cur out (statement_text ts @ r) = split_loop Top (cur @ statement_text ts) out r"
  by (induction ts arbitrary: cur) (simp_all add: statement_text_def token_loop)

lemma statements_loop:
  assumes "\<forall>ts \<in> set sts. list_all token_ok ts" "sts \<noteq> []"
  shows "split_loop Top [] out (join_with '';'' (map statement_text sts)) = out @ kept (map statement_text sts)"
  using assms
proof (induction sts arbitrary: out)
  case (Cons ts sts)
  have l: "split_loop Top [] out (statement_text ts @ r) = split_loop Top (statement_text ts) out r" for r
    using Cons.prems(1) statement_loop [of ts "[]" out r] by simp
  show ?case
  proof (cases sts)
    case Nil
    with l [of "[]"] show ?thesis by (simp add: put_statement_append [of "statement_text ts" out])
  next
    case (Cons us uss)
    have "sql_step Top (CHR '';'') s = None" for s by (simp add: sql_step_def)
    with l have "split_loop Top [] out (join_with '';'' (map statement_text (ts # sts))) =
        split_loop Top [] (put_statement (statement_text ts) out) (join_with '';'' (map statement_text sts))"
      by (simp add: Cons split_loop.simps)
    with Cons.IH [of "put_statement (statement_text ts) out"] Cons.prems(1) show ?thesis
      by (simp add: Cons put_statement_append [of "statement_text ts" out])
  qed
qed simp

lemma split_statements:
  assumes "\<forall>ts \<in> set sts. list_all token_ok ts"
  shows "SplitSQLStatements (join_with '';'' (map statement_text sts)) = filter (\<lambda>p. p \<noteq> []) (map (trim_space \<circ> statement_text) sts)"
proof (cases "sts = []")
  case True
  then show ?thesis using length_trim_space [of "[]"] by (simp add: SplitSQLStatements_def put_statement_def)
next
  case False
  from statements_loop [OF assms this, of "[]"] show ?thesis by (simp add: SplitSQLStatements_def kept_def)
qed

text \<open>
  C26 (split_finds_statements). Statements made of complete tokens (strings, quoted identifiers, comments, dollar quotes with or without a
  tag, all of which may hold semicolons, and plain text, which holds none) and joined by semicolons
  are split into those statements, trimmed, the empty ones left out.
\<close>

theorem split_finds_statements:
  assumes "\<forall>ts \<in> set sts. list_all token_ok ts"
  shows "SplitSQLStatements (join_with '';'' (map statement_text sts)) = filter (\<lambda>p. p \<noteq> []) (map (trim_space \<circ> statement_text) sts)"
  by (rule split_statements [OF assms])

theorem split_finds_statements_witness:
  "SplitSQLStatements (join_with '';''
     [statement_text [Plain CHR ''x'', Quoted '';''], statement_text [Dollar_Quoted ''$$'' ''a;b'', Sign CHR ''$'' CHR ''1''], []]) =
   filter (\<lambda>p. p \<noteq> []) (map trim_space [statement_text [Plain CHR ''x'', Quoted '';''], ''$$a;b$$$1'', []])"
proof -
  have "\<forall>ts \<in> set [[Plain CHR ''x'', Quoted '';''], [Dollar_Quoted ''$$'' ''a;b'', Sign CHR ''$'' CHR ''1''], []]. list_all token_ok ts"
    by (simp add: plain_char_def scanDollarTag_def has_prefix_def is_digit_def less_eq_char_def)
  from split_finds_statements [OF this] show ?thesis by (simp add: statement_text_def)
qed

text \<open>A block comment that begins with a slash: SQL reads one comment up to the second \<open>*/\<close>, this scanner closes
  it at the first and splits inside.\<close>

lemma slash_closes_comment:
  "SplitSQLStatements (''/*/'' @ r) = split_loop Top ''/*/'' [] r" "split_loop Top cur out ('';'' @ r) = split_loop Top [] (put_statement cur out) r"
  by (simp_all add: SplitSQLStatements_def split_loop.simps sql_step_def has_prefix_def)

end
