(* ===== verification/Commands.thy ===== *)
theory Commands
  imports Account_Guarantees Sql_Split
begin

text \<open>
  The commands beside the server: the sample accounts (\<open>cmd/seed/main.go\<close>) and the runner of the
  PostgreSQL schema (\<open>cmd/migrate/main.go\<close>, \<open>MigrationStatements\<close>).
\<close>

section \<open>Seeding\<close>

record seed_user =
  sd_email :: string
  sd_name :: string
  sd_password :: string

definition seed_users :: "seed_user list" where
  "seed_users =
     [\<lparr>sd_email = ''sugeng@example.com'', sd_name = ''Sugeng Widodo'', sd_password = ''Password123!''\<rparr>,
      \<lparr>sd_email = ''anita@example.com'', sd_name = ''Anita Rahayu'', sd_password = ''Password123!''\<rparr>,
      \<lparr>sd_email = ''adit@example.com'', sd_name = ''Aditya Pratama'', sd_password = ''Password123!''\<rparr>]"

text \<open>The loop returns the count and, at the first failure, its error.\<close>

fun seed_loop :: "iam_store \<Rightarrow> seed_user list \<Rightarrow> nat \<Rightarrow> (nat \<times> go_error option) act" where
  "seed_loop store [] k = ret (k, None)"
| "seed_loop store (u # us) k =
     catch (HashPassword (sd_password u)) (\<lambda>hashed.
       case hashed of
         Inl err \<Rightarrow> ret (k, Some (Errorf (''hash password for '' @ sd_email u) err))
       | Inr hash \<Rightarrow>
           catch (us_UpsertUser store (sd_email u) (sd_name u) hash) (\<lambda>saved.
             case saved of
               Inl err \<Rightarrow> ret (k, Some (Errorf (''upsert user '' @ sd_email u) err))
             | Inr _ \<Rightarrow> seed_loop store us (k + 1)))"

definition seedUsers :: "(nat \<times> go_error option) act" where
  "seedUsers e = seed_loop (iam_NewStore e) seed_users 0 e"

section \<open>The schema\<close>

text \<open>The embedded file, or the error of reading it.\<close>

definition MigrationStatements :: "go_error + string \<Rightarrow> go_error + string list" where
  "MigrationStatements file =
     (case file of
        Inl err \<Rightarrow> Inl (Errorf ''read migrations/000001_init.up.sql'' err)
      | Inr text \<Rightarrow> Inr (SplitSQLStatements text))"

text \<open>\<open>exec\<close> is what the database does with a statement.\<close>

fun run_statements :: "(string \<Rightarrow> 'd \<Rightarrow> go_error + 'd) \<Rightarrow> nat \<Rightarrow> string list \<Rightarrow> 'd \<Rightarrow> go_error option \<times> 'd" where
  "run_statements exec i [] d = (None, d)"
| "run_statements exec i (s # ss) d =
     (case exec s d of
        Inl err \<Rightarrow> (Some (Errorf (''statement '' @ show_nat (i + 1)) err), d)
      | Inr d' \<Rightarrow> run_statements exec (i + 1) ss d')"

text \<open>\<open>run\<close>: the error of the configuration, the driver and the state of the opened database; the line printed or the
  error returned, and the state.\<close>

definition migrate_run :: "go_error option \<Rightarrow> go_error + driver \<times> 'd \<Rightarrow> go_error + string \<Rightarrow> (string \<Rightarrow> 'd \<Rightarrow> go_error + 'd) \<Rightarrow>
    (go_error + string) \<times> 'd option" where
  "migrate_run invalid opened file exec =
     (case invalid of
        Some err \<Rightarrow> (Inl err, None)
      | None \<Rightarrow>
          (case opened of
             Inl err \<Rightarrow> (Inl err, None)
           | Inr (drv, d) \<Rightarrow>
               if drv = DriverSQLite then (Inr ''applied sqlite schema'', Some d)
               else (case MigrationStatements file of
                       Inl err \<Rightarrow> (Inl err, Some d)
                     | Inr ss \<Rightarrow>
                         (case run_statements exec 0 ss d of
                            (Some err, d') \<Rightarrow> (Inl err, Some d')
                          | (None, d') \<Rightarrow> (Inr (''applied '' @ show_nat (length ss) @ '' postgres statements''), Some d')))))"

lemma run_statements_fold: "(\<And>s d. exec s d = Inr (f s d)) \<Longrightarrow> run_statements exec i ss d = (None, fold f ss d)"
  by (induction ss arbitrary: i d) simp_all

text \<open>A file of complete statements, all of which the database takes: each is run once, in order.\<close>

lemma migrate_runs_the_file:
  assumes "\<forall>ts \<in> set sts. list_all token_ok ts" "drv \<noteq> DriverSQLite" "\<And>s d. exec s d = Inr (f s d)"
  shows "snd (migrate_run None (Inr (drv, d)) (Inr (join_with '';'' (map statement_text sts))) exec) =
    Some (fold f (filter (\<lambda>p. p \<noteq> []) (map (trim_space \<circ> statement_text) sts)) d)"
  using run_statements_fold [where f = f, OF assms(3), of 0 "filter (\<lambda>p. p \<noteq> []) (map (trim_space \<circ> statement_text) sts)" d] assms(2)
  by (simp add: migrate_run_def MigrationStatements_def split_statements [OF assms(1)] del: split_paired_All)

section \<open>What seeding leaves\<close>

text \<open>A live account with that e-mail and name, whose hash verifies the password.\<close>

definition seeded :: "env \<Rightarrow> seed_user \<Rightarrow> db \<Rightarrow> bool" where
  "seeded e s d \<longleftrightarrow> (\<exists>r \<in> set (users d). live_email e (sd_email s) r \<and> us_name r = sd_name s \<and>
     (\<exists>h. us_password_hash r = Some h \<and> (\<forall>w. VerifyPassword (sd_password s) h e w = (Done True, w))))"

lemma own_hash_verifies:
  assumes "argon2_sized e" "HashPassword p e w = (Done h, w')"
  shows "VerifyPassword p h e w1 = (Done True, w1)"
  using hash_verifies [OF assms] by auto

lemma store_upsert:
  assumes "us_UpsertUser (iam_NewStore e) em nm h e w = (res, w')"
  shows "(\<exists>r. added_user e em nm h r (dbase w) (dbase w')) \<or> upserted_user e em nm h (dbase w) (dbase w') \<or>
      dbase w' = dbase w \<and> (\<forall>u. res \<noteq> Done u)"
  using assms pg_accounts.upsert_user sqlite_accounts.upsert_user by (simp add: iam_NewStore_def split: if_splits)

lemma store_upsert_ok:
  assumes "us_UpsertUser (iam_NewStore e) em nm h e w = (res, w')" "accounts_ok e (dbase w)"
  shows "accounts_ok e (dbase w')"
  using store_upsert [OF assms(1)] assms(2) by (auto intro: add_user_ok upsert_ok)

lemma upsert_seeds:
  assumes "us_UpsertUser (iam_NewStore e) (sd_email s) (sd_name s) h e w = (Done u, w')"
    and "\<And>w1. VerifyPassword (sd_password s) h e w1 = (Done True, w1)"
  shows "seeded e s (dbase w')"
  using store_upsert [OF assms(1)]
proof (elim disjE exE conjE)
  fix r assume "added_user e (sd_email s) (sd_name s) h r (dbase w) (dbase w')"
  then obtain pid now where r: "r = (new_user_row pid (sd_email s) (sd_name s) h now)\<lparr>us_id := seq_users (dbase w) + 1\<rparr>"
    and "r \<in> set (users (dbase w'))" by (auto simp: added_user_def)
  moreover have "live_email e (sd_email s) r" "us_name r = sd_name s" "us_password_hash r = Some h"
    by (simp_all add: r new_user_row_def live_email_def)
  ultimately show ?thesis using assms(2) unfolding seeded_def by blast
next
  assume "upserted_user e (sd_email s) (sd_name s) h (dbase w) (dbase w')"
  then obtain f x where d: "dbase w' = (dbase w)\<lparr>users := update_where (live_email e (sd_email s))
      (\<lambda>r. r\<lparr>us_name := sd_name s, us_password_hash := Some h, us_updated := f r\<rparr>) (users (dbase w))\<rparr>"
    and x: "x \<in> set (users (dbase w))" "live_email e (sd_email s) x" by (auto simp: upserted_user_def list_ex_iff)
  let ?y = "x\<lparr>us_name := sd_name s, us_password_hash := Some h, us_updated := f x\<rparr>"
  have "?y \<in> set (users (dbase w'))" using x by (auto simp: d set_update_where)
  moreover have "live_email e (sd_email s) ?y" using x(2) by (simp add: live_email_def)
  ultimately show ?thesis using assms(2) unfolding seeded_def by (intro bexI [of _ ?y]) auto
qed simp

lemma upsert_keeps_seeded:
  assumes "us_UpsertUser (iam_NewStore e) em nm h e w = (res, w')" "seeded e s (dbase w)" "db_lower e em \<noteq> db_lower e (sd_email s)"
  shows "seeded e s (dbase w')"
proof -
  from assms(2) obtain x where x: "x \<in> set (users (dbase w))" "live_email e (sd_email s) x" "us_name x = sd_name s"
    "\<exists>h. us_password_hash x = Some h \<and> (\<forall>w. VerifyPassword (sd_password s) h e w = (Done True, w))"
    by (auto simp: seeded_def)
  have "\<not> live_email e em x" using x(2) assms(3) by (simp add: live_email_def)
  with x(1) have "x \<in> set (users (dbase w'))"
    using store_upsert [OF assms(1)] by (auto simp: added_user_def upserted_user_def set_update_where)
  with x(2-4) show ?thesis unfolding seeded_def by blast
qed

lemma seed_loop_run:
  assumes "seed_loop (iam_NewStore e) us k e w = (Done (n, err), w')" "argon2_sized e"
    and "distinct (map (db_lower e \<circ> sd_email) (done @ us))" "\<forall>s \<in> set done. seeded e s (dbase w)" "length done = k"
    and "accounts_ok e (dbase w)"
  shows "n \<le> k + length us \<and> (err = None \<longleftrightarrow> n = k + length us) \<and> accounts_ok e (dbase w') \<and>
    (\<forall>s \<in> set (take n (done @ us)). seeded e s (dbase w'))"
  using assms
proof (induction us arbitrary: k w "done")
  case Nil
  then show ?case by (auto simp: ret_def)
next
  case (Cons u us)
  obtain hr w1 where h: "HashPassword (sd_password u) e w = (hr, w1)" by fastforce
  have d1: "dbase w1 = dbase w" using dbase_HashPassword [OF h] .
  show ?case
  proof (cases hr)
    case (Done hash)
    note ok = own_hash_verifies [OF Cons.prems(2) h [unfolded Done]]
    obtain ur w2 where u: "us_UpsertUser (iam_NewStore e) (sd_email u) (sd_name u) hash e w1 = (ur, w2)" by fastforce
    have acc: "accounts_ok e (dbase w2)" using store_upsert_ok [OF u] d1 Cons.prems(6) by simp
    have kept: "\<forall>s \<in> set done. seeded e s (dbase w2)"
      using upsert_keeps_seeded [OF u] Cons.prems(3,4) d1 by (fastforce simp: image_iff)
    show ?thesis
    proof (cases ur)
      case (Done x)
      have "seeded e u (dbase w2)" using upsert_seeds [OF u [unfolded Done] ok] .
      with Cons.IH [of "Suc k" w2 "done @ [u]"] Cons.prems kept acc h u Done \<open>hr = Done hash\<close> show ?thesis by (simp add: catch_def)
    next
      case (Fail_with x)
      then have "n = k" "err \<noteq> None" "w' = w2" using Cons.prems(1) h u \<open>hr = Done hash\<close> by (auto simp: catch_def ret_def)
      with kept acc Cons.prems(5) show ?thesis by simp
    qed (use Cons.prems(1) h u \<open>hr = Done hash\<close> in \<open>simp add: catch_def\<close>)
  next
    case (Fail_with x)
    then have "n = k" "err \<noteq> None" "w' = w1" using Cons.prems(1) h by (auto simp: catch_def ret_def)
    with d1 Cons.prems(4-6) show ?thesis by simp
  qed (use Cons.prems(1) h in \<open>simp add: catch_def\<close>)
qed

lemma seed_users_length: "length seed_users = 3"
  by (simp add: seed_users_def)

text \<open>
  The seeding returns how many of its three accounts it has written and, when it is fewer, an error; each of
  those is a live account with the e-mail, the name and a hash that verifies the password, whether it was there before
  or not; and the tables of accounts stay consistent, whichever statement fails.
\<close>

theorem seeding:
  assumes "seedUsers e w = (Done (n, err), w')" "argon2_sized e" "accounts_ok e (dbase w)"
    and "distinct (map (db_lower e \<circ> sd_email) seed_users)"
  shows "n \<le> 3 \<and> (err = None \<longleftrightarrow> n = 3) \<and> accounts_ok e (dbase w') \<and> (\<forall>s \<in> set (take n seed_users). seeded e s (dbase w'))"
  using seed_loop_run [of e seed_users 0 w n err w' "[]"] assms by (simp add: seedUsers_def seed_users_length)

lemma sample_hashed: "\<exists>enc. HashPassword p (calm DriverSQLite) w = (Done enc, tick w)"
  by (simp add: HashPassword_def argon2_version_def DefaultArgon2Params_def rand_read_def IDKey_def act_simps bind_act_def)

lemma sample_upserted:
  assumes "\<not> list_ex (live_email (calm DriverSQLite) em) (users (dbase w))"
    "\<not> list_ex (\<lambda>x. us_public x = ''uuid-'' @ show_nat (Suc (ticks w))) (users (dbase w))"
  shows "\<exists>u w1 r. sqlite_UpsertUser em nm enc (calm DriverSQLite) w = (Done u, w1) \<and> ticks w1 = ticks w + 3 \<and>
    users (dbase w1) = users (dbase w) @ [r] \<and> us_email r = em \<and> us_public r = ''uuid-'' @ show_nat (Suc (ticks w))"
proof -
  have "first_row (live_email (calm DriverSQLite) em) (users (dbase w)) = None" using assms(1) by (auto simp: first_row_None_iff list_ex_iff)
  then show ?thesis using assms
  by (simp add: sqlite_UpsertUser_def bind_act_def act_simps map_error_def stmt_def upsert_user_def insert_user_def unfit_def new_user_row_def
        scanSQLiteUser_def with_hash_def user_of_row_def Let_def)
qed

text \<open>Seeding an empty database.\<close>

lemma apart: "ascii_lower ''sugeng@example.com'' \<noteq> ascii_lower ''anita@example.com''"
  "ascii_lower ''sugeng@example.com'' \<noteq> ascii_lower ''adit@example.com''" "ascii_lower ''anita@example.com'' \<noteq> ascii_lower ''adit@example.com''"
  by code_simp+

lemma numbers_differ: "show_nat m = show_nat n \<longleftrightarrow> m = n"
  using show_nat_inj by blast

lemma sample_step:
  assumes "\<not> list_ex (live_email (calm DriverSQLite) (sd_email u)) (users (dbase w))"
    "\<not> list_ex (\<lambda>x. us_public x = ''uuid-'' @ show_nat (ticks w + 2)) (users (dbase w))"
  shows "\<exists>w1 r. seed_loop sqliteUserStore (u # us) k (calm DriverSQLite) w = seed_loop sqliteUserStore us (k + 1) (calm DriverSQLite) w1 \<and>
    ticks w1 = ticks w + 4 \<and> users (dbase w1) = users (dbase w) @ [r] \<and> us_email r = sd_email u \<and> us_public r = ''uuid-'' @ show_nat (ticks w + 2)"
proof -
  obtain enc where h: "HashPassword (sd_password u) (calm DriverSQLite) w = (Done enc, tick w)" using sample_hashed by blast
  obtain x w1 r where "sqlite_UpsertUser (sd_email u) (sd_name u) enc (calm DriverSQLite) (tick w) = (Done x, w1)" "ticks w1 = ticks w + 4"
    "users (dbase w1) = users (dbase w) @ [r]" "us_email r = sd_email u" "us_public r = ''uuid-'' @ show_nat (ticks w + 2)"
    using sample_upserted [of "sd_email u" "tick w" "sd_name u" enc] assms by auto
  with h show ?thesis by (intro exI [of _ w1] exI [of _ r]) (simp add: catch_def sqliteUserStore_def)
qed

lemma sample_seeding: "\<exists>w'. seedUsers (calm DriverSQLite) (start_world empty_db) = (Done (3, None), w')"
proof -
  let ?e = "calm DriverSQLite" and ?w = "start_world empty_db"
  obtain a b c where abc: "seed_users = [a, b, c]" "sd_email a = ''sugeng@example.com''" "sd_email b = ''anita@example.com''" "sd_email c = ''adit@example.com''"
    by (simp add: seed_users_def)
  have n: "users empty_db = []" "ticks ?w = 0" by (simp_all add: empty_db_def)
  let ?loop = "seed_loop sqliteUserStore"
  have p0: "\<not> list_ex (live_email ?e (sd_email a)) (users (dbase ?w))" "\<not> list_ex (\<lambda>x. us_public x = ''uuid-'' @ show_nat (ticks ?w + 2)) (users (dbase ?w))"
    by (simp_all add: n)
  from sample_step [OF p0, of "[b, c]" 0] obtain w1 r1 where 1: "?loop [a, b, c] 0 ?e ?w = ?loop [b, c] (0 + 1) ?e w1" "ticks w1 = ticks ?w + 4"
    "users (dbase w1) = users (dbase ?w) @ [r1]" "us_email r1 = sd_email a" "us_public r1 = ''uuid-'' @ show_nat (ticks ?w + 2)" by blast
  have p1: "\<not> list_ex (live_email ?e (sd_email b)) (users (dbase w1))" "\<not> list_ex (\<lambda>x. us_public x = ''uuid-'' @ show_nat (ticks w1 + 2)) (users (dbase w1))"
    using apart by (simp_all add: 1 n abc live_email_def db_lower_def numbers_differ)
  from sample_step [OF p1, of "[c]" "0 + 1"] obtain w2 r2 where 2: "?loop [b, c] (0 + 1) ?e w1 = ?loop [c] (0 + 1 + 1) ?e w2" "ticks w2 = ticks w1 + 4"
    "users (dbase w2) = users (dbase w1) @ [r2]" "us_email r2 = sd_email b" "us_public r2 = ''uuid-'' @ show_nat (ticks w1 + 2)" by blast
  have p2: "\<not> list_ex (live_email ?e (sd_email c)) (users (dbase w2))" "\<not> list_ex (\<lambda>x. us_public x = ''uuid-'' @ show_nat (ticks w2 + 2)) (users (dbase w2))"
    using apart by (simp_all add: 1(2-5) 2(2-5) n abc live_email_def db_lower_def numbers_differ)
  from sample_step [OF p2, of "[]" "0 + 1 + 1"] obtain w3 where 3: "?loop [c] (0 + 1 + 1) ?e w2 = ?loop [] (0 + 1 + 1 + 1) ?e w3" by blast
  have "seedUsers ?e ?w = ?loop [] (0 + 1 + 1 + 1) ?e w3"
    using 1(1) 2(1) 3 by (simp only: seedUsers_def iam_NewStore_def calm_simps abc(1) if_True simp_thms)
  then show ?thesis by (simp add: ret_def)
qed

theorem seeding_witness:
  "\<exists>w'. seedUsers (calm DriverSQLite) (start_world empty_db) = (Done (3, None), w') \<and>
    (\<forall>s \<in> set seed_users. seeded (calm DriverSQLite) s (dbase w'))"
proof -
  obtain w' where w: "seedUsers (calm DriverSQLite) (start_world empty_db) = (Done (3, None), w')" using sample_seeding by blast
  have "argon2_sized (calm DriverSQLite)" by (auto simp: argon2_sized_def calm_def)
  moreover have "accounts_ok (calm DriverSQLite) (dbase (start_world empty_db))"
    by (simp add: accounts_ok_def live_emails_def) (simp add: empty_db_def)
  moreover have "distinct (map (db_lower (calm DriverSQLite) \<circ> sd_email) seed_users)"
    using apart by (simp add: db_lower_def seed_users_def)
  ultimately show ?thesis using seeding [OF w] w by (simp add: seed_users_length)
qed

end
