(* ===== verification/Spec2Isabelle.thy ===== *)
theory Spec2Isabelle
  imports Idempotency Task_Search Task_Guarantees Account_Guarantees App_Guarantees Sqlite_Parse Janitor Logging App_Life Commands
begin

text \<open>
  A model of the Malaka task management API and the theorems about it.

  \<^bold>\<open>The program.\<close> One Go process serves two modules over HTTP: accounts (\<open>internal/modules/iam\<close>: registration, login, sessions) and
  tasks (\<open>internal/modules/tasks\<close>: create, list, update, assign, delete). Every request goes through a chain of middlewares
  (\<open>internal/platform/mid\<close>): correlation id, recovery, security headers, CORS, rate limit, body limit, access log; then through
  the router, and for the guarded routes through authentication and idempotency. A change of a task is one transaction
  that writes the task, an event into the outbox (\<open>internal/platform/event/outbox.go\<close>) and a row of the hash-chained audit log
  (\<open>internal/platform/audit\<close>). A relay takes the events out of the outbox and publishes them on the in-process bus
  (\<open>internal/platform/event/bus.go\<close>), whose workers call the subscribed handlers. All of it runs on SQLite or PostgreSQL.

  \<^bold>\<open>Foundations.\<close> \<open>Prelude\<close> holds tables as lists of rows and the lemmas about them. \<open>Go_Strings\<close>, \<open>Go_Time\<close>, \<open>Durations\<close>, \<open>Base64\<close>, \<open>Json\<close>
  and \<open>Json_Decode\<close> are the parts of the standard library the program computes with: strings are lists of bytes, times
  and durations whole numbers of nanoseconds, documents are written by \<open>render\<close> and read by a scanner with an explicit
  stack, which terminates because every step takes a byte. \<open>Sqlite_Time\<close> and \<open>Sqlite_Parse\<close> show that the texts SQLite keeps for times are
  ordered and read back as the times themselves, for the years 0 to 9999, so that rows can hold times.
  \<open>App_Error\<close> is \<open>httpx/error.go\<close>: error chains and what a client sees of them. \<open>World\<close> is \<open>internal/platform/db\<close>: the
  tables of the schema, actions \<open>env \<Rightarrow> world \<Rightarrow> result \<times> world\<close> whose every statement may fail, and \<open>ExecTx\<close>. The environment gives
  the clock, the fresh identifiers, the failures and the functions of other packages; each statement and each reading
  of the clock takes one tick of the world. \<open>Http\<close> has requests, the envelope (\<open>respond.go\<close>, \<open>envelope.go\<close>) and \<open>Chain\<close>: a handler's effect on
  its writer is the list of calls it makes, so that a wrapper around the writer is a function of that list.

  \<^bold>\<open>Components.\<close>
  \<^item> \<open>Redact\<close> (\<open>pkg/slogx/redact.go\<close>), \<open>Logging\<close> (the rest of \<open>pkg/slogx\<close>, \<open>internal/platform/dblog\<close>, the access log and the logger of
    \<open>cmd/api\<close>): what a document or a printed line can show, attribute by attribute.
  \<^item> \<open>Audit_Log\<close>: \<open>LogTx\<close>, the chain of hashes and that tampering shows: in the hashed text always, in the single fields where names hold
    no bar and values are JSON documents, since the text joins the fields with bars.
  \<^item> \<open>Event_Bus\<close>: publishers, workers, waiting callers and \<open>Close\<close> as the step relation \<open>bus_step\<close>; its invariant \<open>bus_ok\<close>, the order
    of events, the one accepted event each reply belongs to, and a measure that bounds the steps of the workers after \<open>Close\<close>.
  \<^item> \<open>Outbox\<close>: \<open>Add\<close>, a batch of the relay for each driver, back-off and the ticks of \<open>Run\<close>.
  \<^item> \<open>Idem_Store\<close>, \<open>Idempotency\<close> (\<open>mid/idempotency.go\<close>): the claims on keys for each driver under the locale \<open>claim_contract\<close>, the recorder
    around the writer, conflict resolution and replay.
  \<^item> \<open>Task_Store\<close>, \<open>Task_Search\<close>, \<open>Task_Service\<close>, \<open>Task_Handler\<close>, \<open>Task_Guarantees\<close>: both stores under the locale of their contract, the
    LIKE search, the service, the handlers with the page arithmetic at 64 bits, and what the module promises.
  \<^item> \<open>Password\<close>, \<open>Token\<close>, \<open>Auth\<close>, \<open>Iam_Store\<close>, \<open>Iam_Service\<close>, \<open>Iam_Handler\<close>, \<open>Iam_Tables\<close>, \<open>Iam_Guarantees\<close>, \<open>Account_Guarantees\<close>: password hashes, access tokens,
    authentication, both stores of accounts under the locale \<open>account_contract\<close>, the service; \<open>Iam_Tables\<close> is the abstract
    machine of users and sessions that the account operations refine.
  \<^item> \<open>Config\<close>, \<open>Rate_Limit\<close>, \<open>Middleware\<close>, \<open>App\<close>: the configuration, the token buckets, the other middlewares, the routes and the chain of
    \<open>app.New\<close>. \<open>App_Responses\<close> and \<open>App_Guarantees\<close> speak of every response and every change through the whole chain.
  \<^item> \<open>App_Life\<close> (\<open>app.Run\<close>): relay, HTTP server and main goroutine side by side over the bus, up to the end of the process.
  \<^item> \<open>Janitor\<close> (\<open>internal/platform/janitor\<close>), \<open>Sql_Split\<close> (\<open>db/sql_split.go\<close>), \<open>Commands\<close> (\<open>cmd/seed\<close>, \<open>cmd/migrate\<close>).
  This theory joins the middleware and the task module: a keyed creation and its retry create one task.

  \<^bold>\<open>How the proofs are laid out.\<close> Where two drivers implement one interface the laws are the assumptions of a locale, the users of the
  interface are proved once inside it, and the implementations are interpretations. Properties of a table machine go
  by rule induction over its steps; what a middleware keeps (\<open>handler_leaves\<close>, \<open>changes_need_it\<close>) is proved for each and composed along
  the chain. Hypotheses are kept to what the code cannot ensure itself: \<open>failure\<close> nowhere set where success is
  claimed, a clock that does not run backwards, a random function with output of the size asked for (\<open>argon2_sized\<close>),
  \<open>float64\<close> rounding within a relative error (\<open>rounds_within\<close>, which the subnormal numbers do not keep), \<open>strings.ToLower\<close> that of ASCII on ASCII,
  identifiers to come that are new (\<open>registered_account_logs_in\<close>), and, for \<open>changes_need_authority\<close> and \<open>every_response_marked\<close>, that the router's own
  answers change no table and do not touch the headers in question. Digests are arbitrary functions; where a theorem
  would need them injective it says "or the digest collides". Witnesses run the theorems on \<open>calm\<close>, an environment with simple
  functions in their place.

  \<^bold>\<open>Fuel and bounds.\<close> No definition runs on fuel. The only bound on a loop is that of \<open>Run_ticks\<close>, the number of ticks, over which the theorems
  quantify. Machine integers: page and limit are 64-bit words where their product wraps; other integers stay within the
  ranges their parsers check; an id written into a document is reduced to 64 bits (\<open>wrapped\<close>).

  \<^bold>\<open>Not modelled.\<close>
  \<^item> Requests are handled one after the other against the tables; only the bus and the life of the process interleave. So lock
    waits, deadlocks and the isolation levels of PostgreSQL are out of reach; SQLite has one connection and immediate
    transactions. Pools and connection strings (\<open>db.New\<close>, \<open>sqlite.go\<close>) only call drivers.
  \<^item> argon2id, SHA-256, HMAC, the address parser of \<open>net/mail\<close>, \<open>time.ParseDuration\<close>, the uuid library and the case folding of PostgreSQL are arguments of
    the model.
  \<^item> \<open>http.ServeMux\<close> is modelled as far as the patterns of this program go; its own answers (404, 405, redirects of unclean paths) are the
    argument \<open>other\<close>. Header names are taken in their canonical spelling. The deadlines of \<open>http.Server\<close> are left out.
  \<^item> Documents have integers for numbers, the only ones the program writes. \<open>RedactJSON\<close> follows \<open>encoding/json\<close> through \<open>any\<close>: what it refuses,
    duplicate and sorted keys, \<open>float64\<close> and its shortest digits; a float from \<open>10^21\<close> on is kept as its digits, where Go writes an exponent.
  \<^item> SQLite's LIKE on texts with NUL bytes, which end a pattern or a title there, and on texts that are not UTF-8. Which plan PostgreSQL takes for
    the task list is the argument \<open>index_scan\<close>; it decides only which rows a failing ILIKE pattern is met on.
  \<^item> After a statement that fails, PostgreSQL leaves a gap in its identities; here the next id is taken.
  \<^item> What is printed: the text of log lines, terminal output, exit codes, signals.
  \<^item> Generated glue of sqlc without logic, \<open>pkg/id\<close>, \<open>pkg/version\<close> and the test utilities.
\<close>

section \<open>Creating a task under an idempotency key\<close>

text \<open>A key that is not in the table is claimed, and nothing but the table of keys changes.\<close>

lemma acquire_fresh:
  assumes calm: "\<forall>n. failure e n = None" and drv: "driver_of e = DriverSQLite"
    and new: "shown e (dbase w) (cq_scope c) = None" and user: "user_exists (dbase w) (cs_user (cq_scope c))"
  shows "\<exists>i w0 ks. acquire dbClaimStore c e w = (Done (Inr i), w0) \<and>
    dbase w0 = (dbase w)\<lparr>idem_keys := ks, seq_idem := seq_idem (dbase w) + 1\<rparr> \<and> tx_now w0 = tx_now w"
proof -
  let ?s = "cq_scope c"
  have "first_row (has_scope (cs_key ?s) ?s) (idem_keys (dbase w)) = None"
    using new drv by (auto simp: shown_def scope_key_def split: option.splits)
  then have "\<not> list_ex (has_scope (cs_key ?s) ?s) (idem_keys (dbase w))"
    by (auto simp: list_ex_iff dest: first_row_NoneD)
  then show ?thesis
    using calm drv user
    by (simp add: acquire_def dbClaimStore_def db_Claim_def bind_act_def act_simps stmt_def insert_claim_def
        scope_key_def scope_path_def Let_def tick_def) (rule exI, rule refl)
qed

lemma HTTPStatus_not_201 [simp]: "HTTPStatus c \<noteq> 201"
  by (simp add: HTTPStatus_def)

lemma WriteAppError_not_201: "rs_status (send h (fst (WriteAppError err fb e w))) \<noteq> 201"
  by (simp add: WriteAppError_def send_Fail split: option.splits)

text \<open>A 201 from the creation handler means that the task was created.\<close>

lemma handler_create_201:
  assumes run: "Handler_Create (NewService e) e r h w = (rep, w')"
    and ok: "panicked rep = None" "rs_status (send h (ops rep)) = 201"
  shows "\<exists>input t. created (rq_ctx r) e (GetUserID (rq_ctx r)) (Normalize input) t (dbase w) (dbase w')"
proof (cases "Decode decode_Input r e w")
  case (Pair res w1)
  show ?thesis
  proof (cases res)
    case (Inl xs)
    with Pair run have "rep = returns xs" by (simp add: Handler_Create_def guarded_by_def)
    moreover have "rs_status (send h xs) \<noteq> 201"
      using Pair Inl by (auto simp: Decode_def Let_def Fail_def split: scan.splits option.splits if_splits)
    ultimately show ?thesis using ok(2) by (simp add: returns_def)
  next
    case (Inr input)
    have w1: "w1 = w" using Pair Inr by (auto simp: Decode_def Let_def Fail_def split: scan.splits option.splits if_splits)
    let ?m = "Service_Create (NewService e) (rq_ctx r) (GetUserID (rq_ctx r)) input"
    have body: "respond ''Failed to create task'' (\<lambda>t. Created_reply (task_json t)) ?m e w = (rep, w')"
      using run Pair Inr w1 by (simp add: Handler_Create_def guarded_by_def user_of_def)
    obtain out w2 where m: "?m e w = (out, w2)" by fastforce
    have "\<exists>t. out = Done t \<and> w' = w2"
    proof (cases out)
      case (Fail_with err)
      with body m have "answered_with (WriteAppError err ''Failed to create task'' e w2) = (rep, w')"
        by (simp add: respond_def)
      then have "ops rep = fst (WriteAppError err ''Failed to create task'' e w2)"
        by (auto simp: answered_with_def returns_def split: prod.splits)
      with ok(2) show ?thesis by (simp add: WriteAppError_not_201)
    qed (use body m ok in \<open>auto simp: respond_def\<close>)
    then obtain t where t: "out = Done t" "w' = w2" by blast
    have "effect (\<lambda>t d d'. Validate (Normalize input) = [] \<and>
        created (rq_ctx r) e (GetUserID (rq_ctx r)) (Normalize input) t d d') (dbase w) out (dbase w2)"
      by (rule new_service_cases [of e])
        (use m in \<open>auto intro: pg_store.Service_Create_effect sqlite_store.Service_Create_effect\<close>)
    with t show ?thesis by (auto simp: effect_def)
  qed
qed

lemma finalize_other_tables:
  "\<exists>ks. dbase (finalize_logged dbClaimStore i res e w) = (dbase w)\<lparr>idem_keys := ks\<rparr>"
proof -
  have same: "\<exists>ks. dbase w = (dbase w)\<lparr>idem_keys := ks\<rparr>" by (rule exI [of _ "idem_keys (dbase w)"]) simp
  show ?thesis
    using same by (auto simp: finalize_logged_def dbClaimStore_def db_Finalize_def update_claim_def bind_act_def stmt_def act_simps
        split: option.splits)
qed

text \<open>The run of a creation under an unused key that is answered 201: the handler's own run inside it, and what it inserted.\<close>

lemma fresh_creation:
  assumes calm: "\<forall>n. failure e n = None" and drv: "driver_of e = DriverSQLite" and adm: "admissible e r body"
    and c: "c = claim_of e r body (clock e (ticks w) + ttl_or_default ttl)"
    and new: "shown e (dbase w) (cq_scope c) = None" "user_exists (dbase w) (GetUserID (rq_ctx r))"
    and run: "Idempotency ttl (Handler_Create (NewService e)) e r h w = (rep, w')"
    and ok: "panicked rep = None" "rs_status (send h (ops rep)) = 201"
  obtains i w0 rep1 w1 x ob au where "acquire dbClaimStore c e (tick w) = (Done (Inr i), w0)"
    "Handler_Create (NewService e) e (buffered r body) h w0 = (rep1, w1)" "panicked rep1 = None"
    "send h (ops rep) = send h (ops rep1)" "idem_keys (dbase w1) = idem_keys (dbase w0)" "seq_idem (dbase w1) = seq_idem (dbase w0)"
    "tk_user x = GetUserID (rq_ctx r)" "tasks (dbase w') = tasks (dbase w) @ [x]"
    "outbox (dbase w') = outbox (dbase w) @ [ob]" "audit_logs (dbase w') = audit_logs (dbase w) @ [au]"
proof -
  have "user_exists (dbase (tick w)) (cs_user (cq_scope c))" "shown e (dbase (tick w)) (cq_scope c) = None"
    using c new by (simp_all add: claim_of_def)
  from acquire_fresh [OF calm drv this(2,1)] obtain i w0 ks where
    acq: "acquire dbClaimStore c e (tick w) = (Done (Inr i), w0)"
    and d0: "dbase w0 = (dbase w)\<lparr>idem_keys := ks, seq_idem := seq_idem (dbase w) + 1\<rparr>" by auto
  obtain rep1 w1 where inner: "Handler_Create (NewService e) e (buffered r body) h w0 = (rep1, w1)" by fastforce
  have "run_captured dbClaimStore i (cq_expires c) (Handler_Create (NewService e)) e (buffered r body) h w0 = (rep, w')"
    using run acq unfolding Idempotency_def idempotency_admissible [OF adm] Let_def c [symmetric]
    by (simp add: c claim_of_def)
  with inner ok(1) have p1: "panicked rep1 = None" and sent: "send h (ops rep) = send h (ops rep1)"
    and w': "w' = finalize_logged dbClaimStore i (result_of h (ops rep1) (cq_expires c)) e w1"
    by (auto simp: run_captured_def send_captured split: option.splits)
  from handler_create_201 [OF inner p1] ok(2) sent obtain input t where
    cr: "created (rq_ctx r) e (GetUserID (rq_ctx r)) (Normalize input) t (dbase w0) (dbase w1)"
    by (auto simp: buffered_def)
  obtain pid now x where x: "x = (new_task_row pid (GetUserID (rq_ctx r)) (Normalize input) now)\<lparr>tk_id := seq_tasks (dbase w0) + 1\<rparr>"
    and rc: "records ''task.created'' (task_json t) (audit_entry_of (GetUserID (rq_ctx r)) ''CREATE'' t None (Some t)) (rq_ctx r) e
        (dbase w0) ((dbase w0)\<lparr>tasks := tasks (dbase w0) @ [x], seq_tasks := seq_tasks (dbase w0) + 1\<rparr>) (dbase w1)"
    using cr by (auto simp: created_def)
  from rc obtain ob au where o: "outbox (dbase w1) = outbox (dbase w0) @ [ob]" "audit_logs (dbase w1) = audit_logs (dbase w0) @ [au]"
    and d1: "dbase w1 = (dbase w0)\<lparr>tasks := tasks (dbase w0) @ [x], seq_tasks := seq_tasks (dbase w0) + 1,
        outbox := outbox (dbase w1), seq_outbox := seq_outbox (dbase w1), audit_logs := audit_logs (dbase w1), seq_audit := seq_audit (dbase w1)\<rparr>"
    by (auto simp: records_def)
  have tk: "tasks (dbase w1) = tasks (dbase w0) @ [x]" "idem_keys (dbase w1) = idem_keys (dbase w0)"
    "seq_idem (dbase w1) = seq_idem (dbase w0)" by (subst d1, simp)+
  obtain ks' where dw: "dbase w' = (dbase w1)\<lparr>idem_keys := ks'\<rparr>" using finalize_other_tables w' by metis
  show thesis
    by (rule that [of i w0 rep1 w1 x ob au]) (use acq inner p1 sent tk o d0 dw in \<open>simp_all add: x new_task_row_def\<close>)
qed

text \<open>
  C1 (keyed_creation_happens_once). On SQLite, with a database that does not fail: a \<open>POST\<close> that creates a task under an
  unused idempotency key and is answered 201 has inserted one task, one event and one audit row; its
  immediate retry gets the same answer with the replay header and changes nothing, so the two
  requests together have created one task.
\<close>

theorem keyed_creation_happens_once:
  assumes "\<forall>n. failure e n = None" "driver_of e = DriverSQLite"
    and "admissible e r body" "idem_ok (dbase w)" "tx_now w = None"
    and "c = claim_of e r body (clock e (ticks w) + ttl_or_default ttl)" "varchar 64 (cq_hash c)"
    and "shown e (dbase w) (cq_scope c) = None" "user_exists (dbase w) (GetUserID (rq_ctx r))"
    and "Chain (Handler_Create (NewService e)) [Idempotency ttl] e r h0 w = (rep, w')"
    and "panicked rep = None" "rs_status (send h0 (ops rep)) = 201"
    and "retry_of e r body r2 body2" "\<forall>n \<le> ticks w' + 4. clock e n < cq_expires c"
    and "Chain (Handler_Create (NewService e)) [Idempotency ttl] e r2 h2 w' = (rep2, w2)"
  shows "(\<exists>x ob au. tasks (dbase w2) = tasks (dbase w) @ [x] \<and> tk_user x = GetUserID (rq_ctx r) \<and>
      outbox (dbase w2) = outbox (dbase w) @ [ob] \<and> audit_logs (dbase w2) = audit_logs (dbase w) @ [au]) \<and>
    dbase w2 = dbase w' \<and> panicked rep2 = None \<and> rs_status (send h2 (ops rep2)) = 201 \<and>
    rs_body (send h2 (ops rep2)) = rs_body (send h0 (ops rep))"
proof -
  let ?H = "Handler_Create (NewService e)"
  have calm: "failure e n = None" for n using assms(1) by simp
  have first: "Idempotency ttl ?H e r h0 w = (rep, w')" using assms(10) by simp
  from fresh_creation [OF assms(1-3,6,8,9) first assms(11,12)] obtain i w0 rep1 w1 x ob au where
    acq: "acquire dbClaimStore c e (tick w) = (Done (Inr i), w0)" and inner: "?H e (buffered r body) h0 w0 = (rep1, w1)"
    and p1: "panicked rep1 = None" and sent: "send h0 (ops rep) = send h0 (ops rep1)"
    and idem: "idem_keys (dbase w1) = idem_keys (dbase w0)" "seq_idem (dbase w1) = seq_idem (dbase w0)"
    and added: "tk_user x = GetUserID (rq_ctx r)" "tasks (dbase w') = tasks (dbase w) @ [x]"
      "outbox (dbase w') = outbox (dbase w) @ [ob]" "audit_logs (dbase w') = audit_logs (dbase w) @ [au]" .
  have run: "run_captured dbClaimStore i (cq_expires c) ?H e (buffered r body) h0 w0 = (rep, w')"
    using first acq unfolding Idempotency_def idempotency_admissible [OF assms(3)] Let_def assms(6) [symmetric]
    by (simp add: assms(6) claim_of_def)
  have stor: "storable e (result_of h0 (ops rep1) (cq_expires c))" using assms(2) by (simp add: storable_def)
  have fit: "fits e (cq_scope c)" using assms(2) by (simp add: fits_def scope_path_def)
  have "idem_ok (dbase w0)" "\<exists>rec. shown e (dbase w0) (cq_scope c) = Some rec \<and> held e c i rec"
    using claims.acquire_held [OF _ fit _ acq] assms(4,5) by simp_all
  then obtain rec where held: "idem_ok (dbase w0)" "shown e (dbase w0) (cq_scope c) = Some rec" "cr_id rec = i" by (auto simp: held_def)
  have keptf: "idem_ok (dbase w0) \<longrightarrow> idem_ok (dbase w1)" "shown e (dbase w1) = shown e (dbase w0)"
    using idem by (simp_all add: idem_ok_def shown_def fun_eq_iff split: option.splits)
  have kept: "idem_ok (dbase w1)" "shown e (dbase w1) (cq_scope c) = Some rec" using keptf held by simp_all
  have st: "rs_status (send h0 (ops rep1)) = 201" using sent assms(12) by simp
  then have lt: "rs_status (send h0 (ops rep1)) < 500" by simp
  have okw': "idem_ok (dbase w')" using claims.run_captured_stored [OF calm inner p1 lt kept held(3) stor run] by simp
  have time: "\<forall>n \<le> ticks w' + 4. clock e n < stored_time e (cq_expires c)"
    using assms(2,14) by (simp add: stored_time_def)
  have second: "Idempotency ttl ?H e r2 h2 w' = (rep2, w2)" using assms(15) by simp
  have "send h0 (ops rep) = send h0 (ops rep1) \<and> dbase w2 = dbase w' \<and> panicked rep2 = None \<and> replays h0 (ops rep1) h2 (ops rep2)"
    by (rule claims.retry_replays [where nxt = ?H, OF calm assms(3-6) fit assms(7) acq inner p1 lt keptf stor
        first [unfolded Idempotency_def] assms(13) okw' refl time second [unfolded Idempotency_def]])
  then show ?thesis using st sent added by (auto simp: replays_def)
qed

text \<open>On a cooperative database that creation is answered 201.\<close>

lemma keyed_creation_answered:
  assumes coop: "cooperative e (dbase w)" and adm: "admissible e r body" and tx: "tx_now w = None"
    and c: "c = claim_of e r body (clock e (ticks w) + ttl_or_default ttl)"
    and new: "shown e (dbase w) (cq_scope c) = None" and user: "user_exists (dbase w) (GetUserID (rq_ctx r))"
    and body: "read_value (body @ '' '') = Got v rest" "decode_Input v = Some input" "Validate (Normalize input) = []"
  shows "\<exists>rep w'. Chain (Handler_Create (NewService e)) [Idempotency ttl] e r h w = (rep, w') \<and>
    panicked rep = None \<and> rs_status (send h (ops rep)) = 201"
proof -
  have e: "\<forall>n. failure e n = None" "driver_of e = DriverSQLite" using coop by (simp_all add: cooperative_def)
  have uid: "GetUserID (rq_ctx r) \<noteq> 0" using adm by (simp add: admissible_def)
  have "user_exists (dbase (tick w)) (cs_user (cq_scope c))" "shown e (dbase (tick w)) (cq_scope c) = None"
    using c new user by (simp_all add: claim_of_def)
  from acquire_fresh [OF e this(2,1)] obtain i w0 ks where
    acq: "acquire dbClaimStore c e (tick w) = (Done (Inr i), w0)"
    and d0: "dbase w0 = (dbase w)\<lparr>idem_keys := ks, seq_idem := seq_idem (dbase w) + 1\<rparr>" by auto
  have "cooperative e (dbase w0)" "user_exists (dbase w0) (GetUserID (rq_ctx r))"
    using coop user d0 by (simp_all add: cooperative_def user_exists_def)
  from Service_Create_ok [OF this refl uid body(3)] obtain t w1 where
    m: "Service_Create (NewService e) (rq_ctx r) (GetUserID (rq_ctx r)) input e w0 = (Done t, w1)" by blast
  have inner: "Handler_Create (NewService e) e (buffered r body) h w0 = (returns (Created_reply (task_json t)), w1)"
    using m body(1,2) by (simp add: Handler_Create_def guarded_by_def Decode_def buffered_def respond_def user_of_def)
  have "Idempotency ttl (Handler_Create (NewService e)) e r h w =
      run_captured dbClaimStore i (cq_expires c) (Handler_Create (NewService e)) e (buffered r body) h w0"
    using acq unfolding Idempotency_def idempotency_admissible [OF adm] Let_def c [symmetric]
    by (simp add: c claim_of_def)
  with inner show ?thesis
    by (simp add: run_captured_def returns_def send_captured) (simp add: Created_reply_def)
qed

text \<open>The sample environment with a clock that stands still.\<close>

definition still_env :: env where
  "still_env = sample_env\<lparr>clock := (\<lambda>_. 0)\<rparr>"

lemma still_env_simps [simp]:
  "driver_of still_env = DriverSQLite" "failure still_env n = None" "clock still_env n = 0"
  "uuid_parse still_env s = Some s" "sha256_hex still_env t = replicate 64 CHR ''a''"
  "new_uuid_at still_env n = ''uuid-'' @ show_nat n"
  by (simp_all add: still_env_def)

definition sample_body :: bytes where
  "sample_body = render (JObj [(''title'', JStr ''Buy milk'')])"

definition sample_creation :: request where
  "sample_creation = sample_request\<lparr>rq_body := sample_body, rq_limit := None\<rparr>"

lemma sample_body_read:
  "read_value (sample_body @ '' '') = Got (DObj [(''title'', DStr ''Buy milk'')]) '' ''"
  "decode_Input (DObj [(''title'', DStr ''Buy milk'')]) = Some sample_input"
proof -
  have "ascii ''title''" "ascii ''Buy milk''" by (simp_all add: ascii_def)
  then have "writable max_nesting (JObj [(''title'', JStr ''Buy milk'')])"
    by (simp add: max_nesting_def valid_utf8_ascii)
  from read_value_render [OF this, of "'' ''"]
  show "read_value (sample_body @ '' '') = Got (DObj [(''title'', DStr ''Buy milk'')]) '' ''"
    by (simp add: sample_body_def)
  show "decode_Input (DObj [(''title'', DStr ''Buy milk'')]) = Some sample_input"
    by (simp add: decode_Input_def into_struct_def sample_input_def)
qed

theorem keyed_creation_happens_once_witness:
  "\<exists>x. tasks (dbase (snd (Chain (Handler_Create (NewService still_env)) [Idempotency hour] still_env sample_creation no_headers
      (snd (Chain (Handler_Create (NewService still_env)) [Idempotency hour] still_env sample_creation no_headers
        sample_world))))) = [x]"
proof -
  let ?run = "Chain (Handler_Create (NewService still_env)) [Idempotency hour] still_env sample_creation no_headers"
  let ?c = "claim_of still_env sample_creation sample_body (clock still_env (ticks sample_world) + ttl_or_default hour)"
  have adm: "admissible still_env sample_creation sample_body"
    by (simp add: admissible_def guarded_def sample_creation_def sample_request_def background_def GetUserID_def read_all_def)
  have coop: "cooperative still_env (dbase sample_world)" by (simp add: cooperative_def)
  have user: "user_exists (dbase sample_world) (GetUserID (rq_ctx sample_creation))"
    by (simp add: user_exists_def sample_creation_def sample_request_def background_def GetUserID_def)
  have new: "shown still_env (dbase sample_world) (cq_scope ?c) = None"
    by (simp add: shown_def scope_key_def)
  have hash: "varchar 64 (cq_hash ?c)" by (simp add: claim_of_def sample_fits(2))
  have valid: "Validate (Normalize sample_input) = []" by (simp add: sample_input_valid)
  have db: "idem_ok (dbase sample_world)" "tx_now sample_world = None" by (simp_all add: sample_idem_ok)
  obtain rep w' where first: "?run sample_world = (rep, w')" and ok: "panicked rep = None" "rs_status (send no_headers (ops rep)) = 201"
    using keyed_creation_answered [OF coop adm db(2) refl new user sample_body_read valid, of no_headers] by blast
  obtain rep2 w2 where second: "?run w' = (rep2, w2)" by fastforce
  have r: "retry_of still_env sample_creation sample_body sample_creation sample_body" by (rule retry_refl [OF adm])
  have "\<exists>x ob au. tasks (dbase w2) = tasks (dbase sample_world) @ [x] \<and> tk_user x = GetUserID (rq_ctx sample_creation) \<and>
      outbox (dbase w2) = outbox (dbase sample_world) @ [ob] \<and> audit_logs (dbase w2) = audit_logs (dbase sample_world) @ [au]"
    by (rule keyed_creation_happens_once [OF _ _ adm db refl hash new user first ok r _ second, THEN conjunct1])
      (simp_all add: claim_of_def ttl_or_default_def)
  with first second show ?thesis by auto
qed

end
